(* ===== verification/Frame_Prelude.thy ===== *)
theory Frame_Prelude
  imports Main "HOL-Library.Word" "HOL-Library.Char_ord" "HOL-Library.List_Lexorder"
begin

text \<open>
  Shared vocabulary of the development: machine integers, \<open>anyhow\<close> errors and results,
  \<open>std::sync::Mutex\<close>, and the pieces of the Rust standard library on strings and slices that
  the photo frame uses (\<open>trim\<close>, \<open>split_once\<close>, \<open>chunks_exact\<close>, decimal and hexadecimal
  formatting, ASCII classification).

  A Rust \<open>String\<close> is modelled by its UTF-8 bytes, one Isabelle \<open>char\<close> per byte, so
  \<open>len\<close>, \<open>is_empty\<close>, byte slicing, equality and the path order are the ones of the code.
  The firmware target is \<open>riscv32imafc-esp-espidf\<close>, so \<open>usize\<close> has 32 bits; the release
  profile has no overflow checks, so unchecked machine arithmetic wraps.
\<close>

unbundle bit_operations_syntax

section \<open>Collections of facts\<close>

named_theorems frame_simps
  \<open>rewrite rules that evaluate results, locks and the standard-library helpers\<close>

named_theorems step_defs
  \<open>definitions of the operations of a stateful component, for case analysis on its steps\<close>

section \<open>Machine integers\<close>

type_synonym u8 = "8 word"
type_synonym u16 = "16 word"
type_synonym u32 = "32 word"
type_synonym u64 = "64 word"

text \<open>\<open>usize\<close> values are natural numbers; unchecked products wrap at 32 bits.\<close>

definition usize_limit :: nat where
  "usize_limit = 2 ^ 32"

definition usize_mul :: "nat \<Rightarrow> nat \<Rightarrow> nat" where
  "usize_mul a b = (a * b) mod usize_limit"

definition usize_checked_add :: "nat \<Rightarrow> nat \<Rightarrow> nat option" where
  "usize_checked_add a b = (if a + b < usize_limit then Some (a + b) else None)"

lemma usize_mul_small [frame_simps]: "a * b < usize_limit \<Longrightarrow> usize_mul a b = a * b"
  by (simp add: usize_mul_def)

lemma usize_checked_add_Some:
  "usize_checked_add a b = Some c \<longleftrightarrow> c = a + b \<and> a + b < usize_limit"
  by (auto simp: usize_checked_add_def)

section \<open>Errors and results\<close>

text \<open>\<open>anyhow::Error\<close>: a message, or a context wrapped around a cause.\<close>

datatype error = Msg string | Context string error

type_synonym 'a result = "error + 'a"

text \<open>\<open>{error}\<close> prints the outermost message, \<open>{error:#}\<close> the whole chain.\<close>

fun fmt_error :: "error \<Rightarrow> string" where
  "fmt_error (Msg m) = m"
| "fmt_error (Context c e) = c"

fun fmt_error_alt :: "error \<Rightarrow> string" where
  "fmt_error_alt (Msg m) = m"
| "fmt_error_alt (Context c e) = c @ '': '' @ fmt_error_alt e"

definition with_context :: "string \<Rightarrow> 'a result \<Rightarrow> 'a result" where
  "with_context c r = (case r of Inl e \<Rightarrow> Inl (Context c e) | Inr a \<Rightarrow> Inr a)"

definition is_ok :: "'a result \<Rightarrow> bool" where
  "is_ok r = (case r of Inl _ \<Rightarrow> False | Inr _ \<Rightarrow> True)"

text \<open>The \<open>?\<close> operator: go on with the value, or return the error.\<close>

definition and_then :: "'a result \<Rightarrow> ('a \<Rightarrow> 'b result) \<Rightarrow> 'b result" where
  "and_then r f = (case r of Inl e \<Rightarrow> Inl e | Inr a \<Rightarrow> f a)"

lemma and_then_simps [simp]:
  "and_then (Inl e) f = Inl e"
  "and_then (Inr a) f = f a"
  by (simp_all add: and_then_def)

lemma and_then_Inr: "and_then r f = Inr b \<longleftrightarrow> (\<exists>a. r = Inr a \<and> f a = Inr b)"
  by (cases r) auto

lemma with_context_simps [simp]:
  "with_context c (Inl e) = Inl (Context c e)"
  "with_context c (Inr a) = Inr a"
  by (simp_all add: with_context_def)

lemma with_context_eq [simp]:
  "with_context c r = Inr a \<longleftrightarrow> r = Inr a"
  "with_context c r = Inl e \<longleftrightarrow> (\<exists>e'. r = Inl e' \<and> e = Context c e')"
  by (auto simp: with_context_def split: sum.splits)

lemma is_ok_simps [simp]: "\<not> is_ok (Inl e)" "is_ok (Inr a)"
  by (simp_all add: is_ok_def)

lemma is_ok_with_context [simp]: "is_ok (with_context c r) = is_ok r"
  by (simp add: is_ok_def with_context_def split: sum.split)

lemma is_ok_iff: "is_ok r \<longleftrightarrow> (\<exists>a. r = Inr a)"
  by (cases r) auto

section \<open>Mutexes\<close>

text \<open>
  A lock is poisoned when a thread panics while holding it; from then on \<open>lock()\<close> is an
  error. Every access of the code goes through \<open>lock().map_err(..)\<close>, so the value behind a
  poisoned lock is out of reach and the model drops it.
\<close>

datatype 'a mutex = Unpoisoned (lock_val: 'a) | Poisoned

definition with_lock :: "error \<Rightarrow> 's mutex \<Rightarrow> ('s \<Rightarrow> 'a \<times> 's) \<Rightarrow> 'a result \<times> 's mutex" where
  "with_lock e m f =
     (case m of
        Poisoned \<Rightarrow> (Inl e, Poisoned)
      | Unpoisoned s \<Rightarrow> (case f s of (a, s') \<Rightarrow> (Inr a, Unpoisoned s')))"

lemma with_lock_simps [simp]:
  "with_lock e Poisoned f = (Inl e, Poisoned)"
  "with_lock e (Unpoisoned s) f = (Inr (fst (f s)), Unpoisoned (snd (f s)))"
  by (simp_all add: with_lock_def split: prod.split)

lemma with_lock_poisoned_iff [simp]: "snd (with_lock e m f) = Poisoned \<longleftrightarrow> m = Poisoned"
  by (cases m) simp_all

lemma is_ok_with_lock [simp]: "is_ok (fst (with_lock e m f)) \<longleftrightarrow> m \<noteq> Poisoned"
  by (cases m) simp_all

end
