(* ===== verification/Frame_Text.thy ===== *)
theory Frame_Text
  imports Frame_Prelude
begin

text \<open>
  The text and byte helpers of the Rust standard library that the frame uses, on UTF-8 byte
  strings: whitespace trimming, splitting, ASCII classification, decimal and hexadecimal
  formatting and parsing, and slicing into chunks.
\<close>

section \<open>ASCII classes\<close>

definition in_range :: "char \<Rightarrow> char \<Rightarrow> char \<Rightarrow> bool" where
  "in_range lo hi c \<longleftrightarrow> (of_char lo :: nat) \<le> of_char c \<and> (of_char c :: nat) \<le> of_char hi"

definition is_ascii_digit :: "char \<Rightarrow> bool" where
  "is_ascii_digit = in_range CHR ''0'' CHR ''9''"

definition is_ascii_upper :: "char \<Rightarrow> bool" where
  "is_ascii_upper = in_range CHR ''A'' CHR ''Z''"

definition is_ascii_lower :: "char \<Rightarrow> bool" where
  "is_ascii_lower = in_range CHR ''a'' CHR ''z''"

definition is_ascii_alphanumeric :: "char \<Rightarrow> bool" where
  "is_ascii_alphanumeric c \<longleftrightarrow> is_ascii_digit c \<or> is_ascii_upper c \<or> is_ascii_lower c"

definition is_ascii_hexdigit :: "char \<Rightarrow> bool" where
  "is_ascii_hexdigit c \<longleftrightarrow>
     is_ascii_digit c \<or> in_range CHR ''A'' CHR ''F'' c \<or> in_range CHR ''a'' CHR ''f'' c"

definition ascii_lower :: "char \<Rightarrow> char" where
  "ascii_lower c = (if is_ascii_upper c then char_of ((of_char c :: nat) + 32) else c)"

definition ascii_upper :: "char \<Rightarrow> char" where
  "ascii_upper c = (if is_ascii_lower c then char_of ((of_char c :: nat) - 32) else c)"

definition to_ascii_lowercase :: "string \<Rightarrow> string" where
  "to_ascii_lowercase = map ascii_lower"

text \<open>\<open>char::to_digit(16)\<close>.\<close>

definition to_digit16 :: "char \<Rightarrow> nat option" where
  "to_digit16 c =
     (if is_ascii_digit c then Some (of_char c - 48)
      else if in_range CHR ''A'' CHR ''F'' c then Some (of_char c - 55)
      else if in_range CHR ''a'' CHR ''f'' c then Some (of_char c - 87)
      else None)"

lemma to_digit16_less: "to_digit16 c = Some d \<Longrightarrow> d < 16"
  by (auto simp: to_digit16_def is_ascii_digit_def in_range_def split: if_splits)

section \<open>Trimming\<close>

text \<open>The UTF-8 encodings of the Unicode \<open>White_Space\<close> characters, which \<open>str::trim\<close> strips.\<close>

definition byte_string :: "nat list \<Rightarrow> string" where
  "byte_string = map char_of"

definition white_space :: "string list" where
  "white_space = map byte_string
     ([[9], [10], [11], [12], [13], [32], [194, 133], [194, 160], [225, 154, 128]]
      @ map (\<lambda>b. [226, 128, b]) [128..<139]
      @ [[226, 128, 168], [226, 128, 169], [226, 128, 175], [226, 129, 159], [227, 128, 128]])"

definition has_prefix :: "string \<Rightarrow> string \<Rightarrow> bool" where
  "has_prefix w s \<longleftrightarrow> take (length w) s = w"

definition contains_str :: "string \<Rightarrow> string \<Rightarrow> bool" where
  "contains_str w s \<longleftrightarrow> (\<exists>i \<in> set [0..<Suc (length s)]. has_prefix w (drop i s))"

function strip_leading :: "string list \<Rightarrow> string \<Rightarrow> string" where
  "strip_leading ws s =
     (case find (\<lambda>w. w \<noteq> [] \<and> has_prefix w s) ws of
        None \<Rightarrow> s
      | Some w \<Rightarrow> strip_leading ws (drop (length w) s))"
  by pat_completeness auto
termination
proof (relation "measure (\<lambda>(ws, s). length s)", goal_cases)
  case 1
  then show ?case by simp
next
  case (2 ws s w)
  then have "w \<noteq> []" and "has_prefix w s"
    by (auto simp: find_Some_iff)
  then have "s \<noteq> []"
    by (auto simp: has_prefix_def)
  with \<open>w \<noteq> []\<close> show ?case
    by (simp add: diff_less)
qed

declare strip_leading.simps [simp del]

definition trim_start :: "string \<Rightarrow> string" where
  "trim_start = strip_leading white_space"

definition trim_end :: "string \<Rightarrow> string" where
  "trim_end s = rev (strip_leading (map rev white_space) (rev s))"

definition str_trim :: "string \<Rightarrow> string" where
  "str_trim s = trim_end (trim_start s)"

lemma has_prefix_iff: "has_prefix w s \<longleftrightarrow> (\<exists>t. s = w @ t)"
  by (metis append_eq_conv_conj append_take_drop_id has_prefix_def)

lemma has_prefix_append: "has_prefix w s \<Longrightarrow> has_prefix w (s @ t)"
  by (auto simp: has_prefix_iff)

lemma strip_leading_fixed:
  assumes "\<not> (\<exists>w \<in> set ws. w \<noteq> [] \<and> has_prefix w s)"
  shows "strip_leading ws s = s"
proof -
  from assms have "find (\<lambda>w. w \<noteq> [] \<and> has_prefix w s) ws = None"
    by (auto simp: find_None_iff)
  then show ?thesis by (simp add: strip_leading.simps [of ws s])
qed

lemma strip_leading_step:
  assumes "find (\<lambda>w. w \<noteq> [] \<and> has_prefix w s) ws = Some w"
  shows "strip_leading ws s = strip_leading ws (drop (length w) s)"
    and "s = w @ drop (length w) s"
proof -
  from assms show "strip_leading ws s = strip_leading ws (drop (length w) s)"
    by (simp add: strip_leading.simps [of ws s])
  from assms have "has_prefix w s"
    by (auto simp: find_Some_iff)
  then show "s = w @ drop (length w) s"
    by (auto simp: has_prefix_iff)
qed

lemma strip_leading_stops:
  "\<not> (\<exists>w \<in> set ws. w \<noteq> [] \<and> has_prefix w (strip_leading ws s))"
proof (induction ws s rule: strip_leading.induct)
  case (1 ws s)
  show ?case
  proof (cases "find (\<lambda>w. w \<noteq> [] \<and> has_prefix w s) ws")
    case None
    then have "\<not> (\<exists>w \<in> set ws. w \<noteq> [] \<and> has_prefix w s)"
      by (auto simp: find_None_iff)
    then show ?thesis by (simp add: strip_leading_fixed)
  next
    case (Some w)
    with "1.IH" show ?thesis
      by (simp only: strip_leading_step(1) [OF Some] not_False_eq_True)
  qed
qed

lemma strip_leading_suffix: "\<exists>p. s = p @ strip_leading ws s"
proof (induction ws s rule: strip_leading.induct)
  case (1 ws s)
  show ?case
  proof (cases "find (\<lambda>w. w \<noteq> [] \<and> has_prefix w s) ws")
    case None
    then have "strip_leading ws s = s" by (simp add: strip_leading.simps [of ws s])
    then show ?thesis by simp
  next
    case (Some w)
    from "1.IH" Some
    obtain p where "drop (length w) s = p @ strip_leading ws (drop (length w) s)" by blast
    then have "s = (w @ p) @ strip_leading ws s"
      using strip_leading_step [OF Some] by (metis append_assoc)
    then show ?thesis by blast
  qed
qed

text \<open>Trimming is a projection: what it returns has nothing left to trim.\<close>

lemma trim_end_prefix: "\<exists>p. s = trim_end s @ p"
proof -
  obtain q where "rev s = q @ strip_leading (map rev white_space) (rev s)"
    using strip_leading_suffix by blast
  then have "s = rev (strip_leading (map rev white_space) (rev s)) @ rev q"
    by (metis rev_append rev_rev_ident)
  then show ?thesis by (auto simp: trim_end_def)
qed

lemma str_trim_idem [simp]: "str_trim (str_trim s) = str_trim s"
proof -
  obtain p where p: "trim_start s = trim_end (trim_start s) @ p"
    using trim_end_prefix by blast
  have "\<not> (\<exists>w \<in> set white_space. w \<noteq> [] \<and> has_prefix w (trim_start s))"
    unfolding trim_start_def by (rule strip_leading_stops)
  with p have "\<not> (\<exists>w \<in> set white_space. w \<noteq> [] \<and> has_prefix w (trim_end (trim_start s)))"
    by (metis has_prefix_append)
  then have "trim_start (trim_end (trim_start s)) = trim_end (trim_start s)"
    unfolding trim_start_def by (rule strip_leading_fixed)
  moreover have "trim_end (trim_end t) = trim_end t" for t
    by (simp add: trim_end_def strip_leading_fixed [OF strip_leading_stops])
  ultimately show ?thesis by (simp add: str_trim_def)
qed

lemma str_trim_Nil [simp]: "str_trim [] = []"
  by (simp add: str_trim_def trim_end_def trim_start_def strip_leading_fixed has_prefix_def)

section \<open>Splitting and chunking\<close>

text \<open>\<open>str::split_once\<close>: cut at the first occurrence.\<close>

fun split_once :: "char \<Rightarrow> string \<Rightarrow> (string \<times> string) option" where
  "split_once d [] = None"
| "split_once d (c # cs) =
     (if c = d then Some ([], cs) else map_option (\<lambda>(a, b). (c # a, b)) (split_once d cs))"

text \<open>\<open>str::split\<close> at every occurrence of a character.\<close>

fun split_on :: "char \<Rightarrow> string \<Rightarrow> string list" where
  "split_on d [] = [[]]"
| "split_on d (c # cs) =
     (if c = d then [] # split_on d cs
      else (case split_on d cs of [] \<Rightarrow> [[c]] | p # ps \<Rightarrow> (c # p) # ps))"

lemma split_once_append:
  "d \<notin> set a \<Longrightarrow> split_once d (a @ d # b) = Some (a, b)"
  by (induction a) auto

lemma split_once_None: "split_once d s = None \<longleftrightarrow> d \<notin> set s"
  by (induction s) auto

lemma split_on_append:
  "d \<notin> set a \<Longrightarrow> split_on d (a @ d # b) = a # split_on d b"
  by (induction a) auto

lemma split_on_single: "d \<notin> set a \<Longrightarrow> split_on d a = [a]"
  by (induction a) auto

text \<open>\<open>slice::chunks_exact\<close>: full chunks only, the remainder is dropped.\<close>

function chunks_exact :: "nat \<Rightarrow> 'a list \<Rightarrow> 'a list list" where
  "chunks_exact n xs =
     (if n = 0 \<or> length xs < n then [] else take n xs # chunks_exact n (drop n xs))"
  by pat_completeness auto
termination
proof (relation "measure (\<lambda>(n, xs). length xs)", goal_cases)
  case 1
  then show ?case by simp
next
  case (2 n xs)
  then have "0 < n" and "n \<le> length xs" by auto
  then have "length xs - n < length xs" by linarith
  then show ?case by simp
qed

declare chunks_exact.simps [simp del]

lemma chunks_exact_Nil [simp]: "chunks_exact n [] = []"
  by (subst chunks_exact.simps) (auto simp: neq0_conv)

lemma chunks_exact_append:
  "0 < n \<Longrightarrow> length xs = n \<Longrightarrow> chunks_exact n (xs @ ys) = xs # chunks_exact n ys"
  by (subst chunks_exact.simps) simp

lemma length_chunks_exact: "0 < n \<Longrightarrow> length (chunks_exact n xs) = length xs div n"
proof (induction n xs rule: chunks_exact.induct)
  case (1 n xs)
  show ?case
  proof (cases "length xs < n")
    case True
    then show ?thesis by (simp add: chunks_exact.simps [of n xs])
  next
    case False
    with "1.prems" have "length (chunks_exact n (drop n xs)) = (length xs - n) div n"
      using "1.IH" by simp
    with False "1.prems" show ?thesis
      by (simp add: chunks_exact.simps [of n xs] le_div_geq)
  qed
qed

lemma chunks_exact_elem: "c \<in> set (chunks_exact n xs) \<Longrightarrow> length c = n"
  by (induction n xs rule: chunks_exact.induct)
    (subst (asm) (2) chunks_exact.simps, auto split: if_splits)

lemma nth_chunks_exact:
  "0 < n \<Longrightarrow> i < length xs div n \<Longrightarrow> chunks_exact n xs ! i = take n (drop (i * n) xs)"
proof (induction i arbitrary: xs)
  case 0
  then have "n \<le> length xs" by (simp add: div_greater_zero_iff)
  with 0 show ?case by (simp add: chunks_exact.simps [of n xs])
next
  case (Suc i)
  then have le: "n \<le> length xs"
    by (metis div_less not_less_zero not_le)
  with Suc.prems have "i < length (drop n xs) div n"
    by (simp add: le_div_geq)
  with Suc.IH [of "drop n xs"] Suc.prems le show ?case
    by (simp add: chunks_exact.simps [of n xs] add.commute)
qed

section \<open>Numbers as text\<close>

definition digit_char :: "nat \<Rightarrow> char" where
  "digit_char d = char_of (48 + d)"

text \<open>\<open>{n}\<close>, \<open>{n:0w}\<close>, \<open>{n:02x}\<close> and \<open>{n:02X}\<close>/\<open>{n:04X}\<close>.\<close>

fun show_nat :: "nat \<Rightarrow> string" where
  "show_nat n = (if n < 10 then [digit_char n] else show_nat (n div 10) @ [digit_char (n mod 10)])"

declare show_nat.simps [simp del]

definition pad_left :: "nat \<Rightarrow> string \<Rightarrow> string" where
  "pad_left w s = replicate (w - length s) CHR ''0'' @ s"

definition show_padded :: "nat \<Rightarrow> nat \<Rightarrow> string" where
  "show_padded w n = pad_left w (show_nat n)"

definition hex_char :: "bool \<Rightarrow> nat \<Rightarrow> char" where
  "hex_char upper d = (if d < 10 then char_of (48 + d) else char_of ((if upper then 55 else 87) + d))"

fun show_hex :: "bool \<Rightarrow> nat \<Rightarrow> nat \<Rightarrow> string" where
  "show_hex upper 0 n = []"
| "show_hex upper (Suc k) n = show_hex upper k (n div 16) @ [hex_char upper (n mod 16)]"

text \<open>\<open>str::parse::<u64>\<close>: an optional plus sign, then digits, within 64 bits.\<close>

fun parse_digits :: "nat \<Rightarrow> string \<Rightarrow> nat option" where
  "parse_digits acc [] = Some acc"
| "parse_digits acc (c # cs) =
     (if is_ascii_digit c then parse_digits (acc * 10 + (of_char c - 48)) cs else None)"

definition parse_u64 :: "string \<Rightarrow> nat option" where
  "parse_u64 s =
     (let t = (case s of [] \<Rightarrow> [] | c # r \<Rightarrow> if c = CHR ''+'' then r else s)
      in if t = [] then None
         else (case parse_digits 0 t of
                 None \<Rightarrow> None
               | Some n \<Rightarrow> if n < 2 ^ 64 then Some n else None))"

subsection \<open>Decimal digits\<close>

lemma of_char_digit [simp]: "d < 10 \<Longrightarrow> (of_char (digit_char d) :: nat) = 48 + d"
  by (simp add: digit_char_def)

lemma is_ascii_digit_digit [simp]: "d < 10 \<Longrightarrow> is_ascii_digit (digit_char d)"
  by (simp add: is_ascii_digit_def in_range_def)

lemma digit_char_less [simp]: "a < 10 \<Longrightarrow> b < 10 \<Longrightarrow> digit_char a < digit_char b \<longleftrightarrow> a < b"
  by (simp add: less_char_def)

lemma digit_char_eq [simp]: "a < 10 \<Longrightarrow> b < 10 \<Longrightarrow> digit_char a = digit_char b \<longleftrightarrow> a = b"
  by (metis add_left_cancel of_char_digit)

lemma zero_digit: "CHR ''0'' = digit_char 0"
  by code_simp

text \<open>The \<open>k\<close> low decimal digits of a number, which is what zero padding prints.\<close>

fun low_digits :: "nat \<Rightarrow> nat \<Rightarrow> string" where
  "low_digits 0 n = []"
| "low_digits (Suc k) n = low_digits k (n div 10) @ [digit_char (n mod 10)]"

lemma length_low_digits [simp]: "length (low_digits k n) = k"
  by (induction k arbitrary: n) auto

lemma low_digits_0: "low_digits k 0 = replicate k (digit_char 0)"
  by (induction k) (auto simp: replicate_append_same)

lemma show_nat_nonempty [simp]: "show_nat n \<noteq> []"
  by (subst show_nat.simps) simp

lemma length_show_nat_le: "0 < k \<Longrightarrow> n < 10 ^ k \<Longrightarrow> length (show_nat n) \<le> k"
proof (induction n arbitrary: k rule: show_nat.induct)
  case (1 n)
  show ?case
  proof (cases "n < 10")
    case True
    with "1.prems" show ?thesis by (simp add: show_nat.simps [of n])
  next
    case False
    with "1.prems" obtain j where k: "k = Suc j" and j: "0 < j"
      by (cases k; cases "k - 1") auto
    with "1.prems" have "n div 10 < 10 ^ j" by (simp add: less_mult_imp_div_less mult.commute)
    with False j "1.IH" have "length (show_nat (n div 10)) \<le> j" by simp
    with False k show ?thesis by (simp add: show_nat.simps [of n])
  qed
qed

lemma show_padded_low_digits:
  "0 < k \<Longrightarrow> n < 10 ^ k \<Longrightarrow> show_padded k n = low_digits k n"
proof (induction n arbitrary: k rule: show_nat.induct)
  case (1 n)
  from "1.prems" obtain j where k: "k = Suc j" by (cases k) auto
  show ?case
  proof (cases "n < 10")
    case True
    with k show ?thesis
      by (simp add: show_padded_def pad_left_def show_nat.simps [of n] low_digits_0 zero_digit)
  next
    case False
    with "1.prems" k have j: "0 < j" by (cases j) auto
    from "1.prems" k have lt: "n div 10 < 10 ^ j" by (simp add: less_mult_imp_div_less mult.commute)
    with j False "1.IH" have "show_padded j (n div 10) = low_digits j (n div 10)" by simp
    with False k show ?thesis
      by (simp add: show_padded_def pad_left_def show_nat.simps [of n])
  qed
qed

lemma lex_snoc_less:
  fixes xs ys :: "'a :: order list"
  assumes "length xs = length ys"
  shows "xs @ [a] < ys @ [b] \<longleftrightarrow> xs < ys \<or> (xs = ys \<and> a < b)"
  using assms
proof (induction xs ys rule: list_induct2)
  case Nil
  then show ?case by simp
next
  case (Cons x xs y ys)
  then show ?case by auto
qed

lemma low_digits_less:
  "m < 10 ^ k \<Longrightarrow> n < 10 ^ k \<Longrightarrow> low_digits k m < low_digits k n \<longleftrightarrow> m < n"
proof (induction k arbitrary: m n)
  case 0
  then show ?case by simp
next
  case (Suc k)
  then have lt: "m div 10 < 10 ^ k" "n div 10 < 10 ^ k"
    by (simp_all add: less_mult_imp_div_less mult.commute)
  have ih: "low_digits k (m div 10) < low_digits k (n div 10) \<longleftrightarrow> m div 10 < n div 10"
    and hi: "low_digits k (n div 10) < low_digits k (m div 10) \<longleftrightarrow> n div 10 < m div 10"
    using Suc.IH lt by blast+
  then have eq: "low_digits k (m div 10) = low_digits k (n div 10) \<longleftrightarrow> m div 10 = n div 10"
    by (metis less_irrefl linorder_neqE_nat)
  have "a * 10 + b < c * 10 + d \<longleftrightarrow> a < c \<or> (a = c \<and> b < d)"
    if "b < 10" "d < 10" for a b c d :: nat
    using that by arith
  from this [of "m mod 10" "n mod 10" "m div 10" "n div 10"]
  have "m < n \<longleftrightarrow> m div 10 < n div 10 \<or> (m div 10 = n div 10 \<and> m mod 10 < n mod 10)"
    by simp
  also have "\<dots> \<longleftrightarrow> low_digits (Suc k) m < low_digits (Suc k) n"
    by (simp only: low_digits.simps lex_snoc_less length_low_digits ih eq digit_char_less
        mod_less_divisor zero_less_numeral)
  finally show ?case ..
qed

lemma show_padded_less:
  "0 < k \<Longrightarrow> m < 10 ^ k \<Longrightarrow> n < 10 ^ k \<Longrightarrow> show_padded k m < show_padded k n \<longleftrightarrow> m < n"
  by (simp add: show_padded_low_digits low_digits_less)

lemma parse_digits_snoc:
  "d < 10 \<Longrightarrow> parse_digits acc (s @ [digit_char d]) = map_option (\<lambda>n. n * 10 + d) (parse_digits acc s)"
  by (induction s arbitrary: acc) auto

lemma parse_digits_low_digits: "parse_digits 0 (low_digits k n) = Some (n mod 10 ^ k)"
proof (induction k arbitrary: n)
  case 0
  then show ?case by simp
next
  case (Suc k)
  have "n mod (10 * 10 ^ k) = (n div 10 mod 10 ^ k) * 10 + n mod 10"
    by (metis mod_mult2_eq add.commute mult.commute)
  with Suc show ?case by (simp add: parse_digits_snoc)
qed

lemma low_digits_digits: "c \<in> set (low_digits k n) \<Longrightarrow> is_ascii_digit c"
  by (induction k arbitrary: n) auto

lemma show_nat_digits: "c \<in> set (show_nat n) \<Longrightarrow> is_ascii_digit c"
proof (induction n rule: show_nat.induct)
  case (1 n)
  show ?case
  proof (cases "n < 10")
    case True
    with 1(2) show ?thesis by (subst (asm) show_nat.simps) simp
  next
    case False
    with 1(2) have "c \<in> set (show_nat (n div 10)) \<or> c = digit_char (n mod 10)"
      by (subst (asm) show_nat.simps) auto
    with 1(1) [OF False] show ?thesis by auto
  qed
qed

lemma show_padded_digits: "c \<in> set (show_padded k n) \<Longrightarrow> is_ascii_digit c"
  using is_ascii_digit_digit [of 0] show_nat_digits [of c n]
  by (auto simp: show_padded_def pad_left_def zero_digit split: if_splits)

lemma parse_u64_show_padded:
  assumes "0 < k" "n < 10 ^ k" "n < 2 ^ 64"
  shows "parse_u64 (show_padded k n) = Some n"
proof -
  obtain c cs where c: "low_digits k n = c # cs"
    using assms(1) by (metis length_0_conv length_low_digits neq_Nil_conv not_gr_zero)
  then have "is_ascii_digit c"
    by (metis list.set_intros(1) low_digits_digits)
  then have "c \<noteq> CHR ''+''"
    by (auto simp: is_ascii_digit_def in_range_def)
  moreover have "parse_digits 0 (c # cs) = Some n"
    using parse_digits_low_digits [of k n] assms(2) by (simp only: c mod_less)
  ultimately show ?thesis
    using assms(3) by (simp add: show_padded_low_digits [OF assms(1,2)] parse_u64_def c del: parse_digits.simps)
qed

section \<open>Latin-1 bytes pushed as characters\<close>

text \<open>
  \<open>out.push(b as char)\<close> appends the character with code point \<open>b\<close>, whose UTF-8 encoding has
  two bytes from 128 on.
\<close>

definition push_latin1 :: "u8 \<Rightarrow> string" where
  "push_latin1 b =
     (if unat b < 128 then [char_of (unat b)]
      else [char_of (192 + unat b div 64), char_of (128 + unat b mod 64)])"

definition byte_of :: "char \<Rightarrow> u8" where
  "byte_of c = word_of_nat (of_char c)"

definition as_bytes :: "string \<Rightarrow> u8 list" where
  "as_bytes = map byte_of"

definition is_ascii :: "string \<Rightarrow> bool" where
  "is_ascii s \<longleftrightarrow> list_all (\<lambda>c. (of_char c :: nat) < 128) s"

lemma unat_byte_of [simp]: "unat (byte_of c) = of_char c"
proof -
  have "(of_char c :: nat) < 256" by simp
  then show ?thesis by (simp add: byte_of_def unat_of_nat)
qed

lemma push_latin1_ascii: "(of_char c :: nat) < 128 \<Longrightarrow> push_latin1 (byte_of c) = [c]"
  by (simp add: push_latin1_def)

lemma length_as_bytes [simp]: "length (as_bytes s) = length s"
  by (simp add: as_bytes_def)

end
