(* ===== verification/Frame_State.thy ===== *)
theory Frame_State
  imports Frame_Text
begin

text \<open>
  \<open>packages/frame-core/src/state.rs\<close>: the frame's application state, its three phase types and
  the setters through which the firmware changes it. \<open>ScreenStatus\<close> comes from
  \<open>control.rs\<close>.
\<close>

section \<open>Phases\<close>

datatype AppPhase = Splash | Setup | AppReady

datatype NetworkPhase = Unprovisioned | Provisioning | NetConnected

datatype ControllerPhase =
    NotStarted
  | Searching
  | AwaitingConfiguration
  | CtlConnected
  | CtlError string

datatype ScreenStatus = Idle | Rendering | ScreenError

fun app_phase_as_str :: "AppPhase \<Rightarrow> string" where
  "app_phase_as_str Splash = ''Splash''"
| "app_phase_as_str Setup = ''Setup''"
| "app_phase_as_str AppReady = ''Ready''"

fun network_phase_as_str :: "NetworkPhase \<Rightarrow> string" where
  "network_phase_as_str Unprovisioned = ''Unprovisioned''"
| "network_phase_as_str Provisioning = ''Provisioning''"
| "network_phase_as_str NetConnected = ''Connected''"

fun controller_phase_as_str :: "ControllerPhase \<Rightarrow> string" where
  "controller_phase_as_str NotStarted = ''NotStarted''"
| "controller_phase_as_str Searching = ''Searching''"
| "controller_phase_as_str AwaitingConfiguration = ''AwaitingConfiguration''"
| "controller_phase_as_str CtlConnected = ''Connected''"
| "controller_phase_as_str (CtlError _) = ''Error''"

section \<open>The application state\<close>

record AppState =
  phase :: AppPhase
  network_phase :: NetworkPhase
  controller_phase :: ControllerPhase
  active_media_url :: "string option"
  screen_status :: ScreenStatus
  display_brightness :: "u8 option"
  provisioning_ssid :: "string option"
  provisioning_password :: "string option"
  device_id :: "string option"
  device_name :: "string option"

definition app_state_new :: AppState where
  "app_state_new =
     \<lparr>phase = Splash, network_phase = Unprovisioned, controller_phase = NotStarted,
      active_media_url = None, screen_status = Idle, display_brightness = None,
      provisioning_ssid = None, provisioning_password = None,
      device_id = None, device_name = None\<rparr>"

definition begin_setup :: "AppState \<Rightarrow> AppState" where
  "begin_setup s = s\<lparr>phase := Setup\<rparr>"

definition mark_ready :: "AppState \<Rightarrow> AppState" where
  "mark_ready s = s\<lparr>phase := AppReady\<rparr>"

definition clear_provisioning_details :: "AppState \<Rightarrow> AppState" where
  "clear_provisioning_details s = s\<lparr>provisioning_ssid := None, provisioning_password := None\<rparr>"

definition set_network_phase :: "NetworkPhase \<Rightarrow> AppState \<Rightarrow> AppState" where
  "set_network_phase p s =
     (let s1 = (if p \<noteq> Provisioning then clear_provisioning_details s else s);
          s2 = s1\<lparr>network_phase := p\<rparr>
      in if network_phase s2 \<noteq> NetConnected then s2\<lparr>controller_phase := NotStarted\<rparr> else s2)"

definition app_set_controller_phase :: "ControllerPhase \<Rightarrow> AppState \<Rightarrow> AppState" where
  "app_set_controller_phase p s = s\<lparr>controller_phase := p\<rparr>"

definition set_controller_error :: "string \<Rightarrow> AppState \<Rightarrow> AppState" where
  "set_controller_error e s = s\<lparr>controller_phase := CtlError e\<rparr>"

definition set_active_media_url :: "string \<Rightarrow> AppState \<Rightarrow> AppState" where
  "set_active_media_url u s = s\<lparr>active_media_url := Some u\<rparr>"

definition clear_active_media_url :: "AppState \<Rightarrow> AppState" where
  "clear_active_media_url s = s\<lparr>active_media_url := None\<rparr>"

definition set_screen_status :: "ScreenStatus \<Rightarrow> AppState \<Rightarrow> AppState" where
  "set_screen_status v s = s\<lparr>screen_status := v\<rparr>"

definition set_display_brightness :: "u8 option \<Rightarrow> AppState \<Rightarrow> AppState" where
  "set_display_brightness b s = s\<lparr>display_brightness := b\<rparr>"

definition set_provisioning_details :: "string \<Rightarrow> string \<Rightarrow> AppState \<Rightarrow> AppState" where
  "set_provisioning_details ssid pw s =
     s\<lparr>provisioning_ssid := Some ssid, provisioning_password := Some pw\<rparr>"

definition set_device_identity :: "string \<Rightarrow> string \<Rightarrow> AppState \<Rightarrow> AppState" where
  "set_device_identity i n s = s\<lparr>device_id := Some i, device_name := Some n\<rparr>"

lemmas app_state_defs =
  app_state_new_def begin_setup_def mark_ready_def clear_provisioning_details_def
  set_network_phase_def app_set_controller_phase_def set_controller_error_def
  set_active_media_url_def clear_active_media_url_def set_screen_status_def
  set_display_brightness_def set_provisioning_details_def set_device_identity_def

section \<open>Steps of the application state\<close>

text \<open>
  One constructor per setter. Two facts hold along every sequence of setters, whatever the caller:
  the setup credential is stored whole or not at all, and so is the device identity. The
  credential is only ever held because somebody stored it after the last move to a phase other
  than \<open>Provisioning\<close>.
\<close>

datatype app_op =
    Op_begin_setup
  | Op_mark_ready
  | Op_network NetworkPhase
  | Op_controller ControllerPhase
  | Op_controller_error string
  | Op_media_url string
  | Op_clear_media_url
  | Op_screen ScreenStatus
  | Op_brightness "u8 option"
  | Op_details string string
  | Op_clear_details
  | Op_identity string string

fun app_step :: "AppState \<Rightarrow> app_op \<Rightarrow> AppState" where
  "app_step s Op_begin_setup = begin_setup s"
| "app_step s Op_mark_ready = mark_ready s"
| "app_step s (Op_network p) = set_network_phase p s"
| "app_step s (Op_controller p) = app_set_controller_phase p s"
| "app_step s (Op_controller_error e) = set_controller_error e s"
| "app_step s (Op_media_url u) = set_active_media_url u s"
| "app_step s Op_clear_media_url = clear_active_media_url s"
| "app_step s (Op_screen v) = set_screen_status v s"
| "app_step s (Op_brightness b) = set_display_brightness b s"
| "app_step s (Op_details a b) = set_provisioning_details a b s"
| "app_step s Op_clear_details = clear_provisioning_details s"
| "app_step s (Op_identity a b) = set_device_identity a b s"

definition app_run :: "AppState \<Rightarrow> app_op list \<Rightarrow> AppState" where
  "app_run s ops = foldl app_step s ops"

definition paired_details :: "AppState \<Rightarrow> bool" where
  "paired_details s \<longleftrightarrow>
     (provisioning_ssid s = None \<longleftrightarrow> provisioning_password s = None) \<and>
     (device_id s = None \<longleftrightarrow> device_name s = None)"

definition stores_details :: "app_op \<Rightarrow> bool" where
  "stores_details e = (case e of Op_details _ _ \<Rightarrow> True | _ \<Rightarrow> False)"

lemma app_run_simps [simp]:
  "app_run s [] = s"
  "app_run s (e # es) = app_run (app_step s e) es"
  by (simp_all add: app_run_def)

lemma app_run_append: "app_run s (es @ fs) = app_run (app_run s es) fs"
  by (simp add: app_run_def)

lemma paired_details_step: "paired_details s \<Longrightarrow> paired_details (app_step s e)"
  by (cases e) (simp_all add: paired_details_def app_state_defs Let_def)

lemma paired_details_run: "paired_details s \<Longrightarrow> paired_details (app_run s es)"
  by (induction es arbitrary: s) (auto intro: paired_details_step)

lemma no_details_step:
  "provisioning_password s = None \<Longrightarrow> \<not> stores_details e \<Longrightarrow>
   provisioning_password (app_step s e) = None"
  by (cases e) (simp_all add: app_state_defs Let_def stores_details_def)

lemma no_details_run:
  "provisioning_password s = None \<Longrightarrow> list_all (\<lambda>e. \<not> stores_details e) es \<Longrightarrow>
   provisioning_password (app_run s es) = None"
  by (induction es arbitrary: s) (auto simp: no_details_step)

lemma leaving_provisioning_forgets:
  "p \<noteq> Provisioning \<Longrightarrow>
   provisioning_ssid (set_network_phase p s) = None \<and> provisioning_password (set_network_phase p s) = None"
  by (simp add: app_state_defs Let_def)

lemma losing_network_resets_controller:
  "p \<noteq> NetConnected \<Longrightarrow> controller_phase (set_network_phase p s) = NotStarted"
  by (simp add: app_state_defs Let_def)

lemma set_network_phase_network [simp]: "network_phase (set_network_phase p s) = p"
  by (simp add: app_state_defs Let_def)

text \<open>
  The setup credential does not outlive provisioning. From the start of the firmware through
  any setters, then a move to a phase other than \<open>Provisioning\<close>, then any setters that store no
  new credential, neither a password nor a network name is held.
\<close>

theorem credential_does_not_linger:
  assumes "p \<noteq> Provisioning" and "list_all (\<lambda>e. \<not> stores_details e) later"
  shows "provisioning_password (app_run app_state_new (earlier @ Op_network p # later)) = None \<and>
         provisioning_ssid (app_run app_state_new (earlier @ Op_network p # later)) = None"
proof -
  let ?mid = "set_network_phase p (app_run app_state_new earlier)"
  let ?s = "app_run app_state_new (earlier @ Op_network p # later)"
  have s: "?s = app_run ?mid later"
    by (simp add: app_run_append)
  have "provisioning_password ?mid = None"
    using assms(1) by (simp add: leaving_provisioning_forgets)
  then have pw: "provisioning_password ?s = None"
    unfolding s using assms(2) by (rule no_details_run)
  have "paired_details ?s"
    by (rule paired_details_run) (simp add: paired_details_def app_state_new_def)
  with pw show ?thesis by (simp add: paired_details_def)
qed

theorem credential_does_not_linger_witness:
  "provisioning_password
     (app_run app_state_new
        ([Op_network Provisioning, Op_details ''Frame-00A1'' ''pw''] @ Op_network NetConnected #
         [Op_controller Searching])) = None"
  by (rule credential_does_not_linger
        [of NetConnected "[Op_controller Searching]"
            "[Op_network Provisioning, Op_details ''Frame-00A1'' ''pw'']", THEN conjunct1])
    (simp_all add: stores_details_def)

end
