(* ===== verification/Control_Message.thy ===== *)
theory Control_Message
  imports Frame_State
begin

text \<open>
  \<open>packages/frame-core/src/control.rs\<close>: the messages of the control channel and the validation
  that turns an incoming message into one event. Reading the JSON text is \<open>serde_json\<close>, so the
  parser is a parameter; everything the frame itself decides about a message is here.
\<close>

section \<open>Messages\<close>

datatype TransitionType = Cut | Fade | SlideLeft | SlideRight

datatype DeviceCommand = Reboot | ReloadUi

record ControllerRegistration =
  claimed :: bool
  display_name :: "string option"
  reg_message :: "string option"
  reg_frame_token :: "string option"

record IncomingControlMessage =
  in_media_url :: "string option"
  in_transition_type :: "TransitionType option"
  in_brightness :: "u8 option"
  in_correlation_id :: "string option"
  in_cmd :: "DeviceCommand option"
  in_registration :: "ControllerRegistration option"
  in_queue :: bool

record RenderPresentation =
  transition_type :: "TransitionType option"
  brightness :: "u8 option"

record RenderRequest =
  media_url :: string
  correlation_id :: "string option"
  presentation :: RenderPresentation
  queue :: bool

record CommandRequest =
  command :: DeviceCommand
  cmd_correlation_id :: "string option"

datatype ControlEvent =
    Render RenderRequest
  | Command CommandRequest
  | Registration ControllerRegistration

record DeviceHealth =
  cpu_temp_millidegrees :: "32 word option"
  health_screen_status :: "ScreenStatus option"
  storage :: "string option"
  buffered_photos :: "u8 option"
  photo_source :: "string option"

datatype OutboundStatusMessage =
    Connected string string
  | RenderStarted string "string option"
  | RenderCompleted string "string option"
  | CommandAcknowledged DeviceCommand "string option"
  | Health DeviceHealth
  | PhotoRequested u16 u16
  | StatusError string "string option"

datatype ControlMessageError =
    InvalidJson string
  | MissingAction
  | ConflictingAction
  | EmptyMediaUrl
  | MetadataWithoutMediaUrl
  | InvalidBrightness u8

fun fmt_control_error :: "ControlMessageError \<Rightarrow> string" where
  "fmt_control_error (InvalidJson e) = ''invalid control message JSON: '' @ e"
| "fmt_control_error MissingAction = ''control message must include either media_url or cmd''"
| "fmt_control_error ConflictingAction = ''control message cannot include both media_url and cmd''"
| "fmt_control_error EmptyMediaUrl = ''control message media_url cannot be empty''"
| "fmt_control_error MetadataWithoutMediaUrl =
     ''control message metadata requires a media_url payload''"
| "fmt_control_error (InvalidBrightness v) =
     ''control message brightness must be between 0 and 100 inclusive, got '' @ show_nat (unat v)"

section \<open>Validation\<close>

definition count_some :: "'a option \<Rightarrow> nat" where
  "count_some v = (if v \<noteq> None then 1 else 0)"

definition action_count :: "IncomingControlMessage \<Rightarrow> nat" where
  "action_count m = count_some (in_media_url m) + count_some (in_cmd m) + count_some (in_registration m)"

definition has_metadata :: "IncomingControlMessage \<Rightarrow> bool" where
  "has_metadata m \<longleftrightarrow> in_transition_type m \<noteq> None \<or> in_brightness m \<noteq> None"

definition validate_action :: "IncomingControlMessage \<Rightarrow> ControlMessageError + ControlEvent" where
  "validate_action m =
     (case (in_media_url m, in_cmd m, in_registration m) of
        (Some url, None, None) \<Rightarrow>
          (let trimmed = str_trim url
           in if trimmed = [] then Inl EmptyMediaUrl
              else Inr (Render
                     \<lparr>media_url = trimmed, correlation_id = in_correlation_id m,
                      presentation = \<lparr>transition_type = in_transition_type m,
                                      brightness = in_brightness m\<rparr>,
                      queue = in_queue m\<rparr>))
      | (None, Some c, None) \<Rightarrow>
          if has_metadata m then Inl MetadataWithoutMediaUrl
          else Inr (Command \<lparr>command = c, cmd_correlation_id = in_correlation_id m\<rparr>)
      | (None, None, Some r) \<Rightarrow>
          if has_metadata m then Inl MetadataWithoutMediaUrl else Inr (Registration r)
      | (None, None, None) \<Rightarrow> Inl MissingAction
      | _ \<Rightarrow> Inl ConflictingAction)"

definition validate_control_message ::
  "IncomingControlMessage \<Rightarrow> ControlMessageError + ControlEvent" where
  "validate_control_message m =
     (case in_brightness m of
        Some b \<Rightarrow> if 100 < b then Inl (InvalidBrightness b)
                  else if 1 < action_count m then Inl ConflictingAction else validate_action m
      | None \<Rightarrow> if 1 < action_count m then Inl ConflictingAction else validate_action m)"

text \<open>\<open>from_json\<close> is \<open>serde_json::from_str\<close>, whose error is already printed.\<close>

definition parse_control_message ::
  "(string \<Rightarrow> string + IncomingControlMessage) \<Rightarrow> string \<Rightarrow> ControlMessageError + ControlEvent" where
  "parse_control_message from_json payload =
     (case from_json payload of
        Inl e \<Rightarrow> Inl (InvalidJson e)
      | Inr m \<Rightarrow> validate_control_message m)"

section \<open>What a valid message is\<close>

text \<open>
  The contract of the channel, independently of the order of the checks: exactly one action, a
  brightness of at most 100, a non-blank address for a photo, and presentation metadata only
  with a photo.
\<close>

inductive accepts :: "IncomingControlMessage \<Rightarrow> ControlEvent \<Rightarrow> bool" where
  accepts_render:
    "in_media_url m = Some url \<Longrightarrow> in_cmd m = None \<Longrightarrow> in_registration m = None \<Longrightarrow>
     (\<And>b. in_brightness m = Some b \<Longrightarrow> b \<le> 100) \<Longrightarrow> str_trim url \<noteq> [] \<Longrightarrow>
     accepts m (Render \<lparr>media_url = str_trim url, correlation_id = in_correlation_id m,
        presentation = \<lparr>transition_type = in_transition_type m, brightness = in_brightness m\<rparr>,
        queue = in_queue m\<rparr>)"
| accepts_command:
    "in_media_url m = None \<Longrightarrow> in_cmd m = Some c \<Longrightarrow> in_registration m = None \<Longrightarrow>
     in_transition_type m = None \<Longrightarrow> in_brightness m = None \<Longrightarrow>
     accepts m (Command \<lparr>command = c, cmd_correlation_id = in_correlation_id m\<rparr>)"
| accepts_registration:
    "in_media_url m = None \<Longrightarrow> in_cmd m = None \<Longrightarrow> in_registration m = Some r \<Longrightarrow>
     in_transition_type m = None \<Longrightarrow> in_brightness m = None \<Longrightarrow>
     accepts m (Registration r)"

inductive_cases accepts_cases: "accepts m e"

lemmas validate_defs =
  validate_control_message_def validate_action_def action_count_def count_some_def has_metadata_def Let_def

lemma validate_sound: "validate_control_message m = Inr e \<Longrightarrow> accepts m e"
  by (auto simp: validate_defs accepts.simps not_less split: option.splits if_splits prod.splits)

lemma validate_complete: "accepts m e \<Longrightarrow> validate_control_message m = Inr e"
  by (erule accepts_cases) (auto simp: validate_defs split: option.splits)

text \<open>
  C17: validation implements the channel's contract exactly: a message is accepted as an event if
  and only if the contract relates the two, so there is at most one event per message.
\<close>

theorem validate_iff_accepts: "validate_control_message m = Inr e \<longleftrightarrow> accepts m e"
  using validate_sound validate_complete by blast

text \<open>A message that is accepted.\<close>

definition sample_message :: IncomingControlMessage where
  "sample_message =
     \<lparr>in_media_url = Some '' http://ha/p.jpg '', in_transition_type = Some Fade,
      in_brightness = Some 64, in_correlation_id = Some ''abc123'', in_cmd = None,
      in_registration = None, in_queue = False\<rparr>"

lemma validate_sample:
  "validate_control_message sample_message =
     Inr (Render \<lparr>media_url = ''http://ha/p.jpg'', correlation_id = Some ''abc123'',
        presentation = \<lparr>transition_type = Some Fade, brightness = Some 64\<rparr>, queue = False\<rparr>)"
  by code_simp

text \<open>The faults of a message in the order the channel reports them.\<close>

definition first_fault :: "IncomingControlMessage \<Rightarrow> ControlMessageError option" where
  "first_fault m =
     (if \<exists>b. in_brightness m = Some b \<and> 100 < b then Some (InvalidBrightness (the (in_brightness m)))
      else if 1 < action_count m then Some ConflictingAction
      else if action_count m = 0 then Some MissingAction
      else if in_media_url m \<noteq> None \<and> str_trim (the (in_media_url m)) = [] then Some EmptyMediaUrl
      else if in_media_url m = None \<and> has_metadata m then Some MetadataWithoutMediaUrl
      else None)"

lemma validate_no_fault: "validate_control_message m = Inr e \<Longrightarrow> first_fault m = None"
  by (auto simp: first_fault_def action_count_def count_some_def has_metadata_def
      dest!: validate_sound elim!: accepts_cases)

lemma validate_fault: "validate_control_message m = Inl err \<Longrightarrow> first_fault m = Some err"
  by (auto simp: first_fault_def validate_defs split: option.splits if_splits)

text \<open>
  The error an invalid message gets, and the order of the checks: a brightness above 100 is
  reported first, then more than one action, then no action, then a blank address, then metadata
  without a photo; a message with none of these faults is accepted.
\<close>

theorem validate_error_precedence:
  "validate_control_message m = Inl err \<longleftrightarrow> first_fault m = Some err"
  by (cases "validate_control_message m") (auto dest: validate_no_fault validate_fault)

end
