(* ===== verification/Versioned_View.thy ===== *)
theory Versioned_View
  imports Frame_Prelude
begin

text \<open>
  The contract of the generation counters of \<open>frame-ui\<close>: a store bumps a wrapping 64-bit counter
  whenever what it shows changes, so that a reader can tell an unchanged view from a changed one
  without comparing it. The photo store and the controller state both provide it, and the screen
  driver relies on it.
\<close>

locale versioned_view =
  fixes step :: "'s \<Rightarrow> 'e \<Rightarrow> 's"
    and view :: "'s \<Rightarrow> 'v"
    and version :: "'s \<Rightarrow> u64"
  assumes version_step: "version (step s e) = version s \<or> version (step s e) = version s + 1"
    and view_step: "version (step s e) = version s \<Longrightarrow> view (step s e) = view s"
begin

definition bumps :: "'s \<Rightarrow> 'e \<Rightarrow> nat" where
  "bumps s e = (if version (step s e) = version s then 0 else 1)"

fun total_bumps :: "'s \<Rightarrow> 'e list \<Rightarrow> nat" where
  "total_bumps s [] = 0"
| "total_bumps s (e # es) = bumps s e + total_bumps (step s e) es"

lemma version_bumps: "version (step s e) = version s + word_of_nat (bumps s e)"
  using version_step [of s e] by (auto simp: bumps_def)

lemma version_run: "version (foldl step s es) = version s + word_of_nat (total_bumps s es)"
  by (induction es arbitrary: s) (simp_all add: version_bumps)

lemma total_bumps_le: "total_bumps s es \<le> length es"
proof (induction es arbitrary: s)
  case Nil
  then show ?case by simp
next
  case (Cons e es)
  have "bumps s e \<le> 1" by (simp add: bumps_def)
  with Cons.IH [of "step s e"] show ?case by simp
qed

lemma no_bumps_same_view: "total_bumps s es = 0 \<Longrightarrow> view (foldl step s es) = view s"
  by (induction es arbitrary: s) (auto simp: bumps_def view_step split: if_splits)

text \<open>
  Fewer than \<open>2 ^ 64\<close> operations cannot wrap the counter all the way round, so an equal version
  means an equal view.
\<close>

lemma same_version_same_view:
  assumes "length es < 2 ^ 64" and "version (foldl step s es) = version s"
  shows "view (foldl step s es) = view s"
proof -
  have "word_of_nat (total_bumps s es) = (0 :: u64)"
    using assms(2) by (simp add: version_run)
  moreover have "total_bumps s es < 2 ^ 64"
    using total_bumps_le [of s es] assms(1) by simp
  ultimately have "total_bumps s es = 0"
    by (auto simp: word_of_nat_eq_0_iff dest: dvd_imp_le)
  then show ?thesis by (rule no_bumps_same_view)
qed

end

end
