(* ===== verification/Controller_State.thy ===== *)
theory Controller_State
  imports Frame_State Versioned_View
begin

text \<open>
  \<open>packages/frame-ui/src/controller_state.rs\<close>: the global copy of the controller phase, with the
  same generation discipline as the photo store.
\<close>

record ControllerState =
  ctl_generation :: u64
  ctl_phase :: ControllerPhase

definition controller_state_default :: ControllerState where
  "controller_state_default = \<lparr>ctl_generation = 0, ctl_phase = NotStarted\<rparr>"

definition controller_lock_error :: "string \<Rightarrow> error" where
  "controller_lock_error what = Context what (Msg ''controller state lock poisoned'')"

definition set_phase_body :: "ControllerPhase \<Rightarrow> ControllerState \<Rightarrow> unit \<times> ControllerState" where
  "set_phase_body p s = ((), s\<lparr>ctl_generation := ctl_generation s + 1, ctl_phase := p\<rparr>)"

definition set_controller_phase ::
  "ControllerPhase \<Rightarrow> ControllerState mutex \<Rightarrow> unit result \<times> ControllerState mutex" where
  "set_controller_phase p m =
     with_lock (controller_lock_error ''failed to update controller state'') m (set_phase_body p)"

definition controller_state_snapshot :: "ControllerState mutex \<Rightarrow> ControllerState result" where
  "controller_state_snapshot m =
     fst (with_lock (controller_lock_error ''failed to read controller state'') m (\<lambda>s. (s, s)))"

definition phase_step :: "ControllerState \<Rightarrow> ControllerPhase \<Rightarrow> ControllerState" where
  "phase_step s p = snd (set_phase_body p s)"

interpretation phase_view: versioned_view phase_step ctl_phase ctl_generation
  by unfold_locales (simp_all add: phase_step_def set_phase_body_def)

lemma snapshot_after_set [simp]:
  "m \<noteq> Poisoned \<Longrightarrow>
   (\<exists>s. controller_state_snapshot (snd (set_controller_phase p m)) = Inr s \<and> ctl_phase s = p)"
  by (cases m) (simp_all add: set_controller_phase_def controller_state_snapshot_def set_phase_body_def)

lemma set_controller_phase_poisoned [simp]:
  "snd (set_controller_phase p m) = Poisoned \<longleftrightarrow> m = Poisoned"
  by (simp add: set_controller_phase_def)

end
