(* ===== verification/Sd_Card.thy ===== *)
theory Sd_Card
  imports Frame_Text "HOL-Library.AList"
begin

text \<open>
  The SD card: \<open>frame-firmware/src/sd_card.rs\<close>, and the part of \<open>std::fs\<close> that the photo
  cache and the owner's media folder use.

  A folder of the card is the association list of its files, names (UTF-8) to contents; the order
  is the one a directory listing happens to have. What the card may refuse at any moment (a
  listing, one entry of it, a read, a write, a rename, a deletion) is an argument of the operations.
  The outcome of \<open>bsp_sdcard_mount\<close>, its error codes and the card's CSD register come from the
  vendored BSP, so they are arguments too. Log output is not modelled.
\<close>

section \<open>Files\<close>

type_synonym files = "(string \<times> u8 list) list"

definition fs_read :: "string \<Rightarrow> files \<Rightarrow> u8 list option" where
  "fs_read n fs = map_of fs n"

definition fs_write :: "string \<Rightarrow> u8 list \<Rightarrow> files \<Rightarrow> files" where
  "fs_write n bytes fs = AList.update n bytes fs"

definition fs_remove :: "string \<Rightarrow> files \<Rightarrow> files" where
  "fs_remove n fs = AList.delete n fs"

text \<open>\<open>std::fs::rename\<close> replaces an existing destination.\<close>

definition fs_rename :: "string \<Rightarrow> string \<Rightarrow> files \<Rightarrow> files" where
  "fs_rename a b fs =
     (case fs_read a fs of None \<Rightarrow> fs | Some bytes \<Rightarrow> fs_write b bytes (fs_remove a fs))"

text \<open>How a write ends: complete, cut after some bytes (an error or a power cut), or not begun.\<close>

datatype write_outcome = Written | CutAfter nat | NotOpened

definition write_ok :: "write_outcome \<Rightarrow> bool" where
  "write_ok w = (case w of Written \<Rightarrow> True | CutAfter _ \<Rightarrow> False | NotOpened \<Rightarrow> False)"

definition fs_write_out :: "write_outcome \<Rightarrow> string \<Rightarrow> u8 list \<Rightarrow> files \<Rightarrow> files" where
  "fs_write_out w n bytes fs =
     (case w of Written \<Rightarrow> fs_write n bytes fs
      | CutAfter k \<Rightarrow> fs_write n (take k bytes) fs
      | NotOpened \<Rightarrow> fs)"

definition names :: "files \<Rightarrow> string list" where
  "names fs = map fst fs"

text \<open>
  \<open>Path::file_stem\<close> and \<open>Path::extension\<close> split the file name at its last dot; a leading dot does
  not count.
\<close>

definition rsplit_file_at_dot :: "string \<Rightarrow> string option \<times> string option" where
  "rsplit_file_at_dot name =
     (let dot = CHR ''.'' in
      if name = [dot, dot] then (Some name, None)
      else if dot \<notin> set name then (None, Some name)
      else let before = rev (tl (dropWhile (\<lambda>c. c \<noteq> dot) (rev name)));
               after = rev (takeWhile (\<lambda>c. c \<noteq> dot) (rev name))
           in if before = [] then (Some name, None) else (Some before, Some after))"

definition file_stem :: "string \<Rightarrow> string" where
  "file_stem name =
     (case rsplit_file_at_dot name of
        (Some before, _) \<Rightarrow> before
      | (None, Some after) \<Rightarrow> after
      | (None, None) \<Rightarrow> [])"

definition extension :: "string \<Rightarrow> string option" where
  "extension name =
     (case rsplit_file_at_dot name of (Some _, Some after) \<Rightarrow> Some after | _ \<Rightarrow> None)"

definition with_extension :: "string \<Rightarrow> string \<Rightarrow> string" where
  "with_extension ext name = file_stem name @ ''.'' @ ext"

lemma rsplit_file_at_dot_append:
  assumes "a \<noteq> []" and "CHR ''.'' \<notin> set b" and "a @ ''.'' @ b \<noteq> ''..''"
  shows "rsplit_file_at_dot (a @ ''.'' @ b) = (Some a, Some b)"
proof -
  have "takeWhile (\<lambda>c. c \<noteq> CHR ''.'') (rev b @ ''.'' @ rev a) = rev b"
    and "dropWhile (\<lambda>c. c \<noteq> CHR ''.'') (rev b @ ''.'' @ rev a) = ''.'' @ rev a"
    using assms(2) by (simp_all add: takeWhile_append dropWhile_append)
  with assms show ?thesis by (simp add: rsplit_file_at_dot_def Let_def)
qed

lemma stem_extension_append:
  assumes "a \<noteq> []" and "b \<noteq> []" and "CHR ''.'' \<notin> set b"
  shows "file_stem (a @ ''.'' @ b) = a" "extension (a @ ''.'' @ b) = Some b"
proof -
  have "a @ ''.'' @ b \<noteq> ''..''"
    using assms by (cases a; cases b) (auto simp: append_eq_Cons_conv Cons_eq_append_conv)
  from rsplit_file_at_dot_append [OF assms(1,3) this]
  show "file_stem (a @ ''.'' @ b) = a" "extension (a @ ''.'' @ b) = Some b"
    by (simp_all add: file_stem_def extension_def)
qed

lemma names_fs_write:
  "names (fs_write n bytes fs) = (if n \<in> set (names fs) then names fs else names fs @ [n])"
  by (simp add: names_def fs_write_def update_keys)

lemma names_fs_remove: "names (fs_remove n fs) = filter (\<lambda>m. m \<noteq> n) (names fs)"
  by (auto simp: names_def fs_remove_def delete_keys removeAll_filter_not_eq intro: filter_cong)

lemma fs_read_write [simp]: "fs_read m (fs_write n bytes fs) = (if m = n then Some bytes else fs_read m fs)"
  by (simp add: fs_read_def fs_write_def update_conv')

lemma fs_read_remove [simp]: "fs_read m (fs_remove n fs) = (if m = n then None else fs_read m fs)"
  by (simp add: fs_read_def fs_remove_def delete_conv')

lemma fs_read_names: "fs_read n fs \<noteq> None \<longleftrightarrow> n \<in> set (names fs)"
  by (auto simp: fs_read_def names_def map_of_eq_None_iff)

lemma distinct_names_write [simp]: "distinct (names fs) \<Longrightarrow> distinct (names (fs_write n bytes fs))"
  by (simp add: names_fs_write)

lemma distinct_names_remove [simp]: "distinct (names fs) \<Longrightarrow> distinct (names (fs_remove n fs))"
  by (simp add: names_fs_remove)

section \<open>The card\<close>

definition MOUNT_POINT :: string where "MOUNT_POINT = ''/sdcard''"
definition HA_CACHE_DIR :: string where "HA_CACHE_DIR = ''/sdcard/ha''"
definition MEDIA_DIR :: string where "MEDIA_DIR = ''/sdcard/media''"
definition MEDIA_README_NAME :: string where "MEDIA_README_NAME = ''READ ME.txt''"

definition crlf :: "string list \<Rightarrow> string" where
  "crlf ls = concat (map (\<lambda>l. l @ [CHR 0x0D, CHR 0x0A]) ls)"

definition MEDIA_README :: string where
  "MEDIA_README = crlf
     [''YOUR PHOTOS GO IN THIS FOLDER'',
      ''============================='',
      '''',
      ''Copy any photos you like straight into this folder, put the card back in the'',
      ''frame, and turn it on. The frame will show them.'',
      '''',
      ''While there are photos in here, the frame shows these and only these. It will'',
      ''not need Wi-Fi and it will not need Home Assistant -- it works completely on'',
      ''its own.'',
      '''',
      ''To go back to photos chosen in Home Assistant, take every photo out of this'',
      ''folder and turn the frame off and on again.'',
      '''',
      '''',
      ''GOOD TO KNOW'',
      ''------------'',
      '''',
      ''* JPEG and PNG photos work. Files ending .jpg .jpeg or .png.'',
      '''',
      ''* iPhone photos are often .HEIC, which the frame cannot read. In Photos,'',
      ''  choose File > Export > Export Photo and pick JPEG.'',
      '''',
      ''* Photos of any size and any shape are fine. Tall photos get black bars at'',
      ''  the sides rather than having their tops and bottoms cut off.'',
      '''',
      ''* Folders inside this one are ignored. Photos need to sit directly in here.'',
      '''',
      ''* The other folder on this card, 'ha', belongs to the frame. Please leave it'',
      ''  alone -- the frame empties it whenever it likes.'']"

datatype SdStatus = SdReady u64 | NotPresent | Failed string

definition is_ready :: "SdStatus \<Rightarrow> bool" where
  "is_ready s = (case s of SdReady _ \<Rightarrow> True | _ \<Rightarrow> False)"

definition show_int :: "int \<Rightarrow> string" where
  "show_int i = (if i < 0 then ''-'' @ show_nat (nat (- i)) else show_nat (nat i))"

definition sd_summary :: "SdStatus \<Rightarrow> string" where
  "sd_summary s =
     (case s of
        SdReady mb \<Rightarrow> ''ready ('' @ show_nat (unat mb) @ '' MB)''
      | NotPresent \<Rightarrow> ''no card detected''
      | Failed reason \<Rightarrow> ''unusable: '' @ reason)"

text \<open>The two folders; \<open>None\<close> is a folder that does not exist.\<close>

record card =
  ha_dir :: "files option"
  media_dir :: "files option"

definition create_dir_all :: "files option \<Rightarrow> files option" where
  "create_dir_all d = (case d of None \<Rightarrow> Some [] | Some fs \<Rightarrow> Some fs)"

text \<open>What the card refuses while its layout is prepared.\<close>

record layout_faults =
  ha_error :: "error option"
  media_error :: "error option"
  readme_write :: write_outcome
  readme_error :: error

definition prepare_layout :: "layout_faults \<Rightarrow> card \<Rightarrow> unit result \<times> card" where
  "prepare_layout flt c =
     (case ha_error flt of
        Some e \<Rightarrow> (Inl e, c)
      | None \<Rightarrow>
          let c1 = c\<lparr>ha_dir := create_dir_all (ha_dir c)\<rparr> in
          (case media_error flt of
             Some e \<Rightarrow> (Inl e, c1)
           | None \<Rightarrow>
               let fs = (case media_dir c1 of None \<Rightarrow> [] | Some fs \<Rightarrow> fs);
                   c2 = c1\<lparr>media_dir := Some fs\<rparr>
               in if MEDIA_README_NAME \<in> set (names fs) then (Inr (), c2)
                  else ((if write_ok (readme_write flt) then Inr () else Inl (readme_error flt)),
                        c2\<lparr>media_dir := Some (fs_write_out (readme_write flt) MEDIA_README_NAME
                                              (as_bytes MEDIA_README) fs)\<rparr>)))"

text \<open>
  \<open>mount\<close>: \<open>esp_ok\<close>, \<open>err_timeout\<close> and \<open>err_not_found\<close> are the \<open>sys::ESP_*\<close> codes, \<open>code\<close> what
  \<open>bsp_sdcard_mount\<close> returned and \<open>csd\<close> the capacity and sector size behind the card handle (\<open>None\<close>
  for a null handle), C \<open>int\<close>s that \<open>as u64\<close> sign-extends.
\<close>

definition capacity_mb_of :: "(u32 \<times> u32) option \<Rightarrow> u64" where
  "capacity_mb_of csd =
     (case csd of None \<Rightarrow> 0
      | Some (capacity, sector_size) \<Rightarrow> (scast capacity * scast sector_size) div (1024 * 1024))"

definition mount ::
  "int \<Rightarrow> int \<Rightarrow> int \<Rightarrow> int \<Rightarrow> (u32 \<times> u32) option \<Rightarrow> layout_faults \<Rightarrow> card \<Rightarrow> SdStatus \<times> card" where
  "mount esp_ok err_timeout err_not_found code csd flt c =
     (if code \<noteq> esp_ok then
        ((if code = err_timeout \<or> code = err_not_found then NotPresent
          else Failed (''mount failed (esp_err '' @ show_int code @ '')'')), c)
      else (SdReady (capacity_mb_of csd), snd (prepare_layout flt c)))"

lemma mount_ready_iff:
  "is_ready (fst (mount esp_ok t n code csd flt c)) \<longleftrightarrow> code = esp_ok"
  by (simp add: mount_def is_ready_def)

text \<open>
  Preparing the layout never changes a file the owner already has, the note included: it only adds
  the folders and, when it is absent, the note.
\<close>

lemma prepare_layout_keeps_media:
  assumes "media_dir c = Some fs" and "fs_read n fs = Some bytes"
  shows "\<exists>fs'. media_dir (snd (prepare_layout flt c)) = Some fs' \<and> fs_read n fs' = Some bytes"
proof -
  have "n \<noteq> MEDIA_README_NAME" if "MEDIA_README_NAME \<notin> set (names fs)"
    using that assms(2) fs_read_names [of n fs] by auto
  then show ?thesis
    using assms by (auto simp: prepare_layout_def Let_def create_dir_all_def fs_write_out_def
        split: write_outcome.split option.split)
qed

lemma prepare_layout_keeps_cache:
  assumes "ha_dir c = Some fs"
  shows "ha_dir (snd (prepare_layout flt c)) = Some fs"
  using assms by (simp add: prepare_layout_def Let_def create_dir_all_def split: option.split)

end
