(* ===== verification/Rendered_Image.thy ===== *)
theory Rendered_Image
  imports Frame_Text Versioned_View
begin

text \<open>
  \<open>packages/frame-ui/src/rendered_image.rs\<close>: a photo as panel-format pixels, the conversions that
  build one, and the global store of at most three decoded photos whose front is on screen.
  The panel geometry comes from \<open>frame-ui/src/lib.rs\<close>.
\<close>

definition PANEL_LOGICAL_WIDTH :: nat where
  "PANEL_LOGICAL_WIDTH = 1280"

definition PANEL_LOGICAL_HEIGHT :: nat where
  "PANEL_LOGICAL_HEIGHT = 800"

section \<open>Photos\<close>

record RenderedImage =
  width :: u32
  height :: u32
  rgb565 :: "u16 list"
  image_id :: "string option"

definition image_new :: "u32 \<Rightarrow> u32 \<Rightarrow> u16 list \<Rightarrow> RenderedImage result" where
  "image_new w h px =
     (let expected = usize_mul (unat w) (unat h)
      in if length px = expected
         then Inr \<lparr>width = w, height = h, rgb565 = px, image_id = None\<rparr>
         else Inl (Msg (''pixel buffer is '' @ show_nat (length px) @ '' pixels, expected ''
                @ show_nat expected @ '' for '' @ show_nat (unat w) @ ''x'' @ show_nat (unat h))))"

definition pack565 :: "u8 \<Rightarrow> u8 \<Rightarrow> u8 \<Rightarrow> u16" where
  "pack565 r g b =
     push_bit 11 (ucast (drop_bit 3 r)) OR push_bit 5 (ucast (drop_bit 2 g)) OR ucast (drop_bit 3 b)"

definition image_from_rgb8 :: "u32 \<Rightarrow> u32 \<Rightarrow> u8 list \<Rightarrow> RenderedImage result" where
  "image_from_rgb8 w h rgb8 =
     (let expected = usize_mul (usize_mul (unat w) (unat h)) 3
      in if length rgb8 = expected
         then image_new w h (map (\<lambda>px. pack565 (px ! 0) (px ! 1) (px ! 2)) (chunks_exact 3 rgb8))
         else Inl (Msg (''rgb8 buffer is '' @ show_nat (length rgb8) @ '' bytes, expected ''
                @ show_nat expected @ '' for '' @ show_nat (unat w) @ ''x'' @ show_nat (unat h))))"

definition u16_from_le_bytes :: "u8 \<Rightarrow> u8 \<Rightarrow> u16" where
  "u16_from_le_bytes lo hi = ucast lo OR push_bit 8 (ucast hi)"

definition decode_le :: "u8 list \<Rightarrow> u16 list" where
  "decode_le bytes = map (\<lambda>px. u16_from_le_bytes (px ! 0) (px ! 1)) (chunks_exact 2 bytes)"

definition image_from_rgb565_bytes :: "u8 list \<Rightarrow> RenderedImage result" where
  "image_from_rgb565_bytes bytes =
     (let expected = PANEL_LOGICAL_WIDTH * PANEL_LOGICAL_HEIGHT * 2
      in if length bytes = expected
         then image_new (word_of_nat PANEL_LOGICAL_WIDTH) (word_of_nat PANEL_LOGICAL_HEIGHT)
                (decode_le bytes)
         else Inl (Msg (''pixel data is '' @ show_nat (length bytes) @ '' bytes, expected ''
                @ show_nat expected @ '' for '' @ show_nat PANEL_LOGICAL_WIDTH @ ''x''
                @ show_nat PANEL_LOGICAL_HEIGHT)))"

definition with_id :: "RenderedImage \<Rightarrow> string \<Rightarrow> RenderedImage" where
  "with_id img i = img\<lparr>image_id := (if i \<noteq> [] then Some i else None)\<rparr>"

section \<open>The store\<close>

definition BUFFER_CAPACITY :: nat where
  "BUFFER_CAPACITY = 3"

record store =
  buffer :: "RenderedImage list"
  generation :: u64

record RenderedImageSnapshot =
  snap_image :: "RenderedImage option"
  snap_generation :: u64
  snap_buffered :: nat

definition store_init :: store where
  "store_init = \<lparr>buffer = [], generation = 0\<rparr>"

definition front :: "store \<Rightarrow> RenderedImage option" where
  "front s = (case buffer s of [] \<Rightarrow> None | i # _ \<Rightarrow> Some i)"

text \<open>The bodies of the operations, run while the lock is held. \<open>VecDeque::pop_back\<close> on a deque
  that is at capacity drops its last photo.\<close>

definition same_id :: "RenderedImage \<Rightarrow> store \<Rightarrow> bool" where
  "same_id img s =
     (case (image_id img, Option.bind (front s) image_id) of
        (Some incoming, Some showing) \<Rightarrow> incoming = showing
      | _ \<Rightarrow> False)"

definition make_room :: "RenderedImage list \<Rightarrow> RenderedImage list" where
  "make_room b = (if BUFFER_CAPACITY \<le> length b then butlast b else b)"

definition show_body :: "RenderedImage \<Rightarrow> store \<Rightarrow> unit \<times> store" where
  "show_body img s =
     (if same_id img s then ((), s)
      else ((), s\<lparr>buffer := img # make_room (buffer s), generation := generation s + 1\<rparr>))"

definition push_body :: "RenderedImage \<Rightarrow> store \<Rightarrow> unit \<times> store" where
  "push_body img s =
     (let s1 = s\<lparr>buffer := make_room (buffer s) @ [img]\<rparr>
      in if length (buffer s1) = 1 then ((), s1\<lparr>generation := generation s1 + 1\<rparr>) else ((), s1))"

definition set_body :: "RenderedImage \<Rightarrow> store \<Rightarrow> unit \<times> store" where
  "set_body img s = ((), s\<lparr>buffer := [img], generation := generation s + 1\<rparr>)"

definition advance_body :: "store \<Rightarrow> bool \<times> store" where
  "advance_body s =
     (if length (buffer s) < 2 then (False, s)
      else (True, s\<lparr>buffer := tl (buffer s), generation := generation s + 1\<rparr>))"

definition clear_body :: "store \<Rightarrow> unit \<times> store" where
  "clear_body s = ((), s\<lparr>buffer := [], generation := generation s + 1\<rparr>)"

definition snapshot_body :: "store \<Rightarrow> RenderedImageSnapshot \<times> store" where
  "snapshot_body s =
     (\<lparr>snap_image = front s, snap_generation = generation s, snap_buffered = length (buffer s)\<rparr>, s)"

text \<open>The operations themselves, each taking the global lock.\<close>

definition store_poisoned :: error where
  "store_poisoned = Msg ''rendered image state poisoned''"

definition show_rendered_image :: "RenderedImage \<Rightarrow> store mutex \<Rightarrow> unit result \<times> store mutex" where
  "show_rendered_image img m = with_lock store_poisoned m (show_body img)"

definition push_rendered_image :: "RenderedImage \<Rightarrow> store mutex \<Rightarrow> unit result \<times> store mutex" where
  "push_rendered_image img m = with_lock store_poisoned m (push_body img)"

definition set_rendered_image :: "RenderedImage \<Rightarrow> store mutex \<Rightarrow> unit result \<times> store mutex" where
  "set_rendered_image img m = with_lock store_poisoned m (set_body img)"

definition advance_rendered_image :: "store mutex \<Rightarrow> bool result \<times> store mutex" where
  "advance_rendered_image m = with_lock store_poisoned m advance_body"

definition clear_rendered_image :: "store mutex \<Rightarrow> unit result \<times> store mutex" where
  "clear_rendered_image m = with_lock store_poisoned m clear_body"

definition rendered_image_snapshot :: "store mutex \<Rightarrow> RenderedImageSnapshot result" where
  "rendered_image_snapshot m = fst (with_lock store_poisoned m snapshot_body)"

lemmas store_body_defs [step_defs] =
  show_body_def push_body_def set_body_def advance_body_def clear_body_def make_room_def
  BUFFER_CAPACITY_def Let_def

lemmas store_op_defs =
  show_rendered_image_def push_rendered_image_def set_rendered_image_def
  advance_rendered_image_def clear_rendered_image_def rendered_image_snapshot_def

section \<open>The store as a bounded deque\<close>

lemma make_room_take: "length b \<le> 3 \<Longrightarrow> make_room b = take 2 b"
  by (auto simp: make_room_def BUFFER_CAPACITY_def butlast_conv_take min_def)

lemma length_make_room: "length b \<le> 3 \<Longrightarrow> length (make_room b) \<le> 2"
  by (simp add: make_room_take)

datatype store_op =
    OpShow RenderedImage
  | OpPush RenderedImage
  | OpSet RenderedImage
  | OpAdvance
  | OpClear

fun store_step :: "store \<Rightarrow> store_op \<Rightarrow> store" where
  "store_step s (OpShow i) = snd (show_body i s)"
| "store_step s (OpPush i) = snd (push_body i s)"
| "store_step s (OpSet i) = snd (set_body i s)"
| "store_step s OpAdvance = snd (advance_body s)"
| "store_step s OpClear = snd (clear_body s)"

definition store_run :: "store \<Rightarrow> store_op list \<Rightarrow> store" where
  "store_run = foldl store_step"

definition bounded :: "store \<Rightarrow> bool" where
  "bounded s \<longleftrightarrow> length (buffer s) \<le> BUFFER_CAPACITY"

lemma bounded_step: "bounded s \<Longrightarrow> bounded (store_step s e)"
  by (cases e) (auto simp: bounded_def step_defs)

lemma bounded_run: "bounded s \<Longrightarrow> bounded (store_run s es)"
  by (induction es arbitrary: s) (auto simp: store_run_def bounded_step)

lemma bounded_init [simp]: "bounded store_init"
  by (simp add: bounded_def store_init_def)

lemma show_buffer:
  "bounded s \<Longrightarrow> buffer (store_step s (OpShow i)) = (if same_id i s then buffer s else i # take 2 (buffer s))"
  by (simp add: show_body_def bounded_def BUFFER_CAPACITY_def make_room_take)

lemma push_buffer: "bounded s \<Longrightarrow> buffer (store_step s (OpPush i)) = take 2 (buffer s) @ [i]"
  by (simp add: push_body_def bounded_def BUFFER_CAPACITY_def make_room_take Let_def)

lemma front_simps: "front s = (if buffer s = [] then None else Some (hd (buffer s)))"
  by (simp add: front_def split: list.split)

text \<open>Pushing behind a photo leaves the screen alone.\<close>

lemma push_keeps_front:
  assumes "buffer s \<noteq> []"
  shows "front (store_step s (OpPush i)) = front s \<and> generation (store_step s (OpPush i)) = generation s"
proof -
  from assms obtain a rest where "buffer s = a # rest" by (cases "buffer s") auto
  then show ?thesis
    by (auto simp: front_simps push_body_def make_room_def BUFFER_CAPACITY_def Let_def)
qed

lemma push_nonempty: "buffer (store_step s (OpPush i)) \<noteq> []"
  by (simp add: push_body_def Let_def)

lemma store_versioned:
  "generation (store_step s e) = generation s \<or> generation (store_step s e) = generation s + 1"
  by (cases e) (auto simp: step_defs)

lemma store_view_stable:
  "generation (store_step s e) = generation s \<Longrightarrow> front (store_step s e) = front s"
proof (cases e)
  case (OpPush i)
  assume g: "generation (store_step s e) = generation s"
  show ?thesis
  proof (cases "buffer s")
    case Nil
    with g OpPush show ?thesis by (simp add: step_defs)
  next
    case (Cons a rest)
    then show ?thesis using push_keeps_front [of s i] OpPush by simp
  qed
qed (auto simp: step_defs split: if_splits)

interpretation photo_view: versioned_view store_step front generation
  by unfold_locales (rule store_versioned, rule store_view_stable)

text \<open>
  The photo store never holds more than three decoded photos, whatever sequence of operations
  the threads of the firmware perform on it.
\<close>

theorem store_never_exceeds_capacity: "length (buffer (store_run store_init ops)) \<le> BUFFER_CAPACITY"
  using bounded_run [OF bounded_init] by (simp add: bounded_def)

text \<open>
  The generation counter is a faithful token for the screen: over any run of fewer than
  \<open>2 ^ 64\<close> store operations, an unchanged generation means that the photo on screen is unchanged,
  so a redraw may be skipped.
\<close>

theorem equal_generation_equal_photo:
  assumes "length ops < 2 ^ 64" and "generation (store_run s ops) = generation s"
  shows "front (store_run s ops) = front s"
  using assms unfolding store_run_def by (rule photo_view.same_version_same_view)

theorem equal_generation_equal_photo_witness:
  "front (store_run
      (store_step store_init (OpShow \<lparr>width = 1, height = 1, rgb565 = [7], image_id = None\<rparr>))
      [OpPush \<lparr>width = 1, height = 1, rgb565 = [9], image_id = None\<rparr>]) =
   front (store_step store_init (OpShow \<lparr>width = 1, height = 1, rgb565 = [7], image_id = None\<rparr>))"
  by (rule equal_generation_equal_photo)
    (simp_all add: store_run_def step_defs same_id_def front_def store_init_def)

section \<open>What a tap does\<close>

text \<open>
  Showing a photo puts it on screen and keeps the photo it replaces as the first spare, so the
  next tap goes back to the photo that was just replaced, not on to a spare that was waiting. When
  three photos are held, it is the last spare that is lost.
\<close>

theorem tap_after_show_returns_to_replaced_photo:
  assumes "bounded s" and "buffer s = cur # spares" and "\<not> same_id img s"
  shows "buffer (store_step s (OpShow img)) = img # cur # take 1 spares \<and>
         front (store_step (store_step s (OpShow img)) OpAdvance) = Some cur"
  using assms by (simp add: show_body_def advance_body_def front_def bounded_def BUFFER_CAPACITY_def
      make_room_take)

definition px_image :: "u16 \<Rightarrow> string \<Rightarrow> RenderedImage" where
  "px_image p i = \<lparr>width = 1, height = 1, rgb565 = [p], image_id = Some i\<rparr>"

theorem tap_after_show_returns_to_replaced_photo_witness:
  "front (store_step (store_step \<lparr>buffer = [px_image 1 ''a'', px_image 2 ''b'', px_image 3 ''c''],
      generation = 5\<rparr> (OpShow (px_image 4 ''d''))) OpAdvance) = Some (px_image 1 ''a'')"
  by (rule tap_after_show_returns_to_replaced_photo
        [of _ "px_image 1 ''a''" "[px_image 2 ''b'', px_image 3 ''c'']" "px_image 4 ''d''", THEN conjunct2])
    (simp_all add: bounded_def BUFFER_CAPACITY_def same_id_def front_def px_image_def)

text \<open>
  Queueing a photo never changes what is on screen and never asks for a redraw while some photo
  is up; at capacity it replaces the most recently queued spare, so the oldest spare survives.
\<close>

theorem queueing_is_invisible:
  assumes "bounded s" and "buffer s = cur # spares"
  shows "front (store_step s (OpPush img)) = Some cur \<and>
         generation (store_step s (OpPush img)) = generation s \<and>
         buffer (store_step s (OpPush img)) = cur # take 1 spares @ [img]"
  using assms push_keeps_front [of s img] by (simp add: push_buffer front_def del: store_step.simps)

theorem queueing_is_invisible_witness:
  "buffer (store_step \<lparr>buffer = [px_image 1 ''a'', px_image 2 ''b'', px_image 3 ''c''],
      generation = 5\<rparr> (OpPush (px_image 4 ''d''))) = [px_image 1 ''a'', px_image 2 ''b'', px_image 4 ''d'']"
proof -
  have "buffer (store_step \<lparr>buffer = [px_image 1 ''a'', px_image 2 ''b'', px_image 3 ''c''],
      generation = 5\<rparr> (OpPush (px_image 4 ''d''))) =
    px_image 1 ''a'' # take 1 [px_image 2 ''b'', px_image 3 ''c''] @ [px_image 4 ''d'']"
    by (rule queueing_is_invisible [THEN conjunct2, THEN conjunct2])
      (simp_all add: bounded_def BUFFER_CAPACITY_def)
  then show ?thesis by simp
qed

section \<open>Pixels\<close>

lemma word16_bits_eqI:
  assumes "list_all (\<lambda>n. bit (v :: u16) n = bit w n) [0..<16]"
  shows "v = w"
  by (rule bit_word_eqI) (use assms in \<open>auto simp: list_all_iff\<close>)

lemma word8_bits_eqI:
  assumes "list_all (\<lambda>n. bit (v :: u8) n = bit w n) [0..<8]"
  shows "v = w"
  by (rule bit_word_eqI) (use assms in \<open>auto simp: list_all_iff\<close>)

lemma no_high_bit: "8 \<le> n \<Longrightarrow> \<not> bit (w :: u8) n"
  by (auto dest: bit_imp_le_length)

lemma channel_masks: "(63 :: u16) = mask 6" "(31 :: u16) = mask 5"
  by (simp_all add: mask_eq_exp_minus_1)

lemma pack565_channels:
  "drop_bit 11 (pack565 r g b) = ucast (drop_bit 3 r)"
  "drop_bit 5 (pack565 r g b) AND 63 = ucast (drop_bit 2 g)"
  "pack565 r g b AND 31 = ucast (drop_bit 3 b)"
  by (rule word16_bits_eqI; simp add: pack565_def channel_masks bit_simps upt_rec no_high_bit)+

text \<open>As a number: five bits of red, six of green, five of blue.\<close>

lemma unat_pack565: "unat (pack565 r g b) = unat r div 8 * 2048 + unat g div 4 * 32 + unat b div 8"
proof -
  define n where "n = unat (pack565 r g b)"
  have shifted: "unat (drop_bit k w) = unat w div 2 ^ k" for k and w :: "'a::len word"
    unfolding unsigned_drop_bit_eq by (simp only: drop_bit_eq_div take_bit_nat_eq_self [OF unsigned_less])
  have small: "unat (ucast (drop_bit k c) :: u16) = unat c div 2 ^ k" for c :: u8 and k
  proof -
    have "unat (drop_bit k c) < 2 ^ 16" using unsigned_less [of "drop_bit k c", where ?'a = nat] by simp
    then show ?thesis by (simp only: unsigned_ucast_eq shifted [symmetric] take_bit_nat_eq_self_iff) (simp add: take_bit_nat_eq_self)
  qed
  have masked: "unat (w AND mask k) = unat w mod 2 ^ k" for k and w :: "'a::len word"
    unfolding take_bit_eq_mask [symmetric] unsigned_take_bit_eq by (simp only: take_bit_eq_mod)
  have red: "n div 2048 = unat r div 8"
    using arg_cong [OF pack565_channels(1) [of r g b], of unat] unfolding small shifted n_def by simp
  have ones: "(63 :: u16) = mask 6" "(31 :: u16) = mask 5" by (simp_all add: mask_eq_exp_minus_1)
  have green: "n div 32 mod 64 = unat g div 4"
    using arg_cong [OF pack565_channels(2) [of r g b, unfolded ones], of unat, unfolded masked shifted small] n_def by simp
  have blue: "n mod 32 = unat b div 8"
    using arg_cong [OF pack565_channels(3) [of r g b, unfolded ones], of unat, unfolded masked shifted small] n_def by simp
  have "n div 2048 = n div 32 div 64" by (simp add: div_mult2_eq [symmetric])
  then have "n = n div 2048 * 2048 + n div 32 mod 64 * 32 + n mod 32"
    using div_mult_mod_eq [of n 32] div_mult_mod_eq [of "n div 32" 64] by linarith
  with red green blue show ?thesis by (simp add: n_def)
qed

lemma u16_of_own_bytes: "u16_from_le_bytes (ucast p) (ucast (drop_bit 8 p)) = p"
  by (rule word16_bits_eqI; simp add: u16_from_le_bytes_def bit_simps upt_rec no_high_bit;
      simp add: eval_nat_numeral)

lemma bytes_of_u16:
  "ucast (u16_from_le_bytes lo hi) = lo"
  "ucast (drop_bit 8 (u16_from_le_bytes lo hi)) = hi"
  by (rule word8_bits_eqI; simp add: u16_from_le_bytes_def bit_simps upt_rec no_high_bit)+

definition u16_to_le_bytes :: "u16 list \<Rightarrow> u8 list" where
  "u16_to_le_bytes px = concat (map (\<lambda>p. [ucast p, ucast (drop_bit 8 p)]) px)"

lemma length_u16_to_le_bytes [simp]: "length (u16_to_le_bytes px) = 2 * length px"
  by (induction px) (auto simp: u16_to_le_bytes_def)

lemma chunks_exact_2 [simp]: "chunks_exact 2 (a # b # xs) = [a, b] # chunks_exact 2 xs"
  by (subst chunks_exact.simps) simp

lemma chunks_u16_to_le_bytes:
  "chunks_exact 2 (u16_to_le_bytes px) = map (\<lambda>p. [ucast p, ucast (drop_bit 8 p)]) px"
proof (induction px)
  case Nil
  then show ?case by (simp add: u16_to_le_bytes_def)
next
  case (Cons p px)
  then show ?case by (simp add: u16_to_le_bytes_def)
qed

lemma decode_le_u16_to_le_bytes: "decode_le (u16_to_le_bytes px) = px"
  by (simp add: decode_le_def chunks_u16_to_le_bytes o_def u16_of_own_bytes)

lemma u16_to_le_bytes_decode_le: "even (length bytes) \<Longrightarrow> u16_to_le_bytes (decode_le bytes) = bytes"
proof (induction "length bytes" arbitrary: bytes rule: less_induct)
  case less
  show ?case
  proof (cases bytes)
    case Nil
    then show ?thesis by (simp add: decode_le_def u16_to_le_bytes_def)
  next
    case (Cons lo rest)
    with less.prems obtain hi more where bytes: "bytes = lo # hi # more"
      by (cases rest) auto
    with less have "u16_to_le_bytes (decode_le more) = more" by simp
    moreover have "decode_le bytes = u16_from_le_bytes lo hi # decode_le more"
      by (simp add: bytes decode_le_def)
    ultimately show ?thesis
      by (simp add: bytes u16_to_le_bytes_def bytes_of_u16)
  qed
qed

lemma length_decode_le: "length (decode_le bytes) = length bytes div 2"
  by (simp add: decode_le_def length_chunks_exact)

lemma image_from_rgb565_bytes_Inr:
  "image_from_rgb565_bytes bytes = Inr img \<longleftrightarrow>
     length bytes = 2048000 \<and> img = \<lparr>width = 1280, height = 800, rgb565 = decode_le bytes, image_id = None\<rparr>"
  by (auto simp: image_from_rgb565_bytes_def image_new_def Let_def usize_mul_def usize_limit_def
      PANEL_LOGICAL_WIDTH_def PANEL_LOGICAL_HEIGHT_def length_decode_le)

text \<open>
  C31: raw panel pixels are read little-endian and exactly: the frame accepts a byte string as a photo
  if and only if it is the little-endian encoding of exactly \<open>1280 * 800\<close> pixels, and the photo
  it builds has the panel's geometry and those pixels. A truncated download is refused.
\<close>

theorem raw_pixels_exact:
  "image_from_rgb565_bytes bytes = Inr img \<longleftrightarrow>
     img = \<lparr>width = 1280, height = 800, rgb565 = rgb565 img, image_id = None\<rparr> \<and>
     length (rgb565 img) = 1280 * 800 \<and> bytes = u16_to_le_bytes (rgb565 img)"
  unfolding image_from_rgb565_bytes_Inr
  by (cases img) (auto simp: decode_le_u16_to_le_bytes u16_to_le_bytes_decode_le length_decode_le)

text \<open>
  A decoded photo keeps its pixels: from \<open>w * h\<close> RGB triplets the frame builds \<open>w * h\<close> panel
  pixels in the same order, each holding the top five bits of red, the top six of green and the
  top five of blue.
\<close>

theorem rgb8_pixels_keep_their_channels:
  assumes "length rgb8 = unat w * unat h * 3" and "unat w * unat h * 3 < 2 ^ 32"
  shows "\<exists>px. image_from_rgb8 w h rgb8 = Inr \<lparr>width = w, height = h, rgb565 = px, image_id = None\<rparr> \<and>
    length px = unat w * unat h \<and>
    (\<forall>i < unat w * unat h.
       drop_bit 11 (px ! i) = ucast (drop_bit 3 (rgb8 ! (3 * i))) \<and>
       drop_bit 5 (px ! i) AND 63 = ucast (drop_bit 2 (rgb8 ! (3 * i + 1))) \<and>
       px ! i AND 31 = ucast (drop_bit 3 (rgb8 ! (3 * i + 2))))"
proof -
  let ?px = "map (\<lambda>px. pack565 (px ! 0) (px ! 1) (px ! 2)) (chunks_exact 3 rgb8)"
  have len: "length ?px = unat w * unat h"
    using assms(1) by (simp add: length_chunks_exact)
  have "usize_mul (unat w) (unat h) = unat w * unat h"
    and "usize_mul (unat w * unat h) 3 = unat w * unat h * 3"
    using assms(2) by (simp_all add: usize_mul_def usize_limit_def)
  then have "image_from_rgb8 w h rgb8 = Inr \<lparr>width = w, height = h, rgb565 = ?px, image_id = None\<rparr>"
    using assms(1) len by (simp add: image_from_rgb8_def image_new_def)
  moreover have "?px ! i = pack565 (rgb8 ! (3 * i)) (rgb8 ! (3 * i + 1)) (rgb8 ! (3 * i + 2))"
    if "i < unat w * unat h" for i
    using that len assms(1) by (simp add: nth_chunks_exact length_chunks_exact mult.commute)
  ultimately show ?thesis
    using len by (intro exI [of _ ?px]) (simp add: pack565_channels)
qed

theorem rgb8_pixels_keep_their_channels_witness:
  "\<exists>px. image_from_rgb8 2 1 [255, 128, 7, 1, 2, 3] =
     Inr \<lparr>width = 2, height = 1, rgb565 = px, image_id = None\<rparr> \<and> length px = 2"
  using rgb8_pixels_keep_their_channels [of "[255, 128, 7, 1, 2, 3]" 2 1] by auto

end
