(* ===== verification/Float_Round.thy ===== *)
theory Float_Round
  imports Complex_Main Frame_Prelude
begin

text \<open>
  IEEE 754 arithmetic as the code uses it: finite, nonnegative \<open>f32\<close> and \<open>f64\<close> values are the
  rationals they denote, and each operation is the exact one followed by rounding to nearest, ties
  to even, at the precision of the format (24 bits for \<open>f32\<close>, 53 for \<open>f64\<close>). All values of the code
  (pixel counts, byte counts and their ratios) are far from the exponent limits, so overflow,
  subnormals, infinities and NaN are left out.
\<close>

section \<open>Rounding\<close>

text \<open>The exponent \<open>k\<close> with \<open>2 ^ k \<le> x < 2 ^ (k + 1)\<close>, found from the bit lengths of the fraction.\<close>

fun bit_length :: "nat \<Rightarrow> nat" where
  "bit_length n = (if n = 0 then 0 else Suc (bit_length (n div 2)))"

declare bit_length.simps [simp del]

definition pow2 :: "int \<Rightarrow> rat" where
  "pow2 e = (if 0 \<le> e then 2 ^ nat e else 1 / 2 ^ nat (- e))"

definition binade :: "rat \<Rightarrow> int" where
  "binade x =
     (let (n, d) = quotient_of x;
          k = int (bit_length (nat n)) - int (bit_length (nat d))
      in if pow2 k \<le> x then k else k - 1)"

definition half_even :: "rat \<Rightarrow> int" where
  "half_even q =
     (let f = \<lfloor>q\<rfloor>; r = q - of_int f
      in if r < 1 / 2 then f else if 1 / 2 < r then f + 1 else if even f then f else f + 1)"

definition round_float :: "nat \<Rightarrow> rat \<Rightarrow> rat" where
  "round_float p x =
     (if x \<le> 0 then 0
      else (let u = pow2 (binade x - int p + 1) in of_int (half_even (x / u)) * u))"

text \<open>\<open>f32::round\<close> and \<open>f64::round\<close> on a nonnegative value: to the nearest integer, halves up.\<close>

definition round_away :: "rat \<Rightarrow> nat" where
  "round_away x = nat \<lfloor>x + 1 / 2\<rfloor>"

section \<open>Powers of two\<close>

lemma pow2_pos [simp]: "0 < pow2 e"
  by (simp add: pow2_def)

lemma pow2_nonneg [simp]: "0 \<le> pow2 e"
  using pow2_pos [of e] by linarith

lemma pow2_nz [simp]: "pow2 e \<noteq> 0"
  using pow2_pos [of e] by linarith

lemma pow2_Suc: "pow2 (e + 1) = 2 * pow2 e"
proof (cases "0 \<le> e")
  case True
  then show ?thesis by (simp add: pow2_def nat_add_distrib)
next
  case False
  then have "nat (- e) = Suc (nat (- (e + 1)))" by simp
  with False show ?thesis by (simp add: pow2_def)
qed

lemma pow2_add_nat: "pow2 (e + int n) = pow2 e * 2 ^ n"
proof (induction n)
  case (Suc n)
  have "pow2 (e + int (Suc n)) = pow2 (e + int n + 1)" by (simp add: algebra_simps)
  also have "\<dots> = 2 * pow2 (e + int n)" by (rule pow2_Suc)
  finally show ?case by (simp add: Suc)
qed simp

lemma pow2_mono: "a \<le> b \<Longrightarrow> pow2 a \<le> pow2 b"
  using pow2_add_nat [of a "nat (b - a)"] mult_left_mono [of "1::rat" "2 ^ nat (b - a)" "pow2 a"] by simp

lemma pow2_of_nat: "pow2 (int n) = 2 ^ n"
  by (simp add: pow2_def)

lemma pow2_0 [simp]: "pow2 0 = 1"
  by (simp add: pow2_def)

lemma pow2_less_iff: "pow2 a < pow2 b \<longleftrightarrow> a < b"
proof
  assume "a < b"
  then have "pow2 (a + 1) \<le> pow2 b" by (intro pow2_mono) simp
  with pow2_pos [of a] show "pow2 a < pow2 b" unfolding pow2_Suc by linarith
next
  assume "pow2 a < pow2 b"
  then show "a < b" using pow2_mono [of b a] by (meson leD leI)
qed

section \<open>The binade of a number\<close>

lemma bit_length_bounds:
  "0 < n \<Longrightarrow> 2 ^ (bit_length n - 1) \<le> n \<and> n < 2 ^ bit_length n \<and> 0 < bit_length n"
proof (induction n rule: bit_length.induct)
  case (1 n)
  show ?case
  proof (cases "n div 2 = 0")
    case True
    with 1(2) have "n = 1" by simp
    then show ?thesis by (simp add: bit_length.simps)
  next
    case False
    have "bit_length n = Suc (bit_length (n div 2))" using 1(2) by (subst bit_length.simps) simp
    moreover obtain k where "bit_length (n div 2) = Suc k"
      using 1 False by (metis gr0_conv_Suc neq0_conv)
    moreover have "2 ^ (bit_length (n div 2) - 1) \<le> n div 2 \<and> n div 2 < 2 ^ bit_length (n div 2)"
      using 1 False by auto
    ultimately show ?thesis by auto
  qed
qed

lemma binade_bounds:
  assumes "0 < x"
  shows "pow2 (binade x) \<le> x" "x < pow2 (binade x + 1)"
proof -
  obtain n d where q: "quotient_of x = (n, d)" by (cases "quotient_of x")
  have d: "0 < d" using q by (rule quotient_of_denom_pos)
  have x: "x = of_int n / of_int d" using q by (rule quotient_of_div)
  with assms d have n: "0 < n" by (simp add: zero_less_divide_iff)
  define a b where "a = bit_length (nat n)" and "b = bit_length (nat d)"
  have na: "2 ^ (a - 1) \<le> nat n" "nat n < 2 ^ a" "0 < a"
    and db: "2 ^ (b - 1) \<le> nat d" "nat d < 2 ^ b" "0 < b"
    using bit_length_bounds [of "nat n"] bit_length_bounds [of "nat d"] n d by (auto simp: a_def b_def)
  have n1: "(2::rat) ^ (a - 1) \<le> of_int n" and n2: "of_int n < (2::rat) ^ a"
    using na(1,2) n
    by (metis (mono_tags) of_nat_le_iff of_nat_less_iff of_nat_nat of_nat_numeral of_nat_power of_int_of_nat_eq less_imp_le)+
  have d1: "(2::rat) ^ (b - 1) \<le> of_int d" and d2: "of_int d < (2::rat) ^ b"
    using db(1,2) d
    by (metis (mono_tags) of_nat_le_iff of_nat_less_iff of_nat_nat of_nat_numeral of_nat_power of_int_of_nat_eq less_imp_le)+
  define k where "k = int a - int b"
  have pow_k: "pow2 (k + int b) = 2 ^ a" by (simp add: k_def pow2_of_nat)
  then have ka: "pow2 k * 2 ^ b = 2 ^ a" by (simp add: pow2_add_nat)
  have ka': "pow2 (k - 1) * 2 = pow2 k" using pow2_Suc [of "k - 1"] by simp
  have a2: "(2::rat) ^ a = 2 * 2 ^ (a - 1)" and b2: "(2::rat) ^ b = 2 * 2 ^ (b - 1)"
    using na(3) db(3) by (simp_all add: power_eq_if)
  have dpos: "(0::rat) < of_int d" using d by simp
  have low: "pow2 (k - 1) \<le> x"
  proof -
    have "pow2 (k - 1) * of_int d \<le> pow2 (k - 1) * 2 ^ b" using d2 by simp
    also have "\<dots> = 2 ^ (a - 1)" using ka a2 unfolding ka' [symmetric] by simp
    also have "\<dots> \<le> of_int n" by (rule n1)
    finally show ?thesis using dpos by (simp add: x field_simps)
  qed
  have high: "x < pow2 (k + 1)"
  proof -
    have "of_int n < (2::rat) ^ a" by (rule n2)
    also have "\<dots> = pow2 (k + 1) * 2 ^ (b - 1)" using ka b2 by (simp add: pow2_Suc)
    also have "\<dots> \<le> pow2 (k + 1) * of_int d" using d1 by simp
    finally show ?thesis using dpos by (simp add: x field_simps)
  qed
  have "binade x = (if pow2 k \<le> x then k else k - 1)"
    by (simp add: binade_def q k_def a_def b_def)
  with low high show "pow2 (binade x) \<le> x" "x < pow2 (binade x + 1)" by auto
qed

lemma binade_less: "0 < x \<Longrightarrow> x < pow2 k \<Longrightarrow> binade x < k"
  using binade_bounds(1) [of x] pow2_less_iff [of "binade x" k] by linarith

lemma binade_ge: "pow2 k \<le> x \<Longrightarrow> k \<le> binade x"
  using binade_bounds(2) [of x] pow2_less_iff [of k "binade x + 1"] pow2_pos [of k] by linarith

section \<open>Rounding is to the nearest\<close>

lemma half_even_error: "\<bar>of_int (half_even q) - q\<bar> \<le> 1 / 2"
proof -
  have "0 \<le> q - of_int \<lfloor>q\<rfloor>" "q - of_int \<lfloor>q\<rfloor> < 1" by linarith+
  then show ?thesis
    unfolding half_even_def Let_def by (simp split: if_split)
qed

lemma half_even_of_int [simp]: "half_even (of_int m) = m"
  by (simp add: half_even_def)

lemma half_even_le: "q \<le> of_int m \<Longrightarrow> half_even q \<le> m"
proof (rule ccontr)
  assume le: "q \<le> of_int m" and "\<not> half_even q \<le> m"
  then have "m + 1 \<le> half_even q" by simp
  then have "(of_int (m + 1) :: rat) \<le> of_int (half_even q)" by (simp only: of_int_le_iff)
  with half_even_error [of q] le show False by (simp only: of_int_add of_int_1 abs_le_iff) linarith
qed

lemma half_even_ge: "of_int m \<le> q \<Longrightarrow> m \<le> half_even q"
proof (rule ccontr)
  assume le: "of_int m \<le> q" and "\<not> m \<le> half_even q"
  then have "half_even q + 1 \<le> m" by simp
  then have "(of_int (half_even q + 1) :: rat) \<le> of_int m" by (simp only: of_int_le_iff)
  with half_even_error [of q] le show False by (simp only: of_int_add of_int_1 abs_le_iff) linarith
qed

lemma half_even_near: "\<bar>q - of_int m\<bar> < 1 / 2 \<Longrightarrow> half_even q = m"
proof -
  assume near: "\<bar>q - of_int m\<bar> < 1 / 2"
  with half_even_error [of q] have "\<bar>(of_int (half_even q) :: rat) - of_int m\<bar> < 1"
    by linarith
  then have "\<bar>half_even q - m\<bar> < 1" by (simp flip: of_int_diff of_int_abs)
  then show ?thesis by simp
qed

definition ulp :: "nat \<Rightarrow> rat \<Rightarrow> rat" where
  "ulp p x = pow2 (binade x - int p + 1)"

lemma ulp_pos [simp]: "0 < ulp p x"
  by (simp add: ulp_def)

lemma round_float_pos: "0 < x \<Longrightarrow> round_float p x = of_int (half_even (x / ulp p x)) * ulp p x"
  by (simp add: round_float_def ulp_def Let_def)

lemma round_float_error:
  assumes "0 < x" shows "\<bar>round_float p x - x\<bar> \<le> ulp p x / 2"
proof -
  have "round_float p x - x = (of_int (half_even (x / ulp p x)) - x / ulp p x) * ulp p x"
    using assms by (simp add: round_float_pos left_diff_distrib less_imp_neq [OF ulp_pos, symmetric])
  then have "\<bar>round_float p x - x\<bar> = \<bar>of_int (half_even (x / ulp p x)) - x / ulp p x\<bar> * ulp p x"
    by (simp add: abs_mult less_imp_le [OF ulp_pos])
  also have "\<dots> \<le> 1 / 2 * ulp p x"
    using half_even_error by (intro mult_right_mono) (auto simp: less_imp_le [OF ulp_pos])
  finally show ?thesis by simp
qed

lemma ulp_le: "0 < x \<Longrightarrow> 0 < p \<Longrightarrow> ulp p x * 2 ^ (p - 1) \<le> x"
  using binade_bounds(1) [of x] pow2_add_nat [of "binade x - int p + 1" "p - 1"]
  by (simp add: ulp_def)

lemma ulp_gt: "0 < x \<Longrightarrow> 0 < p \<Longrightarrow> x < ulp p x * 2 ^ p"
  using binade_bounds(2) [of x] pow2_add_nat [of "binade x - int p + 1" p]
  by (simp add: ulp_def)

lemma round_float_relative:
  assumes "0 < x" "0 < p" shows "\<bar>round_float p x - x\<bar> * 2 ^ p \<le> x"
proof -
  have "\<bar>round_float p x - x\<bar> * 2 ^ p \<le> ulp p x / 2 * 2 ^ p"
    using round_float_error [OF assms(1)] by (intro mult_right_mono) auto
  also have "\<dots> = ulp p x * 2 ^ (p - 1)" using assms(2) by (simp add: power_eq_if)
  also have "\<dots> \<le> x" by (rule ulp_le [OF assms])
  finally show ?thesis .
qed

text \<open>Integers of at most \<open>p\<close> bits are multiples of the spacing, so they are exact and they separate.\<close>

lemma int_multiple_of_ulp:
  assumes "0 < x" "0 < p" "x < 2 ^ p"
  obtains n where "(1::rat) = of_int n * ulp p x"
proof -
  have "binade x - int p + 1 \<le> 0"
    using binade_less [OF assms(1), of "int p"] assms(3) by (simp add: pow2_of_nat)
  then obtain j where j: "binade x - int p + 1 = - int j"
    by (metis add.inverse_inverse int_nat_eq neg_0_le_iff_le nat_0_le)
  have "pow2 (- int j) * 2 ^ j = 1" using pow2_add_nat [of "- int j" j] by simp
  then have "(1::rat) = of_int (2 ^ j) * ulp p x" by (simp add: ulp_def j mult.commute)
  then show ?thesis by (rule that)
qed

lemma round_float_le_int:
  assumes "x \<le> of_int m" "x < 2 ^ p" "0 < p" "0 \<le> m"
  shows "round_float p x \<le> of_int m"
proof (cases "0 < x")
  case True
  obtain n where n: "(1::rat) = of_int n * ulp p x"
    using int_multiple_of_ulp [OF True assms(3,2)] .
  then have m: "of_int m = of_int (m * n) * ulp p x" by (simp add: mult.assoc)
  have "x \<le> of_int (m * n) * ulp p x" using assms(1) unfolding m [symmetric] .
  then have "x / ulp p x \<le> of_int (m * n)" by (simp only: pos_divide_le_eq [OF ulp_pos])
  then have "half_even (x / ulp p x) \<le> m * n" by (rule half_even_le)
  then have "of_int (half_even (x / ulp p x)) * ulp p x \<le> of_int (m * n) * ulp p x"
    using less_imp_le [OF ulp_pos] by (intro mult_right_mono) (simp_all only: of_int_le_iff)
  then show ?thesis unfolding round_float_pos [OF True] m [symmetric] .
qed (use assms in \<open>simp add: round_float_def\<close>)

lemma round_float_of_int:
  assumes "0 \<le> m" "m < 2 ^ p" "0 < p"
  shows "round_float p (of_int m) = of_int m"
proof (cases "m = 0")
  case False
  with assms have pos: "(0::rat) < of_int m" by simp
  from assms(2) have "(of_int m :: rat) < of_int (2 ^ p)" by (simp only: of_int_less_iff)
  then have "(of_int m :: rat) < 2 ^ p" by simp
  then obtain n where "(1::rat) = of_int n * ulp p (of_int m)"
    using int_multiple_of_ulp [OF pos assms(3)] by blast
  then have m: "(of_int m :: rat) = of_int (m * n) * ulp p (of_int m)" by (simp add: mult.assoc)
  then have "of_int m / ulp p (of_int m) = (of_int (m * n) :: rat)"
    by (metis less_irrefl nonzero_mult_div_cancel_right ulp_pos)
  then have "half_even (of_int m / ulp p (of_int m)) = m * n" by (simp only: half_even_of_int)
  then show ?thesis unfolding round_float_pos [OF pos] using m by simp
qed (simp add: round_float_def)

lemma round_float_of_nat: "m < 2 ^ p \<Longrightarrow> 0 < p \<Longrightarrow> round_float p (of_nat m) = of_nat m"
  using round_float_of_int [of "int m" p] by simp

end
