(* ===== verification/Photo_Reserve.thy ===== *)
theory Photo_Reserve
  imports Frame_Prelude
begin

text \<open>
  The contract of a reserve of photos, as the render thread and the offline rotation use one: photos
  are put in, perhaps refused, and taken out oldest first. A provider says what it holds
  (\<open>contents\<close>), what it accepts, and for how many more puts its laws are guaranteed (\<open>room\<close>).
  The photo cache on the SD card provides it.
\<close>

datatype ('e, 'i, 'p) reserve_op = Put 'e 'i 'p | TakeOne

text \<open>A run of operations: the photos accepted, the photos taken out, and the final state.\<close>

fun reserve_run ::
  "('e \<Rightarrow> 'i \<Rightarrow> 'p \<Rightarrow> 's \<Rightarrow> bool) \<Rightarrow> ('e \<Rightarrow> 'i \<Rightarrow> 'p \<Rightarrow> 's \<Rightarrow> 's) \<Rightarrow> ('s \<Rightarrow> 'p option \<times> 's)
   \<Rightarrow> ('e, 'i, 'p) reserve_op list \<Rightarrow> 's \<Rightarrow> 'p list \<times> 'p list \<times> 's" where
  "reserve_run acc put tk [] s = ([], [], s)"
| "reserve_run acc put tk (Put e i p # ops) s =
     (case reserve_run acc put tk ops (put e i p s) of
        (ins, outs, s') \<Rightarrow> (if acc e i p s then p # ins else ins, outs, s'))"
| "reserve_run acc put tk (TakeOne # ops) s =
     (case tk s of (r, s1) \<Rightarrow>
        (case reserve_run acc put tk ops s1 of
           (ins, outs, s') \<Rightarrow> (ins, (case r of None \<Rightarrow> outs | Some p \<Rightarrow> p # outs), s')))"

locale photo_reserve =
  fixes inv :: "'s \<Rightarrow> bool"
    and contents :: "'s \<Rightarrow> 'p list"
    and room :: "'s \<Rightarrow> nat"
    and accepts :: "'e \<Rightarrow> 'i \<Rightarrow> 'p \<Rightarrow> 's \<Rightarrow> bool"
    and put :: "'e \<Rightarrow> 'i \<Rightarrow> 'p \<Rightarrow> 's \<Rightarrow> 's"
    and take_one :: "'s \<Rightarrow> 'p option \<times> 's"
  assumes put_inv: "inv s \<Longrightarrow> 0 < room s \<Longrightarrow> inv (put e i p s)"
    and put_contents: "inv s \<Longrightarrow> 0 < room s \<Longrightarrow>
      contents (put e i p s) = contents s @ (if accepts e i p s then [p] else [])"
    and put_room: "inv s \<Longrightarrow> 0 < room s \<Longrightarrow> room s \<le> Suc (room (put e i p s))"
    and take_inv: "inv s \<Longrightarrow> inv (snd (take_one s))"
    and take_result: "inv s \<Longrightarrow>
      fst (take_one s) = (if contents s = [] then None else Some (hd (contents s)))"
    and take_contents: "inv s \<Longrightarrow> contents (snd (take_one s)) = tl (contents s)"
    and take_room: "inv s \<Longrightarrow> room s \<le> room (snd (take_one s))"
begin

text \<open>First in, first out: nothing is lost, invented, repeated or reordered.\<close>

lemma fifo:
  assumes "inv s" and "length ops \<le> room s"
    and "reserve_run accepts put take_one ops s = (ins, outs, s')"
  shows "contents s @ ins = outs @ contents s' \<and> inv s'"
  using assms
proof (induction ops arbitrary: s ins outs s')
  case Nil
  then show ?case by simp
next
  case (Cons operation ops)
  show ?case
  proof (cases operation)
    case (Put e i p)
    obtain ins' outs' t where run: "reserve_run accepts put take_one ops (put e i p s) = (ins', outs', t)"
      by (metis prod_cases3)
    have room: "0 < room s" "length ops \<le> room (put e i p s)"
      using Cons.prems(1,2) put_room [of s e i p] by auto
    show ?thesis
      using Cons.IH [OF put_inv [OF Cons.prems(1) room(1)] room(2) run] Cons.prems(3) run
        put_contents [OF Cons.prems(1) room(1), of e i p]
      by (auto simp: Put split: if_splits)
  next
    case TakeOne
    obtain ins' outs' t where run: "reserve_run accepts put take_one ops (snd (take_one s)) = (ins', outs', t)"
      by (metis prod_cases3)
    have room: "length ops \<le> room (snd (take_one s))"
      using Cons.prems(1,2) take_room [of s] by auto
    show ?thesis
      using Cons.IH [OF take_inv [OF Cons.prems(1)] room run] Cons.prems(3) run
        take_contents [OF Cons.prems(1)] take_result [OF Cons.prems(1)]
      by (cases "take_one s"; cases "contents s") (auto simp: TakeOne)
  qed
qed

lemma take_only_contents:
  assumes "inv s" and "fst (take_one s) = Some p"
  shows "contents s = p # contents (snd (take_one s))"
  using assms take_result [of s] take_contents [of s] by (cases "contents s") auto

end

end
