(* ===== verification/Photo_Cache.thy ===== *)
theory Photo_Cache
  imports Sd_Card Rendered_Image Float_Round Photo_Reserve "HOL-Library.Multiset"
begin

text \<open>
  Photos kept on the SD card: \<open>frame-firmware/src/photo_cache.rs\<close>.

  The state is the \<open>/sdcard/ha\<close> folder. Each operation takes the environment it runs in: what
  each of its directory listings yields, what the card refuses, and what
  \<open>esp_vfs_fat_info\<close> reports. A cached photo is a file \<open><order>-<photo id>.rgb565\<close>; file names are
  UTF-8, so \<open>to_str\<close> is the identity. A power cut during \<open>store_photo\<close> is the outcome that stops at the
  same point: a cut write, or a rename that did not happen.

  The lemmas show the naming scheme (sorted names are arrival order), what each operation does to
  the cache, and that on a card whose names are the frame's own the cache is a first-in first-out
  queue of photos; the contract of such a reserve is the locale \<open>photo_reserve\<close>.
\<close>

section \<open>Names\<close>

definition PHOTO_BYTES :: nat where
  "PHOTO_BYTES = usize_mul (usize_mul PANEL_LOGICAL_WIDTH PANEL_LOGICAL_HEIGHT) 2"

definition TARGET_PHOTOS :: nat where "TARGET_PHOTOS = 48"

definition MAX_CARD_FRACTION_USED :: rat where
  "MAX_CARD_FRACTION_USED = round_float 53 (80 / 100)"

definition path_for :: "nat \<Rightarrow> string \<Rightarrow> string" where
  "path_for sequence photo_id = show_padded 12 sequence @ ''-'' @ photo_id @ ''.rgb565''"

definition photo_id_of :: "string \<Rightarrow> string option" where
  "photo_id_of path = map_option snd (split_once (CHR ''-'') (file_stem path))"

definition order_of :: "string \<Rightarrow> nat option" where
  "order_of path =
     (case split_once (CHR ''-'') (file_stem path) of
        None \<Rightarrow> None
      | Some (order, _) \<Rightarrow> parse_u64 order)"

definition is_photo_name :: "string \<Rightarrow> bool" where
  "is_photo_name path = (extension path = Some ''rgb565'')"

section \<open>Listings\<close>

text \<open>
  One directory listing: \<open>None\<close> when the folder cannot be read, otherwise the entries that can.
\<close>

type_synonym listing = "(string \<Rightarrow> bool) option"

definition entries :: "listing \<Rightarrow> files \<Rightarrow> string list" where
  "entries l fs =
     (case l of None \<Rightarrow> []
      | Some readable \<Rightarrow> sort (filter is_photo_name (filter readable (names fs))))"

definition contains :: "listing \<Rightarrow> string \<Rightarrow> files \<Rightarrow> bool" where
  "contains l photo_id fs = list_ex (\<lambda>path. photo_id_of path = Some photo_id) (entries l fs)"

definition next_sequence :: "listing \<Rightarrow> files \<Rightarrow> nat" where
  "next_sequence l fs =
     (case List.map_filter order_of (entries l fs) of
        [] \<Rightarrow> 0
      | n # ns \<Rightarrow> (fold max ns n + 1) mod 2 ^ 64)"

definition count_photos :: "listing \<Rightarrow> files \<Rightarrow> nat" where
  "count_photos l fs = length (entries l fs)"

definition wanted :: "listing \<Rightarrow> files \<Rightarrow> nat" where
  "wanted l fs = TARGET_PHOTOS - count_photos l fs"

text \<open>What the card does during one operation.\<close>

record cache_env =
  list_contains :: listing
  list_count :: listing
  list_order :: listing
  refuses_read :: "string \<Rightarrow> bool"
  refuses_remove :: "string \<Rightarrow> bool"
  write_out :: write_outcome
  rename_ok :: bool
  io_error :: error
  usage :: "(u64 \<times> u64) option"

section \<open>Operations\<close>

definition used_after :: "u64 \<Rightarrow> u64 \<Rightarrow> u64" where
  "used_after total_bytes free_bytes =
     (if free_bytes \<le> total_bytes then total_bytes - free_bytes else 0) + of_nat PHOTO_BYTES"

definition f64_of_u64 :: "u64 \<Rightarrow> rat" where
  "f64_of_u64 n = round_float 53 (of_nat (unat n))"

definition f64_mul :: "rat \<Rightarrow> rat \<Rightarrow> rat" where
  "f64_mul a b = round_float 53 (a * b)"

definition has_room :: "cache_env \<Rightarrow> files \<Rightarrow> bool" where
  "has_room env fs =
     (if TARGET_PHOTOS \<le> count_photos (list_count env) fs then False
      else (case usage env of
              Some (total_bytes, free_bytes) \<Rightarrow>
                if 0 < total_bytes
                then f64_of_u64 (used_after total_bytes free_bytes)
                       < f64_mul (f64_of_u64 total_bytes) MAX_CARD_FRACTION_USED
                else True
            | None \<Rightarrow> True))"

definition usable_id :: "string \<Rightarrow> bool" where
  "usable_id photo_id = (photo_id \<noteq> [] \<and> list_all is_ascii_alphanumeric photo_id)"

text \<open>\<open>{:?}\<close> of the refused name is left to the parameter \<open>debug\<close>.\<close>

definition store_photo :: "(string \<Rightarrow> string) \<Rightarrow> cache_env \<Rightarrow> string \<Rightarrow> u8 list \<Rightarrow> files \<Rightarrow> unit result \<times> files" where
  "store_photo debug env photo_id pixels fs =
     (if length pixels \<noteq> PHOTO_BYTES then
        (Inl (Msg (''refusing to cache '' @ show_nat (length pixels) @ '' bytes; a photo is ''
                   @ show_nat PHOTO_BYTES)), fs)
      else if \<not> usable_id photo_id then
        (Inl (Msg (''refusing to cache under an unusable name '' @ debug photo_id)), fs)
      else if contains (list_contains env) photo_id fs then (Inr (), fs)
      else if \<not> has_room env fs then (Inr (), fs)
      else
        let final_path = path_for (next_sequence (list_order env) fs) photo_id;
            temp_path = with_extension ''part'' final_path;
            fs1 = fs_write_out (write_out env) temp_path pixels fs
        in if \<not> write_ok (write_out env) then
             (Inl (Context (''could not write '' @ HA_CACHE_DIR @ ''/'' @ temp_path) (io_error env)), fs1)
           else if \<not> rename_ok env then
             (Inl (Context (''could not finish writing '' @ HA_CACHE_DIR @ ''/'' @ final_path)
                     (io_error env)), fs1)
           else (Inr (), fs_rename temp_path final_path fs1))"

definition try_remove :: "cache_env \<Rightarrow> string \<Rightarrow> files \<Rightarrow> files" where
  "try_remove env path fs = (if refuses_remove env path then fs else fs_remove path fs)"

definition try_read :: "cache_env \<Rightarrow> string \<Rightarrow> files \<Rightarrow> u8 list option" where
  "try_read env path fs = (if refuses_read env path then None else fs_read path fs)"

fun take_from :: "cache_env \<Rightarrow> string list \<Rightarrow> files \<Rightarrow> u8 list option \<times> files" where
  "take_from env [] fs = (None, fs)"
| "take_from env (path # paths) fs =
     (case try_read env path fs of
        Some bytes \<Rightarrow>
          if length bytes = PHOTO_BYTES then (Some bytes, try_remove env path fs)
          else take_from env paths (try_remove env path fs)
      | None \<Rightarrow> take_from env paths (try_remove env path fs))"

definition take_oldest :: "cache_env \<Rightarrow> files \<Rightarrow> u8 list option \<times> files" where
  "take_oldest env fs = take_from env (entries (list_contains env) fs) fs"

definition clear_cache :: "cache_env \<Rightarrow> files \<Rightarrow> files" where
  "clear_cache env fs = fold (try_remove env) (entries (list_contains env) fs) fs"

section \<open>Lemmas on names\<close>

lemma PHOTO_BYTES_eq: "PHOTO_BYTES = 2048000"
  by (simp add: PHOTO_BYTES_def usize_mul_def usize_limit_def PANEL_LOGICAL_WIDTH_def
      PANEL_LOGICAL_HEIGHT_def)

lemma stem_path_for [simp]: "file_stem (path_for s i) = show_padded 12 s @ ''-'' @ i"
  using stem_extension_append(1) [of "show_padded 12 s @ ''-'' @ i" "''rgb565''"]
  by (simp add: path_for_def)

lemma is_photo_path_for [simp]: "is_photo_name (path_for s i)"
  using stem_extension_append(2) [of "show_padded 12 s @ ''-'' @ i" "''rgb565''"]
  by (simp add: path_for_def is_photo_name_def)

lemma not_photo_part [simp]: "\<not> is_photo_name (with_extension ''part'' (path_for s i))"
  using stem_extension_append(2) [of "show_padded 12 s @ ''-'' @ i" "''part''"]
  by (simp add: with_extension_def is_photo_name_def)

lemma part_not_path_for [simp]: "with_extension ''part'' (path_for s i) \<noteq> path_for t j"
  by (metis is_photo_path_for not_photo_part)

lemma dash_not_in_padded: "CHR ''-'' \<notin> set (show_padded 12 s)"
  using show_padded_digits [of "CHR ''-''" 12 s] by (auto simp: is_ascii_digit_def in_range_def)

lemma split_path_for [simp]:
  "split_once (CHR ''-'') (show_padded 12 s @ ''-'' @ i) = Some (show_padded 12 s, i)"
  using split_once_append [OF dash_not_in_padded [of s], of i] by simp

lemma photo_id_of_path_for [simp]: "photo_id_of (path_for s i) = Some i"
  using split_path_for [of s i] by (simp add: photo_id_of_def)

lemma order_of_path_for [simp]: "s < 10 ^ 12 \<Longrightarrow> order_of (path_for s i) = Some s"
  using split_path_for [of s i] parse_u64_show_padded [of 12 s] by (simp add: order_of_def)

section \<open>Storing\<close>

text \<open>The photo files of the folder are only ever complete photos, whatever the card does.\<close>

lemma store_photo_files:
  assumes "is_photo_name path"
  shows "fs_read path (snd (store_photo debug env i pixels fs)) = fs_read path fs \<or>
    (fs_read path (snd (store_photo debug env i pixels fs)) = Some pixels \<and> length pixels = PHOTO_BYTES \<and>
     fst (store_photo debug env i pixels fs) = Inr () \<and>
     path = path_for (next_sequence (list_order env) fs) i)"
proof -
  let ?temp = "with_extension ''part'' (path_for (next_sequence (list_order env) fs) i)"
  have "path \<noteq> ?temp" using assms not_photo_part by metis
  then show ?thesis
    by (auto simp: store_photo_def Let_def fs_write_out_def write_ok_def fs_rename_def
        split: write_outcome.split)
qed

definition whole_photos :: "files \<Rightarrow> bool" where
  "whole_photos fs \<longleftrightarrow>
     (\<forall>path bytes. is_photo_name path \<longrightarrow> fs_read path fs = Some bytes \<longrightarrow> length bytes = PHOTO_BYTES)"

text \<open>
  A photo file on the card is always a whole photo. However \<open>store_photo\<close> ends -- refused, out of
  room, cut in the middle of the write, not renamed, or done -- every file that the cache counts as
  a photo is either the file that was there before or, only after success, the complete photo that
  was stored, so a folder whose photo files are all whole stays one.
\<close>

theorem store_never_leaves_a_partial_photo:
  assumes "whole_photos fs"
  shows "whole_photos (snd (store_photo debug env i pixels fs))"
  unfolding whole_photos_def
proof (intro allI impI)
  fix path bytes
  assume "is_photo_name path" "fs_read path (snd (store_photo debug env i pixels fs)) = Some bytes"
  with assms store_photo_files [of path debug env i pixels fs] show "length bytes = PHOTO_BYTES"
    unfolding whole_photos_def by (metis option.inject)
qed

definition everything :: listing where
  "everything = Some (\<lambda>_. True)"

definition healthy_env :: "(u64 \<times> u64) option \<Rightarrow> cache_env" where
  "healthy_env u = \<lparr>list_contains = everything, list_count = everything, list_order = everything,
     refuses_read = (\<lambda>_. False), refuses_remove = (\<lambda>_. False), write_out = Written,
     rename_ok = True, io_error = Msg [], usage = u\<rparr>"

definition black_photo :: "u8 list" where
  "black_photo = replicate 2048000 0"

theorem store_never_leaves_a_partial_photo_witness:
  "whole_photos (snd (store_photo id ((healthy_env None)\<lparr>write_out := CutAfter 7\<rparr>) ''a1'' black_photo []))"
  by (rule store_never_leaves_a_partial_photo) (simp add: whole_photos_def fs_read_def)

section \<open>The cache of a card the frame keeps itself\<close>

text \<open>Every photo file has a name the frame gave it, with an order below \<open>10 ^ 12\<close>.\<close>

definition own_name :: "string \<Rightarrow> bool" where
  "own_name path \<longleftrightarrow> (\<exists>s i. s < 10 ^ 12 \<and> path = path_for s i)"

definition own_cache :: "files \<Rightarrow> bool" where
  "own_cache fs \<longleftrightarrow> distinct (names fs) \<and> (\<forall>path \<in> set (names fs). is_photo_name path \<longrightarrow> own_name path)"

definition headroom :: "files \<Rightarrow> nat" where
  "headroom fs = 10 ^ 12 - next_sequence everything fs"

definition photos :: "files \<Rightarrow> u8 list list" where
  "photos fs = filter (\<lambda>bytes. length bytes = PHOTO_BYTES)
                 (map (\<lambda>path. the (fs_read path fs)) (entries everything fs))"

definition accepted :: "(u64 \<times> u64) option \<Rightarrow> string \<Rightarrow> u8 list \<Rightarrow> files \<Rightarrow> bool" where
  "accepted u i pixels fs \<longleftrightarrow> length pixels = PHOTO_BYTES \<and> usable_id i \<and>
     \<not> contains everything i fs \<and> has_room (healthy_env u) fs"

lemma healthy_env_simps [simp]:
  "list_contains (healthy_env u) = everything" "list_count (healthy_env u) = everything"
  "list_order (healthy_env u) = everything" "refuses_read (healthy_env u) = (\<lambda>_. False)"
  "refuses_remove (healthy_env u) = (\<lambda>_. False)" "write_out (healthy_env u) = Written"
  "rename_ok (healthy_env u)" "usage (healthy_env u) = u"
  by (simp_all add: healthy_env_def)

lemma entries_everything: "entries everything fs = sort (filter is_photo_name (names fs))"
  by (simp add: entries_def everything_def)

lemma own_entries: "own_cache fs \<Longrightarrow> path \<in> set (entries everything fs) \<Longrightarrow> own_name path"
  by (auto simp: own_cache_def entries_everything)

lemma order_of_own: "own_name path \<Longrightarrow> \<exists>s < 10 ^ 12. order_of path = Some s \<and> (\<exists>i. path = path_for s i)"
  unfolding own_name_def by (metis order_of_path_for)

lemma path_for_less: "s < t \<Longrightarrow> t < 10 ^ 12 \<Longrightarrow> path_for s i < path_for t j"
proof -
  assume st: "s < t" "t < 10 ^ 12"
  then have less: "show_padded 12 s < show_padded 12 t" by (simp add: show_padded_less)
  have len: "length (show_padded 12 s) = length (show_padded 12 t)"
    using st by (simp add: show_padded_low_digits)
  have "a @ x < b @ y" if "a < b" "length a = length b" for a b x y :: string
    using that by (induction a b rule: list_induct2') auto
  from this [OF less len] show ?thesis by (simp add: path_for_def)
qed

lemma next_sequence_le_iff:
  assumes "\<And>s. s \<in> set (List.map_filter order_of (entries l fs)) \<Longrightarrow> s < 2 ^ 64 - 1"
  shows "next_sequence l fs \<le> m \<longleftrightarrow> (\<forall>s \<in> set (List.map_filter order_of (entries l fs)). s < m)"
proof (cases "List.map_filter order_of (entries l fs)")
  case Nil
  then show ?thesis by (simp add: next_sequence_def)
next
  case (Cons n ns)
  have "fold max ns n = Max (set (n # ns))" by (rule Max.set_eq_fold [symmetric])
  moreover have "Max (set (n # ns)) < 2 ^ 64 - 1"
    using assms Cons by (metis List.finite_set Max_in list.discI set_empty)
  ultimately have "next_sequence l fs = Max (set (n # ns)) + 1" by (simp add: next_sequence_def Cons)
  then show ?thesis
    unfolding Cons using Max_less_iff [of "set (n # ns)" m] by (simp add: Suc_le_eq)
qed

lemma own_orders:
  assumes "own_cache fs" "s \<in> set (List.map_filter order_of (entries everything fs))"
  shows "s < 10 ^ 12"
  using assms order_of_own own_entries by (fastforce simp: List.map_filter_def)

lemma own_next_sequence_le_iff:
  assumes "own_cache fs"
  shows "next_sequence everything fs \<le> m \<longleftrightarrow>
    (\<forall>path \<in> set (entries everything fs). \<forall>s. order_of path = Some s \<longrightarrow> s < m)"
proof -
  have "s < 2 ^ 64 - 1" if "s \<in> set (List.map_filter order_of (entries everything fs))" for s
    using own_orders [OF assms that] by simp
  from next_sequence_le_iff [OF this] show ?thesis
    by (fastforce simp: List.map_filter_def)
qed

lemma own_order_less_next:
  assumes "own_cache fs" "path \<in> set (entries everything fs)" "order_of path = Some s"
  shows "s < next_sequence everything fs"
  using own_next_sequence_le_iff [OF assms(1), of "next_sequence everything fs"] assms(2,3) by simp

lemma own_less_new:
  assumes "own_cache fs" "path \<in> set (entries everything fs)" "next_sequence everything fs < 10 ^ 12"
  shows "path < path_for (next_sequence everything fs) i"
  using own_order_less_next [OF assms(1,2)] order_of_own [OF own_entries [OF assms(1,2)]]
    path_for_less [OF _ assms(3)] by metis

lemma sort_snoc_greater:
  fixes xs :: "'a :: linorder list"
  assumes "\<And>x. x \<in> set xs \<Longrightarrow> x < a"
  shows "sort (xs @ [a]) = sort xs @ [a]"
  using assms by (intro properties_for_sort) (auto simp: sorted_append less_imp_le)

definition stored :: "string \<Rightarrow> u8 list \<Rightarrow> files \<Rightarrow> files" where
  "stored i pixels fs =
     (let final_path = path_for (next_sequence everything fs) i; temp_path = with_extension ''part'' final_path
      in fs_rename temp_path final_path (fs_write temp_path pixels fs))"

lemma store_healthy:
  "snd (store_photo debug (healthy_env u) i pixels fs) =
     (if accepted u i pixels fs then stored i pixels fs else fs)"
  by (simp add: store_photo_def accepted_def stored_def Let_def write_ok_def fs_write_out_def)

lemma stored_names:
  assumes "own_cache fs" "next_sequence everything fs < 10 ^ 12"
  shows "filter is_photo_name (names (stored i pixels fs)) =
    filter is_photo_name (names fs) @ [path_for (next_sequence everything fs) i]"
proof -
  let ?path = "path_for (next_sequence everything fs) i"
  have "?path \<notin> set (entries everything fs)" using own_less_new [OF assms(1) _ assms(2)] by blast
  then have new: "?path \<notin> set (names fs)" by (simp add: entries_everything)
  have keep: "filter (\<lambda>m. m \<noteq> with_extension ''part'' ?path \<and> is_photo_name m) ms = filter is_photo_name ms"
    for ms using not_photo_part by (intro filter_cong) auto
  show ?thesis
    using new by (auto simp: stored_def Let_def fs_rename_def names_fs_write names_fs_remove keep)
qed

lemma entries_stored:
  assumes "own_cache fs" "next_sequence everything fs < 10 ^ 12"
  shows "entries everything (stored i pixels fs) =
    entries everything fs @ [path_for (next_sequence everything fs) i]"
  unfolding entries_everything stored_names [OF assms]
  by (rule sort_snoc_greater) (use own_less_new [OF assms(1) _ assms(2)] in \<open>simp add: entries_everything\<close>)

lemma own_cache_stored:
  assumes "own_cache fs" "next_sequence everything fs < 10 ^ 12"
  shows "own_cache (stored i pixels fs)"
proof -
  have "own_name path" if "path \<in> set (filter is_photo_name (names (stored i pixels fs)))" for path
    using that assms by (auto simp: stored_names [OF assms] own_cache_def own_name_def)
  moreover have "distinct (names (stored i pixels fs))"
    using assms(1) by (simp add: stored_def Let_def fs_rename_def own_cache_def)
  ultimately show ?thesis by (simp add: own_cache_def)
qed

lemma fs_read_stored:
  "is_photo_name path \<Longrightarrow> fs_read path (stored i pixels fs) =
     (if path = path_for (next_sequence everything fs) i then Some pixels else fs_read path fs)"
  using not_photo_part by (auto simp: stored_def Let_def fs_rename_def)

lemma photos_stored:
  assumes "own_cache fs" "next_sequence everything fs < 10 ^ 12" "length pixels = PHOTO_BYTES"
  shows "photos (stored i pixels fs) = photos fs @ [pixels]"
proof -
  let ?path = "path_for (next_sequence everything fs) i"
  have same: "map (\<lambda>path. the (fs_read path (stored i pixels fs))) (entries everything fs) =
        map (\<lambda>path. the (fs_read path fs)) (entries everything fs)"
  proof (rule map_cong)
    fix path assume path: "path \<in> set (entries everything fs)"
    then have "is_photo_name path" by (simp add: entries_everything)
    moreover have "path \<noteq> ?path" using own_less_new [OF assms(1) path assms(2)] by blast
    ultimately show "the (fs_read path (stored i pixels fs)) = the (fs_read path fs)"
      by (simp add: fs_read_stored)
  qed simp
  show ?thesis
    unfolding photos_def entries_stored [OF assms(1,2)] map_append same filter_append
    by (simp add: fs_read_stored assms(3))
qed

lemma next_sequence_stored:
  assumes "own_cache fs" "next_sequence everything fs < 10 ^ 12"
  shows "next_sequence everything (stored i pixels fs) \<le> Suc (next_sequence everything fs)"
  unfolding own_next_sequence_le_iff [OF own_cache_stored [OF assms]] entries_stored [OF assms]
  using own_order_less_next [OF assms(1)] assms(2) by (auto simp: less_Suc_eq)

section \<open>Taking\<close>

lemma entries_fs_remove: "entries everything (fs_remove path fs) = filter (\<lambda>m. m \<noteq> path) (entries everything fs)"
  by (simp add: entries_everything names_fs_remove filter_sort conj_commute)

lemma own_cache_remove: "own_cache fs \<Longrightarrow> own_cache (fs_remove path fs)"
  by (auto simp: own_cache_def names_fs_remove)

lemma distinct_entries: "own_cache fs \<Longrightarrow> distinct (entries everything fs)"
  by (simp add: entries_everything own_cache_def)

lemma headroom_remove: "own_cache fs \<Longrightarrow> headroom fs \<le> headroom (fs_remove path fs)"
proof -
  assume own: "own_cache fs"
  have "next_sequence everything (fs_remove path fs) \<le> next_sequence everything fs"
    unfolding own_next_sequence_le_iff [OF own_cache_remove [OF own]] entries_fs_remove
    using own_order_less_next [OF own] by auto
  then show ?thesis by (simp add: headroom_def)
qed

lemma photos_remove_head:
  assumes "own_cache fs" "entries everything fs = path # paths"
  shows "entries everything (fs_remove path fs) = paths"
    "photos fs = (if length (the (fs_read path fs)) = PHOTO_BYTES then [the (fs_read path fs)] else [])
       @ photos (fs_remove path fs)"
proof -
  have "path \<notin> set paths" using distinct_entries [OF assms(1)] assms(2) by simp
  then show ent: "entries everything (fs_remove path fs) = paths"
    by (simp add: entries_fs_remove assms(2) filter_id_conv) (metis filter_True)
  have same: "map (\<lambda>m. the (fs_read m (fs_remove path fs))) paths = map (\<lambda>m. the (fs_read m fs)) paths"
    using \<open>path \<notin> set paths\<close> by auto
  show "photos fs = (if length (the (fs_read path fs)) = PHOTO_BYTES then [the (fs_read path fs)] else [])
       @ photos (fs_remove path fs)"
    unfolding photos_def ent assms(2) same by simp
qed

definition take_healthy :: "files \<Rightarrow> u8 list option \<times> files" where
  "take_healthy fs = take_oldest (healthy_env None) fs"

lemma take_from_healthy:
  "own_cache fs \<Longrightarrow> entries everything fs = paths \<Longrightarrow>
   take_from (healthy_env u) paths fs = (r, fs') \<Longrightarrow>
   r = (if photos fs = [] then None else Some (hd (photos fs))) \<and> photos fs' = tl (photos fs) \<and>
   own_cache fs' \<and> headroom fs \<le> headroom fs'"
proof (induction paths arbitrary: fs)
  case Nil
  then show ?case by (auto simp: photos_def)
next
  case (Cons path paths)
  note head = photos_remove_head [OF Cons.prems(1,2)]
  have "path \<in> set (names fs)"
    using Cons.prems(2) by (metis entries_everything filter_is_subset list.set_intros(1) set_sort subset_iff)
  then obtain bytes where bytes: "fs_read path fs = Some bytes"
    using fs_read_names by blast
  show ?case
  proof (cases "length bytes = PHOTO_BYTES")
    case True
    with head(2) bytes have "photos fs = bytes # photos (fs_remove path fs)" by simp
    with True show ?thesis
      using Cons.prems(3) bytes own_cache_remove [OF Cons.prems(1)] headroom_remove [OF Cons.prems(1)]
      by (auto simp: try_read_def try_remove_def)
  next
    case False
    with Cons.prems(3) bytes have "take_from (healthy_env u) paths (fs_remove path fs) = (r, fs')"
      by (simp add: try_read_def try_remove_def)
    from Cons.IH [OF own_cache_remove [OF Cons.prems(1)] head(1) this] False
    show ?thesis
      using head(2) bytes headroom_remove [OF Cons.prems(1), of path] by auto
  qed
qed

lemma take_healthy_laws:
  assumes "own_cache fs"
  shows "fst (take_healthy fs) = (if photos fs = [] then None else Some (hd (photos fs)))"
    and "photos (snd (take_healthy fs)) = tl (photos fs)"
    and "own_cache (snd (take_healthy fs))" and "headroom fs \<le> headroom (snd (take_healthy fs))"
  using take_from_healthy [OF assms refl, of None "fst (take_healthy fs)" "snd (take_healthy fs)"]
  by (simp_all add: take_healthy_def take_oldest_def)

section \<open>The cache is a first-in first-out reserve\<close>

definition put_healthy :: "(u64 \<times> u64) option \<Rightarrow> string \<Rightarrow> u8 list \<Rightarrow> files \<Rightarrow> files" where
  "put_healthy u i pixels fs = snd (store_photo id (healthy_env u) i pixels fs)"

interpretation cache: photo_reserve own_cache photos headroom accepted put_healthy take_healthy
proof unfold_locales
  fix fs u i pixels
  assume own: "own_cache fs" and "0 < headroom fs"
  then have seq: "next_sequence everything fs < 10 ^ 12" by (simp add: headroom_def)
  note put = put_healthy_def store_healthy
  show "own_cache (put_healthy u i pixels fs)" using own own_cache_stored [OF own seq] by (simp add: put)
  show "photos (put_healthy u i pixels fs) = photos fs @ (if accepted u i pixels fs then [pixels] else [])"
    using photos_stored [OF own seq] by (simp add: put accepted_def)
  show "headroom fs \<le> Suc (headroom (put_healthy u i pixels fs))"
    using next_sequence_stored [OF own seq, of i pixels]
    unfolding put headroom_def by (auto split: if_split)
qed (simp_all add: take_healthy_laws)

text \<open>
  C4: the cache on the card is a first-in first-out queue of photos. On a card whose photo files are
  the frame's own, any sequence of stores and takes (fewer than the order numbers left below
  \<open>10 ^ 12\<close>) hands out the photos it held and then the photos it accepted, each once, unchanged and
  in arrival order, and what was not handed out is still on the card.
\<close>

theorem cache_is_fifo:
  assumes "own_cache fs" and "length ops \<le> headroom fs"
    and "reserve_run accepted put_healthy take_healthy ops fs = (ins, outs, fs')"
  shows "photos fs @ ins = outs @ photos fs'"
  using cache.fifo [OF assms] by simp

lemma accepted_empty: "accepted None ''a1'' black_photo []"
  by (simp add: accepted_def black_photo_def PHOTO_BYTES_eq usable_id_def is_ascii_alphanumeric_def
      is_ascii_digit_def is_ascii_lower_def is_ascii_upper_def in_range_def contains_def has_room_def count_photos_def entries_everything names_def
      TARGET_PHOTOS_def)

lemma own_cache_Nil: "own_cache []" "photos [] = []" "headroom [] = 10 ^ 12"
  by (simp_all add: own_cache_def names_def photos_def headroom_def next_sequence_def
      entries_everything List.map_filter_def)

theorem cache_is_fifo_witness:
  "\<exists>outs fs'. photos [] @ [black_photo] = outs @ photos fs' \<and> outs = [black_photo]"
proof -
  let ?ops = "[Put None ''a1'' black_photo, TakeOne]"
  let ?s = "put_healthy None ''a1'' black_photo []"
  have s: "own_cache ?s" "photos ?s = [black_photo]"
    using cache.put_inv [of "[]"] cache.put_contents [of "[]" None "''a1''" black_photo] accepted_empty
    by (simp_all add: own_cache_Nil)
  have "reserve_run accepted put_healthy take_healthy ?ops [] =
          ([black_photo], [black_photo], snd (take_healthy ?s))"
    using cache.take_result [OF s(1)]
    by (cases "take_healthy ?s") (simp add: s(2) accepted_empty)
  from cache_is_fifo [OF own_cache_Nil(1) _ this] own_cache_Nil(3) show ?thesis by auto
qed

section \<open>Bounds\<close>

text \<open>At most 48 photos, no name twice, and no photo id twice.\<close>

definition tidy_cache :: "files \<Rightarrow> bool" where
  "tidy_cache fs \<longleftrightarrow> distinct (names fs) \<and> count_photos everything fs \<le> TARGET_PHOTOS \<and>
     distinct (map photo_id_of (entries everything fs))"

lemma tidy_cache_iff:
  "tidy_cache fs \<longleftrightarrow> distinct (names fs) \<and> length (filter is_photo_name (names fs)) \<le> 48 \<and>
     inj_on photo_id_of (set (filter is_photo_name (names fs)))"
  by (auto simp: tidy_cache_def count_photos_def entries_everything TARGET_PHOTOS_def distinct_map)

lemma tidy_remove: "tidy_cache fs \<Longrightarrow> tidy_cache (fs_remove path fs)"
proof -
  have "length (filter is_photo_name (filter (\<lambda>m. m \<noteq> path) ms)) \<le> length (filter is_photo_name ms)" for ms
    by (induction ms) auto
  then show "tidy_cache fs \<Longrightarrow> tidy_cache (fs_remove path fs)"
    by (force simp: tidy_cache_iff names_fs_remove intro: le_trans inj_on_subset)
qed

lemma tidy_write_other: "\<not> is_photo_name path \<Longrightarrow> tidy_cache fs \<Longrightarrow> tidy_cache (fs_write path bytes fs)"
  by (auto simp: tidy_cache_iff names_fs_write inj_on_def)

lemma tidy_write_new:
  assumes "tidy_cache fs" and "\<not> contains everything i fs" and "count_photos everything fs < TARGET_PHOTOS"
  shows "tidy_cache (fs_write (path_for s i) bytes fs)"
proof -
  have new: "photo_id_of path \<noteq> Some i" if "path \<in> set (names fs)" "is_photo_name path" for path
    using that assms(2) by (auto simp: contains_def list_ex_iff entries_everything)
  have inj: "inj_on photo_id_of (insert (path_for s i) {x \<in> set (names fs). is_photo_name x})"
    using assms(1) new by (force simp: tidy_cache_iff inj_on_def)
  have "{x. (x = path_for s i \<or> x \<in> set (names fs)) \<and> is_photo_name x} =
      insert (path_for s i) {x \<in> set (names fs). is_photo_name x}" by auto
  with inj show ?thesis
    using assms(1,3) unfolding tidy_cache_iff names_fs_write
    by (simp add: count_photos_def entries_everything TARGET_PHOTOS_def del: inj_on_insert)
qed

lemma contains_temp:
  "\<not> is_photo_name temp \<Longrightarrow> contains everything i (fs_remove temp (fs_write temp bytes fs)) = contains everything i fs"
  "\<not> is_photo_name temp \<Longrightarrow> count_photos everything (fs_remove temp (fs_write temp bytes fs)) = count_photos everything fs"
proof -
  assume temp: "\<not> is_photo_name temp"
  have keep: "filter (\<lambda>m. m \<noteq> temp \<and> is_photo_name m) ms = filter is_photo_name ms" for ms
    using temp by (intro filter_cong) auto
  show "contains everything i (fs_remove temp (fs_write temp bytes fs)) = contains everything i fs"
    "count_photos everything (fs_remove temp (fs_write temp bytes fs)) = count_photos everything fs"
    using temp by (simp_all add: contains_def count_photos_def entries_everything names_fs_remove names_fs_write keep)
qed

lemma tidy_store:
  assumes tidy: "tidy_cache fs" and env: "list_contains env = everything" "list_count env = everything"
  shows "tidy_cache (snd (store_photo debug env i pixels fs))"
proof -
  let ?temp = "with_extension ''part'' (path_for (next_sequence (list_order env) fs) i)"
  have out: "tidy_cache (fs_write_out w ?temp bytes fs)" for w bytes
    using tidy_write_other [OF not_photo_part tidy] tidy by (simp add: fs_write_out_def split: write_outcome.split)
  have "tidy_cache (fs_write (path_for (next_sequence (list_order env) fs) i) bytes
          (fs_remove ?temp (fs_write ?temp pixels fs)))"
    if "\<not> contains everything i fs" "has_room env fs" for bytes
    using that env(2)
    by (intro tidy_write_new tidy_remove tidy_write_other [OF not_photo_part tidy])
      (simp_all add: contains_temp has_room_def split: if_splits)
  then show ?thesis
    using tidy out env(1)
    by (simp add: store_photo_def Let_def fs_rename_def fs_write_out_def write_ok_def split: write_outcome.split)
qed

lemma tidy_try_remove: "tidy_cache fs \<Longrightarrow> tidy_cache (try_remove env path fs)"
  by (simp add: try_remove_def tidy_remove)

lemma tidy_take_from: "tidy_cache fs \<Longrightarrow> tidy_cache (snd (take_from env paths fs))"
  by (induction env paths fs rule: take_from.induct) (auto simp: tidy_try_remove split: option.split)

datatype cache_op = Store string "u8 list" | TakeOldest | Clear

definition cache_step :: "(string \<Rightarrow> string) \<Rightarrow> cache_env \<Rightarrow> cache_op \<Rightarrow> files \<Rightarrow> files" where
  "cache_step debug env operation fs =
     (case operation of
        Store i pixels \<Rightarrow> snd (store_photo debug env i pixels fs)
      | TakeOldest \<Rightarrow> snd (take_oldest env fs)
      | Clear \<Rightarrow> clear_cache env fs)"

lemma tidy_clear: "tidy_cache fs \<Longrightarrow> tidy_cache (clear_cache env fs)"
proof -
  have "tidy_cache fs \<Longrightarrow> tidy_cache (fold (try_remove env) paths fs)" for paths fs
    by (induction paths arbitrary: fs) (simp_all add: tidy_try_remove)
  then show "tidy_cache fs \<Longrightarrow> tidy_cache (clear_cache env fs)" by (simp add: clear_cache_def)
qed

text \<open>
  Whatever sequence of stores, takes and clears runs on the card, and whichever reads, writes,
  renames and deletions the card refuses, the cache never holds more than 48 photos and never holds
  a photo id twice, as long as the listings behind the duplicate and the room check can be read.
\<close>

theorem cache_stays_tidy:
  assumes "tidy_cache fs"
    and "\<forall>(env, operation) \<in> set steps. list_contains env = everything \<and> list_count env = everything"
  shows "tidy_cache (fold (\<lambda>(env, operation). cache_step debug env operation) steps fs)"
  using assms
proof (induction steps arbitrary: fs)
  case (Cons step steps)
  obtain env operation where step: "step = (env, operation)" by (cases step)
  have "tidy_cache (cache_step debug env operation fs)"
    using Cons.prems step
    by (cases operation) (simp_all add: cache_step_def tidy_store take_oldest_def tidy_take_from tidy_clear)
  with Cons.IH Cons.prems(2) show ?case by (simp add: step)
qed simp

theorem cache_stays_tidy_witness:
  "tidy_cache (fold (\<lambda>(env, operation). cache_step id env operation)
     [(healthy_env None, Store ''a1'' black_photo), (healthy_env None, Store ''a1'' black_photo),
      ((healthy_env None)\<lparr>refuses_remove := (\<lambda>_. True)\<rparr>, TakeOldest)] [])"
  by (rule cache_stays_tidy) (simp_all add: tidy_cache_iff names_def)

section \<open>The room check\<close>

lemma max_fraction: "MAX_CARD_FRACTION_USED = 3602879701896397 / 4503599627370496"
  unfolding MAX_CARD_FRACTION_USED_def by code_simp

lemma f64_of_u64_exact: "unat n < 2 ^ 53 \<Longrightarrow> f64_of_u64 n = of_nat (unat n)"
  unfolding f64_of_u64_def by (rule round_float_of_nat) simp_all

lemma eighty_percent_rounding:
  assumes "0 < t" "t < 2 ^ 50" "u < 2 ^ 53"
  shows "of_nat u < f64_mul (of_nat t) MAX_CARD_FRACTION_USED \<longleftrightarrow> 5 * u < 4 * t"
proof -
  define x :: rat where "x = of_nat t * MAX_CARD_FRACTION_USED"
  have x: "x = 4 * of_nat t / 5 + of_nat t / (5 * 2 ^ 52)" by (simp add: x_def max_fraction field_simps)
  have t: "(0::rat) < of_nat t" "(of_nat t :: rat) < 2 ^ 50"
    using assms(1,2) by simp_all
  have x0: "0 < x" using t by (simp add: x)
  have x53: "x < 2 ^ 53" using t by (simp add: x field_simps)
  show ?thesis
  proof (cases "5 * u < 4 * t")
    case True
    then have "(of_nat (5 * u + 1) :: rat) \<le> of_nat (4 * t)" by (simp only: of_nat_le_iff)
    then have "of_nat u + 1 / 5 \<le> x" using t by (simp add: x field_simps)
    moreover have "\<bar>round_float 53 x - x\<bar> * 2 ^ 53 \<le> x" by (rule round_float_relative [OF x0]) simp
    moreover have "x < 2 ^ 50" using t by (simp add: x field_simps)
    ultimately have "of_nat u < round_float 53 x" by (simp add: abs_le_iff abs_if split: if_splits)
    with True show ?thesis by (simp add: f64_mul_def x_def)
  next
    case False
    have "round_float 53 x \<le> of_nat u"
    proof (cases "4 * t = 5 * u")
      case True
      then have "(of_nat (4 * t) :: rat) = of_nat (5 * u)" by (simp only: of_nat_eq_iff)
      then have tu: "(of_nat t :: rat) = 5 * of_nat u / 4" by (simp add: field_simps)
      have xu: "x = of_nat u + of_nat u / 2 ^ 54" by (simp add: x tu field_simps)
      obtain n where n: "(1::rat) = of_int n * ulp 53 x"
        using int_multiple_of_ulp [OF x0 _ x53] by auto
      have "of_nat u * 1 = of_int (int u * n) * ulp 53 x" unfolding n by simp
      then have u: "(of_nat u :: rat) = of_int (int u * n) * ulp 53 x" by simp
      have "x < ulp 53 x * 2 ^ 53" using ulp_gt [OF x0, of 53] by simp
      moreover have "of_nat u \<le> x" by (simp add: xu)
      ultimately have "of_nat u / 2 ^ 54 < ulp 53 x / 2" by simp
      then have "(x - of_nat u) / ulp 53 x < 1 / 2"
        using ulp_pos [of 53 x] by (simp add: xu pos_divide_less_eq)
      moreover have "0 \<le> (x - of_nat u) / ulp 53 x"
        using ulp_pos [of 53 x] by (simp add: xu less_imp_le)
      moreover have "(x - of_nat u) / ulp 53 x = x / ulp 53 x - of_int (int u * n)"
        unfolding u using less_imp_neq [OF ulp_pos [of 53 x]] by (simp add: diff_divide_distrib)
      ultimately have "half_even (x / ulp 53 x) = int u * n"
        by (intro half_even_near) (simp add: abs_if)
      then have "round_float 53 x = of_int (int u * n) * ulp 53 x"
        by (simp only: round_float_pos [OF x0])
      then show ?thesis by (simp only: u [symmetric])
    next
      case neq: False
      with False have "4 * t + 1 \<le> 5 * u" by simp
      then have "(of_nat (4 * t + 1) :: rat) \<le> of_nat (5 * u)" by (simp only: of_nat_le_iff)
      then have "x \<le> of_int (int u)" using t by (simp add: x field_simps)
      from round_float_le_int [OF this x53] show ?thesis by simp
    qed
    with False show ?thesis by (simp add: f64_mul_def x_def not_less)
  qed
qed

text \<open>
  The room check in floating point is the exact one: on any card of less than \<open>2 ^ 50\<close> bytes that
  reports its usage, another photo is stored exactly when there are fewer than 48 and the used
  bytes with the new photo stay strictly below 80 % of the card, with no error from \<open>f64\<close> rounding
  or from the literal \<open>0.80\<close>.
\<close>

theorem room_is_eighty_percent:
  assumes "usage env = Some (total_bytes, free_bytes)"
    and "0 < total_bytes" and "unat total_bytes < 2 ^ 50"
  shows "has_room env fs \<longleftrightarrow>
    count_photos (list_count env) fs < 48 \<and>
    5 * (unat total_bytes - unat free_bytes + 2048000) < 4 * unat total_bytes"
proof -
  let ?u = "unat total_bytes - unat free_bytes + 2048000"
  have "unat (if free_bytes \<le> total_bytes then total_bytes - free_bytes else 0) =
      unat total_bytes - unat free_bytes"
    by (simp add: unat_sub word_le_nat_alt)
  then have u: "unat (used_after total_bytes free_bytes) = ?u"
    using assms(3) unfolding used_after_def PHOTO_BYTES_eq
    by (subst unat_add_lem [THEN iffD1]) simp_all
  have "?u < 2 ^ 53" using assms(3) by simp
  then have "f64_of_u64 (used_after total_bytes free_bytes) = of_nat ?u"
    using f64_of_u64_exact [of "used_after total_bytes free_bytes"] u by simp
  moreover have "f64_of_u64 total_bytes = of_nat (unat total_bytes)"
    using f64_of_u64_exact [of total_bytes] assms(3) by simp
  moreover have "0 < unat total_bytes" using assms(2) by (simp add: word_less_nat_alt)
  ultimately show ?thesis
    using eighty_percent_rounding [OF _ assms(3) \<open>?u < 2 ^ 53\<close>] assms(1,2)
    by (auto simp: has_room_def TARGET_PHOTOS_def not_le)
qed

theorem room_is_eighty_percent_witness:
  "has_room (healthy_env (Some (32000000000, 10000000000))) [] \<and>
   \<not> has_room (healthy_env (Some (32000000000, 6402048000))) []"
  using room_is_eighty_percent [of "healthy_env (Some (32000000000, 10000000000))" _ _ "[]"]
    room_is_eighty_percent [of "healthy_env (Some (32000000000, 6402048000))" _ _ "[]"]
  by (simp add: count_photos_def entries_everything names_def)

end
