(* ===== verification/Render_Executor.thy ===== *)
theory Render_Executor
  imports Photo_Cache Control_Message
begin

text \<open>
  The render half of \<open>frame-firmware/src/runtime.rs\<close>: the photo download and its token, the media
  executor that shows, stores and tops up photos, the logging executor, and the render controller
  loop that answers every control event.

  The state the executors share is \<open>frame\<close>: the photos in memory, the card, the token, and the flag
  for local photos. The HTTP client, the image decoder and the card's faults are arguments. Log
  output is not modelled.
\<close>

section \<open>Shared state\<close>

record frame =
  memory :: "store mutex"
  cached :: files
  frame_token_slot :: "string option mutex"
  local_active :: bool

definition set_local_photos_active :: "bool \<Rightarrow> frame \<Rightarrow> frame" where
  "set_local_photos_active active f = f\<lparr>local_active := active\<rparr>"

definition local_photos_active :: "frame \<Rightarrow> bool" where
  "local_photos_active f = local_active f"

definition set_frame_token :: "string \<Rightarrow> string option mutex \<Rightarrow> string option mutex" where
  "set_frame_token token slot = (case slot of Unpoisoned _ \<Rightarrow> Unpoisoned (Some token) | Poisoned \<Rightarrow> Poisoned)"

definition frame_token :: "string option mutex \<Rightarrow> string option" where
  "frame_token slot = (case slot of Unpoisoned t \<Rightarrow> t | Poisoned \<Rightarrow> None)"

section \<open>Downloading a photo\<close>

text \<open>
  What the HTTP client does with one request: the outcome of each step, the status, and the body in
  the chunks \<open>read\<close> returns; after the last one \<open>read\<close> returns 0 at the end of the body.
\<close>

record http_reply =
  connection :: "unit result"
  open_request :: "unit result"
  submit :: "u16 result"
  body_reads :: "u8 list result list"

type_synonym http = "string \<Rightarrow> (string \<times> string) list \<Rightarrow> http_reply"

fun read_body :: "string \<Rightarrow> u8 list \<Rightarrow> u8 list result list \<Rightarrow> u8 list result" where
  "read_body url acc [] = Inr acc"
| "read_body url acc (Inl e # reads) = Inl (Context (''failed to read media response from '' @ url) e)"
| "read_body url acc (Inr chunk # reads) = (if chunk = [] then Inr acc else read_body url (acc @ chunk) reads)"

definition auth_headers :: "string option \<Rightarrow> (string \<times> string) list" where
  "auth_headers token =
     (case token of None \<Rightarrow> [] | Some t \<Rightarrow> [(''Authorization'', ''Bearer '' @ t)])"

definition download_media :: "http \<Rightarrow> string option \<Rightarrow> string \<Rightarrow> u8 list result" where
  "download_media http token url =
     (let reply = http url (auth_headers token) in
      case with_context (''failed to build HTTP client for '' @ url) (connection reply) of
        Inl e \<Rightarrow> Inl e
      | Inr _ \<Rightarrow>
          (case with_context (''failed to open media request to '' @ url) (open_request reply) of
             Inl e \<Rightarrow> Inl e
           | Inr _ \<Rightarrow>
               (case with_context (''failed to send media request to '' @ url) (submit reply) of
                  Inl e \<Rightarrow> Inl e
                | Inr status \<Rightarrow>
                    (case read_body url [] (body_reads reply) of
                       Inl e \<Rightarrow> Inl e
                     | Inr bytes \<Rightarrow>
                         if 200 \<le> status \<and> status < 300 then Inr bytes
                         else Inl (Msg (''media request to '' @ url @ '' failed with status ''
                                          @ show_nat (unat status)))))))"

text \<open>The build for the host uses another client, which reads the body only when the status is a success.\<close>

record host_reply =
  host_send :: "u16 result"
  host_body :: "u8 list result"

definition host_download_media ::
  "(string \<Rightarrow> (string \<times> string) list \<Rightarrow> host_reply) \<Rightarrow> string option \<Rightarrow> string \<Rightarrow> u8 list result" where
  "host_download_media client token url =
     (let reply = client url (auth_headers token) in
      case with_context (''failed to issue GET request to '' @ url) (host_send reply) of
        Inl e \<Rightarrow> Inl e
      | Inr status \<Rightarrow>
          if \<not> (200 \<le> status \<and> status < 300)
          then Inl (Msg (''media request to '' @ url @ '' failed with status '' @ show_nat (unat status)))
          else with_context ''failed to read media response body'' (host_body reply))"

section \<open>Moving photos from the card into memory\<close>

definition MEMORY_BUFFER_TARGET :: nat where
  "MEMORY_BUFFER_TARGET = 2"

definition is_raw_pixels :: "string \<Rightarrow> nat \<Rightarrow> bool" where
  "is_raw_pixels url n \<longleftrightarrow>
     contains_str ''format=rgb565'' url \<and> n = usize_mul (usize_mul PANEL_LOGICAL_WIDTH PANEL_LOGICAL_HEIGHT) 2"

definition buffered_or_max :: "store mutex \<Rightarrow> nat" where
  "buffered_or_max m =
     (case rendered_image_snapshot m of Inl _ \<Rightarrow> usize_limit - 1 | Inr snapshot \<Rightarrow> snap_buffered snapshot)"

lemma take_from_length: "take_from env paths fs = (Some bytes, fs') \<Longrightarrow> length bytes = PHOTO_BYTES"
  by (induction env paths fs rule: take_from.induct) (auto split: option.splits if_splits)

lemma take_oldest_image:
  assumes "take_oldest env fs = (Some bytes, fs')"
  shows "\<exists>img. image_from_rgb565_bytes bytes = Inr img"
  using take_from_length [OF assms [unfolded take_oldest_def]]
  by (auto simp: image_from_rgb565_bytes_Inr PHOTO_BYTES_eq)

lemma buffered_or_max_simps [simp]:
  "buffered_or_max (Unpoisoned s) = length (buffer s)" "buffered_or_max Poisoned = 4294967295"
  by (simp_all add: buffered_or_max_def rendered_image_snapshot_def snapshot_body_def usize_limit_def)

text \<open>The \<open>n\<close>-th call of \<open>take_oldest\<close> runs in the environment \<open>envs n\<close>.\<close>

function top_up_from_cache ::
  "(nat \<Rightarrow> cache_env) \<Rightarrow> nat \<Rightarrow> store mutex \<Rightarrow> files \<Rightarrow> store mutex \<times> files" where
  "top_up_from_cache envs n m fs =
     (if buffered_or_max m < MEMORY_BUFFER_TARGET then
        (case take_oldest (envs n) fs of
           (None, fs') \<Rightarrow> (m, fs')
         | (Some pixels, fs') \<Rightarrow>
             (case image_from_rgb565_bytes pixels of
                Inr img \<Rightarrow>
                  (case push_rendered_image img m of
                     (Inl _, m') \<Rightarrow> (m', fs')
                   | (Inr _, m') \<Rightarrow> top_up_from_cache envs (Suc n) m' fs')
              | Inl _ \<Rightarrow> top_up_from_cache envs (Suc n) m fs'))
      else (m, fs))"
  by pat_completeness auto

lemma push_grows:
  assumes "push_rendered_image img m = (Inr u, m')" and "buffered_or_max m < MEMORY_BUFFER_TARGET"
  shows "buffered_or_max m' = Suc (buffered_or_max m)"
  using assms
  by (cases m) (auto simp: push_rendered_image_def push_body_def make_room_def BUFFER_CAPACITY_def
      MEMORY_BUFFER_TARGET_def Let_def split: if_splits)

termination top_up_from_cache
proof (relation "measure (\<lambda>(envs, n, m, fs). MEMORY_BUFFER_TARGET - buffered_or_max m)", goal_cases)
  case 1
  show ?case by simp
next
  case 2
  then show ?case by (metis Inl_Inr_False take_oldest_image)
next
  case 3
  then show ?case using push_grows by fastforce
qed

declare top_up_from_cache.simps [simp del]

lemma push_below_target:
  assumes "length (buffer s) < MEMORY_BUFFER_TARGET"
  shows "push_rendered_image img (Unpoisoned s) =
    (Inr (), Unpoisoned \<lparr>buffer = buffer s @ [img],
       generation = (if buffer s = [] then generation s + 1 else generation s)\<rparr>)"
  using assms by (cases s) (auto simp: push_rendered_image_def push_body_def make_room_def BUFFER_CAPACITY_def
      MEMORY_BUFFER_TARGET_def Let_def)

text \<open>Topping up only ever adds photos behind those already in memory.\<close>

lemma top_up_extends:
  "top_up_from_cache envs n (Unpoisoned s) fs = (m', fs') \<Longrightarrow>
   \<exists>s' extra. m' = Unpoisoned s' \<and> buffer s' = buffer s @ extra \<and>
     (buffer s \<noteq> [] \<longrightarrow> generation s' = generation s)"
proof (induction "MEMORY_BUFFER_TARGET - length (buffer s)" arbitrary: n s fs)
  case 0
  then show ?case by (subst (asm) top_up_from_cache.simps) auto
next
  case (Suc k)
  then have low: "length (buffer s) < MEMORY_BUFFER_TARGET" by simp
  show ?case
  proof (cases "take_oldest (envs n) fs")
    case (Pair r fs1)
    show ?thesis
    proof (cases r)
      case None
      with Pair low Suc.prems show ?thesis by (subst (asm) top_up_from_cache.simps) auto
    next
      case (Some pixels)
      with Pair obtain img where img: "image_from_rgb565_bytes pixels = Inr img"
        using take_oldest_image by blast
      let ?s = "\<lparr>buffer = buffer s @ [img],
         generation = (if buffer s = [] then generation s + 1 else generation s)\<rparr>"
      have "top_up_from_cache envs (Suc n) (Unpoisoned ?s) fs1 = (m', fs')"
        using Suc.prems low Pair Some img push_below_target [OF low]
        by (subst (asm) top_up_from_cache.simps) simp
      moreover have "k = MEMORY_BUFFER_TARGET - length (buffer ?s)" using Suc.hyps(2) by simp
      ultimately obtain s' extra where "m' = Unpoisoned s'" "buffer s' = buffer ?s @ extra"
        "buffer ?s \<noteq> [] \<longrightarrow> generation s' = generation ?s" using Suc.hyps(1) by blast
      then show ?thesis by auto
    qed
  qed
qed

lemma top_up_poisoned [simp]: "top_up_from_cache envs n Poisoned fs = (Poisoned, fs)"
  by (subst top_up_from_cache.simps) (simp add: MEMORY_BUFFER_TARGET_def)

section \<open>The executors\<close>

text \<open>
  Everything one \<open>render\<close> meets outside the program: the HTTP client, the image decoder
  (\<open>image::load_from_memory\<close> and \<open>into_rgb8\<close>: width, height and the raw RGB bytes), the \<open>{:?}\<close>
  of a string, and the card during the store and during each step of the top-up.
\<close>

record media_io =
  http_client :: http
  decode_image :: "u8 list \<Rightarrow> (u32 \<times> u32 \<times> u8 list) result"
  debug_str :: "string \<Rightarrow> string"
  store_env :: cache_env
  top_up_envs :: "nat \<Rightarrow> cache_env"

definition unwrap_or_default :: "string option \<Rightarrow> string" where
  "unwrap_or_default o' = (case o' of None \<Rightarrow> [] | Some s \<Rightarrow> s)"

definition build_image :: "media_io \<Rightarrow> string \<Rightarrow> u8 list \<Rightarrow> RenderedImage result" where
  "build_image io url bytes =
     (if is_raw_pixels url (length bytes) then
        with_context (''malformed pixel data from '' @ url) (image_from_rgb565_bytes bytes)
      else
        (case with_context (''failed to decode media from '' @ url) (decode_image io bytes) of
           Inl e \<Rightarrow> Inl e
         | Inr (w, h, rgb8) \<Rightarrow> image_from_rgb8 w h rgb8))"

definition queue_photo :: "media_io \<Rightarrow> string \<Rightarrow> u8 list \<Rightarrow> RenderedImage \<Rightarrow> frame \<Rightarrow> unit result \<times> frame" where
  "queue_photo io photo_id bytes img f =
     (let (stored, fs) = store_photo (debug_str io) (store_env io) photo_id bytes (cached f);
          (pushed, m) = (case stored of
                           Inr _ \<Rightarrow> (Inr (), memory f)
                         | Inl _ \<Rightarrow> push_rendered_image img (memory f));
          f1 = f\<lparr>memory := m, cached := fs\<rparr>
      in case with_context ''failed to queue rendered image'' pushed of
           Inl e \<Rightarrow> (Inl e, f1)
         | Inr _ \<Rightarrow>
             (let (m', fs') = top_up_from_cache (top_up_envs io) 0 (memory f1) (cached f1)
              in (Inr (), f1\<lparr>memory := m', cached := fs'\<rparr>)))"

definition media_render :: "media_io \<Rightarrow> RenderRequest \<Rightarrow> frame \<Rightarrow> unit result \<times> frame" where
  "media_render io request f =
     (if local_photos_active f then (Inr (), f)
      else
        (case with_context (''failed to download media from '' @ media_url request)
                (download_media (http_client io) (frame_token (frame_token_slot f)) (media_url request)) of
           Inl e \<Rightarrow> (Inl e, f)
         | Inr bytes \<Rightarrow>
             (let photo_id = unwrap_or_default (correlation_id request) in
              case build_image io (media_url request) bytes of
                Inl e \<Rightarrow> (Inl e, f)
              | Inr plain \<Rightarrow>
                  (let img = with_id plain photo_id in
                   if queue request then queue_photo io photo_id bytes img f
                   else
                     (let (shown, m) = show_rendered_image img (memory f)
                      in (with_context ''failed to publish rendered image to the UI'' shown,
                          f\<lparr>memory := m\<rparr>))))))"

definition media_reload_ui :: "frame \<Rightarrow> unit result \<times> frame" where
  "media_reload_ui f =
     (let (r, m) = clear_rendered_image (memory f)
      in (with_context ''failed to clear rendered image during reload_ui'' r, f\<lparr>memory := m\<rparr>))"

text \<open>On the frame \<open>esp_restart\<close> does not return: the loop that called it ends there (\<open>None\<close>).\<close>

definition media_reboot :: "bool \<Rightarrow> frame \<Rightarrow> unit result option \<times> frame" where
  "media_reboot embedded f = (if embedded then None else Some (Inr ()), f)"

definition logging_render :: "media_io \<Rightarrow> RenderRequest \<Rightarrow> frame \<Rightarrow> unit result \<times> frame" where
  "logging_render io request f = (Inr (), f)"

definition logging_reload_ui :: "frame \<Rightarrow> unit result \<times> frame" where
  "logging_reload_ui f = (Inr (), f)"

definition logging_reboot :: "frame \<Rightarrow> unit result option \<times> frame" where
  "logging_reboot f = (Some (Inr ()), f)"

section \<open>The render controller loop\<close>

text \<open>An executor: what the loop calls, over the environment \<open>'e\<close> of one event and the state \<open>'s\<close>.\<close>

record ('e, 's) executor =
  exec_render :: "'e \<Rightarrow> RenderRequest \<Rightarrow> 's \<Rightarrow> unit result \<times> 's"
  exec_reload_ui :: "'s \<Rightarrow> unit result \<times> 's"
  exec_reboot :: "'s \<Rightarrow> unit result option \<times> 's"

definition render_report :: "RenderRequest \<Rightarrow> unit result \<Rightarrow> OutboundStatusMessage" where
  "render_report request r =
     (case r of
        Inr _ \<Rightarrow> RenderCompleted (media_url request) (correlation_id request)
      | Inl e \<Rightarrow> StatusError (''render failed: '' @ fmt_error_alt e) (correlation_id request))"

definition command_report :: "CommandRequest \<Rightarrow> unit result \<Rightarrow> OutboundStatusMessage" where
  "command_report request r =
     (case r of
        Inr _ \<Rightarrow> CommandAcknowledged (command request) (cmd_correlation_id request)
      | Inl e \<Rightarrow> StatusError (''command failed: '' @ fmt_error_alt e) (cmd_correlation_id request))"

text \<open>One event: the statuses sent, the new state, and whether the loop goes on.\<close>

definition handle_event ::
  "('e, 's) executor \<Rightarrow> 'e \<Rightarrow> ControlEvent \<Rightarrow> 's \<Rightarrow> OutboundStatusMessage list \<times> 's \<times> bool" where
  "handle_event ex env event s =
     (case event of
        Render request \<Rightarrow>
          (let (r, s') = exec_render ex env request s
           in ([RenderStarted (media_url request) (correlation_id request), render_report request r], s', True))
      | Command request \<Rightarrow>
          (case command request of
             ReloadUi \<Rightarrow>
               (let (r, s') = exec_reload_ui ex s in ([command_report request r], s', True))
           | Reboot \<Rightarrow>
               (case exec_reboot ex s of
                  (None, s') \<Rightarrow> ([], s', False)
                | (Some r, s') \<Rightarrow> ([command_report request r], s', True)))
      | Registration registration \<Rightarrow> ([], s, True))"

fun run_render_controller_loop ::
  "('e, 's) executor \<Rightarrow> ('e \<times> ControlEvent) list \<Rightarrow> 's \<Rightarrow> OutboundStatusMessage list \<times> 's \<times> bool" where
  "run_render_controller_loop ex [] s = ([], s, True)"
| "run_render_controller_loop ex ((env, event) # events) s =
     (case handle_event ex env event s of
        (sent, s1, alive) \<Rightarrow>
          if alive then
            (case run_render_controller_loop ex events s1 of
               (later, s2, alive') \<Rightarrow> (sent @ later, s2, alive'))
          else (sent, s1, False))"

definition media_executor :: "bool \<Rightarrow> (media_io, frame) executor" where
  "media_executor embedded =
     \<lparr>exec_render = media_render, exec_reload_ui = media_reload_ui, exec_reboot = media_reboot embedded\<rparr>"

definition logging_executor :: "(media_io, frame) executor" where
  "logging_executor =
     \<lparr>exec_render = logging_render, exec_reload_ui = logging_reload_ui, exec_reboot = logging_reboot\<rparr>"

section \<open>Every event is answered\<close>

text \<open>The statuses that answer an event, with its own URL and correlation id.\<close>

definition answers :: "ControlEvent \<Rightarrow> OutboundStatusMessage list \<Rightarrow> bool" where
  "answers event sent =
     (case event of
        Render r \<Rightarrow>
          sent = [RenderStarted (media_url r) (correlation_id r), RenderCompleted (media_url r) (correlation_id r)] \<or>
          (\<exists>m. sent = [RenderStarted (media_url r) (correlation_id r), StatusError m (correlation_id r)])
      | Command c \<Rightarrow>
          sent = [CommandAcknowledged (command c) (cmd_correlation_id c)] \<or>
          (\<exists>m. sent = [StatusError m (cmd_correlation_id c)])
      | Registration _ \<Rightarrow> sent = [])"

lemma handle_event_answers:
  "handle_event ex env event s = (sent, s', True) \<Longrightarrow> answers event sent"
  by (auto simp: handle_event_def answers_def render_report_def command_report_def
      split: ControlEvent.splits DeviceCommand.splits prod.splits sum.splits option.splits)

lemma handle_event_stops:
  "handle_event ex env event s = (sent, s', False) \<Longrightarrow> sent = [] \<and> (\<exists>c. event = Command c \<and> command c = Reboot)"
  by (auto simp: handle_event_def split: ControlEvent.splits DeviceCommand.splits prod.splits option.splits)

lemma handle_event_goes_on:
  "handle_event ex env event s = (sent, s', True) \<Longrightarrow> \<forall>s. fst (exec_reboot ex s) = None \<Longrightarrow>
   event = Command c \<Longrightarrow> command c \<noteq> Reboot"
  by (cases "exec_reboot ex s") (auto simp: handle_event_def dest: spec [of _ s])

text \<open>
  C18: every control event is answered, in order and with its own correlation id, up to the restart of the
  device. Whatever the executor does, the statuses the render loop queues are one answer for each of the events
  it handled -- started and then completed or failed for a photo, acknowledged or failed for a command, nothing
  for a registration. It handled them all, unless a reboot command restarted the device: then that command is
  not answered and nothing after it is looked at. An executor that always restarts the device on a reboot, as the
  frame's does, never answers one.
\<close>

theorem every_event_is_answered:
  assumes "run_render_controller_loop ex events s = (sent, s', alive)"
  shows "\<exists>handled replies. sent = concat replies \<and> list_all2 answers handled replies \<and>
    (if alive then map snd events = handled
     else \<exists>c later. command c = Reboot \<and> map snd events = handled @ Command c # later) \<and>
    ((\<forall>s. fst (exec_reboot ex s) = None) \<longrightarrow> (\<forall>c. Command c \<in> set handled \<longrightarrow> command c \<noteq> Reboot))"
  using assms
proof (induction events arbitrary: s sent)
  case Nil
  then show ?case by (intro exI [of _ "[]"]) simp
next
  case (Cons ev events)
  obtain env event where ev: "ev = (env, event)" by (cases ev)
  obtain now s1 on where first: "handle_event ex env event s = (now, s1, on)"
    by (metis prod_cases3)
  show ?case
  proof (cases on)
    case False
    with Cons.prems first ev have "\<not> alive" "sent = now" by auto
    with handle_event_stops [of ex env event s now s1] first False ev show ?thesis
      by (intro exI [of _ "[]"]) auto
  next
    case True
    obtain later s2 alive2 where rest: "run_render_controller_loop ex events s1 = (later, s2, alive2)"
      by (metis prod_cases3)
    from Cons.prems first rest ev True have *: "sent = now @ later" "s2 = s'" "alive2 = alive" by auto
    from Cons.IH [of s1 later] rest *
    obtain handled replies where IH: "later = concat replies" "list_all2 answers handled replies"
      "if alive then map snd events = handled
       else \<exists>c later. command c = Reboot \<and> map snd events = handled @ Command c # later"
      "(\<forall>s. fst (exec_reboot ex s) = None) \<longrightarrow> (\<forall>c. Command c \<in> set handled \<longrightarrow> command c \<noteq> Reboot)" by blast
    moreover have "answers event now"
      using handle_event_answers [of ex env event s now s1] first True by simp
    ultimately show ?thesis
      using * ev handle_event_goes_on [of ex env event s now s1] first True
      by (intro exI [of _ "event # handled"] exI [of _ "now # replies"]) (auto split: if_splits)
  qed
qed

definition quiet_cache :: cache_env where
  "quiet_cache = healthy_env None"

definition offline_http :: http where
  "offline_http url headers =
     \<lparr>connection = Inl (Msg ''no network''), open_request = Inr (), submit = Inr 0, body_reads = []\<rparr>"

definition offline_io :: media_io where
  "offline_io = \<lparr>http_client = offline_http, decode_image = (\<lambda>_. Inl (Msg ''not an image'')), debug_str = id,
     store_env = quiet_cache, top_up_envs = (\<lambda>_. quiet_cache)\<rparr>"

definition fresh_frame :: frame where
  "fresh_frame = \<lparr>memory = Unpoisoned store_init, cached = [], frame_token_slot = Unpoisoned None,
     local_active = False\<rparr>"

definition spare_request :: RenderRequest where
  "spare_request = \<lparr>media_url = ''u'', correlation_id = Some ''a1'',
     presentation = \<lparr>transition_type = None, brightness = None\<rparr>, queue = True\<rparr>"

lemma spare_request_simps [simp]:
  "media_url spare_request = ''u''" "correlation_id spare_request = Some ''a1''" "queue spare_request"
  by (simp_all add: spare_request_def)

lemma fresh_frame_simps [simp]:
  "memory fresh_frame = Unpoisoned store_init" "\<not> local_active fresh_frame"
  by (simp_all add: fresh_frame_def)

lemma offline_render:
  "media_render offline_io spare_request f =
     (if local_active f then (Inr (), f)
      else (Inl (Context ''failed to download media from u''
              (Context ''failed to build HTTP client for u'' (Msg ''no network''))), f))"
  by (simp add: media_render_def local_photos_active_def offline_io_def download_media_def offline_http_def Let_def)

theorem every_event_is_answered_witness:
  "\<exists>handled replies. [RenderStarted ''u'' (Some ''a1''),
     StatusError (''render failed: failed to download media from u: failed to build HTTP client for u: no network'')
       (Some ''a1''), CommandAcknowledged ReloadUi None] = concat replies \<and> list_all2 answers handled replies \<and>
   handled = [Render spare_request, Command \<lparr>command = ReloadUi, cmd_correlation_id = None\<rparr>]"
proof -
  let ?reload = "Command \<lparr>command = ReloadUi, cmd_correlation_id = None\<rparr>"
  let ?reboot = "Command \<lparr>command = Reboot, cmd_correlation_id = Some ''b2''\<rparr>"
  let ?events = "[(offline_io, Render spare_request), (offline_io, ?reload), (offline_io, ?reboot), (offline_io, ?reload)]"
  have "run_render_controller_loop (media_executor True) ?events fresh_frame =
    ([RenderStarted ''u'' (Some ''a1''),
      StatusError (''render failed: failed to download media from u: failed to build HTTP client for u: no network'')
       (Some ''a1''), CommandAcknowledged ReloadUi None], snd (media_reload_ui fresh_frame), False)"
    by (simp add: handle_event_def media_executor_def offline_render render_report_def
        command_report_def media_reload_ui_def clear_rendered_image_def media_reboot_def)
  from every_event_is_answered [OF this] show ?thesis
    by (auto simp: Cons_eq_append_conv)
qed

section \<open>What an executor may do to the screen\<close>

text \<open>
  The contract the controller relies on when it sends spares: only a request to show a photo, or
  \<open>reload_ui\<close>, may change what is on screen.
\<close>

locale quiet_executor =
  fixes ex :: "('e, 's) executor" and on_screen :: "'s \<Rightarrow> 'p option"
  assumes queued_render: "queue r \<Longrightarrow> on_screen s = Some p \<Longrightarrow> on_screen (snd (exec_render ex env r s)) = Some p"
    and reboot_screen: "on_screen (snd (exec_reboot ex s)) = on_screen s"
begin

lemma spare_event:
  assumes "on_screen s = Some p" and "handle_event ex env event s = (sent, s', alive)"
    and "case event of Render r \<Rightarrow> queue r | Command c \<Rightarrow> command c = Reboot | Registration _ \<Rightarrow> True"
  shows "on_screen s' = Some p"
proof (cases event)
  case (Render r)
  with assms(2) have "s' = snd (exec_render ex env r s)"
    by (auto simp: handle_event_def split: prod.splits)
  with queued_render [of r s p env] assms(1,3) Render show ?thesis by simp
next
  case (Command c)
  with assms(2,3) have "s' = snd (exec_reboot ex s)"
    by (auto simp: handle_event_def split: prod.splits option.splits)
  with reboot_screen [of s] assms(1) show ?thesis by simp
next
  case (Registration r)
  with assms(1,2) show ?thesis by (simp add: handle_event_def)
qed

lemma spare_events:
  "on_screen s = Some p \<Longrightarrow> run_render_controller_loop ex events s = (sent, s', alive) \<Longrightarrow>
   \<forall>(env, event) \<in> set events.
     (case event of Render r \<Rightarrow> queue r | Command c \<Rightarrow> command c = Reboot | Registration _ \<Rightarrow> True) \<Longrightarrow>
   on_screen s' = Some p"
proof (induction events arbitrary: s sent s' alive)
  case (Cons ev events)
  obtain env event where ev: "ev = (env, event)" by (cases ev)
  obtain now s1 go where first: "handle_event ex env event s = (now, s1, go)"
    by (metis prod_cases3)
  obtain later s2 alive2 where rest: "run_render_controller_loop ex events s1 = (later, s2, alive2)"
    by (metis prod_cases3)
  have s1: "on_screen s1 = Some p"
    using spare_event [OF Cons.prems(1) first] Cons.prems(3) ev by simp
  show ?case
    using Cons.prems(2) first rest ev s1 Cons.IH [OF s1 rest] Cons.prems(3) by (auto split: if_splits)
qed simp

end

definition on_screen :: "frame \<Rightarrow> RenderedImage option" where
  "on_screen f = (case memory f of Unpoisoned s \<Rightarrow> front s | Poisoned \<Rightarrow> None)"

lemma front_Some_iff: "front s = Some p \<longleftrightarrow> buffer s \<noteq> [] \<and> hd (buffer s) = p"
  by (simp add: front_simps)

lemma hd_make_room: "b \<noteq> [] \<Longrightarrow> make_room b \<noteq> [] \<and> hd (make_room b) = hd b"
  by (cases b) (auto simp: make_room_def BUFFER_CAPACITY_def)

lemma push_keeps_screen:
  assumes "front s = Some p" "push_rendered_image img (Unpoisoned s) = (r, m)"
  shows "\<exists>s'. m = Unpoisoned s' \<and> front s' = Some p"
proof -
  have "make_room (buffer s) \<noteq> [] \<and> hd (make_room (buffer s)) = p"
    using hd_make_room assms(1) by (simp add: front_Some_iff)
  then have "front (snd (push_body img s)) = Some p"
    unfolding front_Some_iff push_body_def Let_def by (simp split: if_split)
  moreover have "m = Unpoisoned (snd (push_body img s))"
    using assms(2) by (simp add: push_rendered_image_def)
  ultimately show ?thesis by blast
qed

lemma top_up_keeps_screen:
  assumes "front s = Some p" "top_up_from_cache envs n (Unpoisoned s) fs = (m, fs')"
  shows "\<exists>s'. m = Unpoisoned s' \<and> front s' = Some p"
proof -
  obtain s' extra where "m = Unpoisoned s'" "buffer s' = buffer s @ extra"
    using top_up_extends [OF assms(2)] by blast
  with assms(1) show ?thesis by (simp add: front_Some_iff)
qed

lemma queue_photo_keeps_screen:
  assumes "on_screen f = Some p"
  shows "on_screen (snd (queue_photo io i bytes img f)) = Some p"
proof -
  from assms obtain s where s: "memory f = Unpoisoned s" "front s = Some p"
    by (auto simp: on_screen_def split: mutex.splits)
  obtain stored fs where st: "store_photo (debug_str io) (store_env io) i bytes (cached f) = (stored, fs)"
    by (cases "store_photo (debug_str io) (store_env io) i bytes (cached f)")
  obtain pushed m where pm: "(case stored of Inr _ \<Rightarrow> (Inr (), memory f)
      | Inl _ \<Rightarrow> push_rendered_image img (memory f)) = (pushed, m)"
    by (cases "case stored of Inr _ \<Rightarrow> (Inr (), memory f) | Inl _ \<Rightarrow> push_rendered_image img (memory f)")
  have "\<exists>s1. m = Unpoisoned s1 \<and> front s1 = Some p"
  proof (cases stored)
    case (Inl e)
    with pm s have "push_rendered_image img (Unpoisoned s) = (pushed, m)" by simp
    then show ?thesis by (rule push_keeps_screen [OF s(2)])
  next
    case (Inr u)
    with pm s have "m = Unpoisoned s" by simp
    with s(2) show ?thesis by blast
  qed
  then obtain s1 where s1: "m = Unpoisoned s1" "front s1 = Some p" by blast
  obtain m' fs' where t: "top_up_from_cache (top_up_envs io) 0 (Unpoisoned s1) fs = (m', fs')"
    by (cases "top_up_from_cache (top_up_envs io) 0 (Unpoisoned s1) fs")
  from top_up_keeps_screen [OF s1(2) t] obtain s2 where "m' = Unpoisoned s2" "front s2 = Some p" by blast
  with st pm s1 t show ?thesis
    by (simp add: queue_photo_def on_screen_def Let_def split: sum.split)
qed

interpretation media: quiet_executor "media_executor embedded" on_screen for embedded
proof unfold_locales
  fix r :: RenderRequest and f :: frame and p :: RenderedImage and io :: media_io
  assume "queue r" "on_screen f = Some p"
  then show "on_screen (snd (exec_render (media_executor embedded) io r f)) = Some p"
    by (auto simp: media_executor_def media_render_def queue_photo_keeps_screen Let_def split: sum.split)
next
  fix f :: frame
  show "on_screen (snd (exec_reboot (media_executor embedded) f)) = on_screen f"
    by (simp add: media_executor_def media_reboot_def)
qed

interpretation logging: quiet_executor logging_executor on_screen
  by unfold_locales (simp_all add: logging_executor_def logging_render_def logging_reboot_def)

text \<open>
  C19: spares never disturb the picture. While the controller sends only photos to hold in reserve
  (and reboots or registrations), the photo on screen stays the same, whatever the network, the
  decoder and the card do, including every fallback from the card to memory and every top-up.
\<close>

theorem spares_never_disturb_the_screen:
  assumes "on_screen f = Some p"
    and "run_render_controller_loop (media_executor embedded) events f = (sent, f', alive)"
    and "\<forall>(io, event) \<in> set events.
      (case event of Render r \<Rightarrow> queue r | Command c \<Rightarrow> command c = Reboot | Registration _ \<Rightarrow> True)"
  shows "on_screen f' = Some p"
  by (rule media.spare_events [OF assms])

theorem spares_never_disturb_the_screen_witness:
  "on_screen (fresh_frame\<lparr>memory := Unpoisoned \<lparr>buffer = [px_image 1 ''a''], generation = 1\<rparr>\<rparr>) = Some (px_image 1 ''a'')"
proof -
  let ?f = "fresh_frame\<lparr>memory := Unpoisoned \<lparr>buffer = [px_image 1 ''a''], generation = 1\<rparr>\<rparr>"
  have "run_render_controller_loop (media_executor True) [(offline_io, Render spare_request)] ?f =
    ([RenderStarted ''u'' (Some ''a1''), render_report spare_request (fst (media_render offline_io spare_request ?f))],
     ?f, True)"
    by (simp add: handle_event_def media_executor_def offline_render)
  from spares_never_disturb_the_screen [OF _ this] show ?thesis
    by (simp add: on_screen_def front_def)
qed

section \<open>Memory and card are one queue\<close>

text \<open>The photo a cached file becomes.\<close>

definition panel_image :: "u8 list \<Rightarrow> RenderedImage" where
  "panel_image bytes = \<lparr>width = 1280, height = 800, rgb565 = decode_le bytes, image_id = None\<rparr>"

definition reserve :: "store \<Rightarrow> files \<Rightarrow> RenderedImage list" where
  "reserve s fs = buffer s @ map panel_image (photos fs)"

lemma photos_length: "bytes \<in> set (photos fs) \<Longrightarrow> length bytes = PHOTO_BYTES"
  by (simp add: photos_def)

lemma image_of_photo:
  "length bytes = PHOTO_BYTES \<Longrightarrow> image_from_rgb565_bytes bytes = Inr (panel_image bytes)"
  by (simp add: image_from_rgb565_bytes_Inr PHOTO_BYTES_eq panel_image_def)

lemma top_up_reserve:
  assumes "own_cache fs"
    and "top_up_from_cache (\<lambda>_. healthy_env None) n (Unpoisoned s) fs = (m', fs')"
  shows "\<exists>s'. m' = Unpoisoned s' \<and> reserve s' fs' = reserve s fs \<and> own_cache fs' \<and>
    (length (buffer s') < MEMORY_BUFFER_TARGET \<longrightarrow> photos fs' = [])"
  using assms
proof (induction "MEMORY_BUFFER_TARGET - length (buffer s)" arbitrary: n s fs)
  case 0
  then show ?case by (subst (asm) top_up_from_cache.simps) auto
next
  case (Suc k)
  then have low: "length (buffer s) < MEMORY_BUFFER_TARGET" by simp
  obtain r fs1 where take: "take_oldest (healthy_env None) fs = (r, fs1)"
    by (cases "take_oldest (healthy_env None) fs")
  then have laws: "r = (if photos fs = [] then None else Some (hd (photos fs)))"
      "photos fs1 = tl (photos fs)" "own_cache fs1"
    using take_healthy_laws [OF Suc.prems(1)] by (simp_all add: take_healthy_def)
  show ?case
  proof (cases "photos fs = []")
    case True
    with take low Suc.prems(2) laws show ?thesis
      by (subst (asm) top_up_from_cache.simps) (auto simp: reserve_def)
  next
    case False
    then have img: "image_from_rgb565_bytes (hd (photos fs)) = Inr (panel_image (hd (photos fs)))"
      by (intro image_of_photo photos_length) (rule hd_in_set)
    let ?s = "\<lparr>buffer = buffer s @ [panel_image (hd (photos fs))],
       generation = (if buffer s = [] then generation s + 1 else generation s)\<rparr>"
    have run: "top_up_from_cache (\<lambda>_. healthy_env None) (Suc n) (Unpoisoned ?s) fs1 = (m', fs')"
      using Suc.prems(2) low take laws(1) False img push_below_target [OF low]
      by (subst (asm) top_up_from_cache.simps) simp
    have "k = MEMORY_BUFFER_TARGET - length (buffer ?s)" using Suc.hyps(2) by simp
    from Suc.hyps(1) [OF this laws(3) run] obtain s' where s': "m' = Unpoisoned s'"
      "reserve s' fs' = reserve ?s fs1" "own_cache fs'"
      "length (buffer s') < MEMORY_BUFFER_TARGET \<longrightarrow> photos fs' = []" by blast
    have "reserve ?s fs1 = reserve s fs"
      using False laws(2) by (cases "photos fs") (simp_all add: reserve_def)
    with s' show ?thesis by auto
  qed
qed

text \<open>
  C5: on a healthy card the photos in memory followed by the photos on the card are one queue. A
  request to hold raw pixels in reserve appends its photo at the end when the cache accepts it
  (and changes nothing when it is a duplicate or the card is full), the top-up that follows moves
  photos from the card to memory without losing, repeating or reordering any, and it leaves two
  photos in memory unless the card has none left.
\<close>

theorem queued_photo_joins_the_reserve:
  assumes "memory f = Unpoisoned s" and "own_cache (cached f)" and "0 < headroom (cached f)"
    and "\<not> local_active f" and "queue request" and "correlation_id request = Some photo_id"
    and "download_media (http_client io) (frame_token (frame_token_slot f)) (media_url request) = Inr bytes"
    and "is_raw_pixels (media_url request) (length bytes)" and "usable_id photo_id"
    and "store_env io = healthy_env u" and "top_up_envs io = (\<lambda>_. healthy_env None)"
  shows "\<exists>s' f'. media_render io request f = (Inr (), f') \<and> memory f' = Unpoisoned s' \<and>
    reserve s' (cached f') =
      reserve s (cached f) @ (if accepted u photo_id bytes (cached f) then [panel_image bytes] else []) \<and>
    (length (buffer s') < 2 \<longrightarrow> photos (cached f') = [])"
proof -
  have len: "length bytes = PHOTO_BYTES"
    using assms(8) by (simp add: is_raw_pixels_def PHOTO_BYTES_def)
  obtain r fs1 where st: "store_photo (debug_str io) (healthy_env u) photo_id bytes (cached f) = (r, fs1)"
    by (cases "store_photo (debug_str io) (healthy_env u) photo_id bytes (cached f)")
  have r: "r = Inr ()"
    using st len assms(9) by (auto simp: store_photo_def Let_def write_ok_def split: if_splits)
  have fs1: "fs1 = put_healthy u photo_id bytes (cached f)"
    using st store_healthy [of "debug_str io"] store_healthy [of id] by (metis put_healthy_def snd_conv)
  have own: "own_cache fs1" and ph: "photos fs1 =
      photos (cached f) @ (if accepted u photo_id bytes (cached f) then [bytes] else [])"
    unfolding fs1 using cache.put_inv cache.put_contents assms(2,3) by blast+
  obtain m' fs2 where top: "top_up_from_cache (\<lambda>_. healthy_env None) 0 (Unpoisoned s) fs1 = (m', fs2)"
    by (cases "top_up_from_cache (\<lambda>_. healthy_env None) 0 (Unpoisoned s) fs1")
  from top_up_reserve [OF own top] obtain s' where s': "m' = Unpoisoned s'" "reserve s' fs2 = reserve s fs1"
    "length (buffer s') < MEMORY_BUFFER_TARGET \<longrightarrow> photos fs2 = []" by blast
  have "media_render io request f = (Inr (), f\<lparr>memory := m', cached := fs2\<rparr>)"
    using assms(1,4-8,10,11) len st r top
    by (simp add: media_render_def local_photos_active_def build_image_def image_of_photo
        unwrap_or_default_def queue_photo_def)
  moreover have "reserve s fs1 = reserve s (cached f) @
      (if accepted u photo_id bytes (cached f) then [panel_image bytes] else [])"
    by (simp add: reserve_def ph)
  ultimately show ?thesis using s' by (auto simp: MEMORY_BUFFER_TARGET_def)
qed

definition pixel_http :: http where
  "pixel_http url headers =
     \<lparr>connection = Inr (), open_request = Inr (), submit = Inr 200, body_reads = [Inr black_photo]\<rparr>"

definition pixel_io :: media_io where
  "pixel_io = offline_io\<lparr>http_client := pixel_http\<rparr>"

definition pixel_request :: RenderRequest where
  "pixel_request = spare_request\<lparr>media_url := ''p?format=rgb565''\<rparr>"

lemma pixel_request_simps [simp]:
  "media_url pixel_request = ''p?format=rgb565''" "correlation_id pixel_request = Some ''a1''" "queue pixel_request"
  by (simp_all add: pixel_request_def)

lemma black_photo_facts: "length black_photo = 2048000" "black_photo \<noteq> []"
proof -
  show "length black_photo = 2048000" by (simp add: black_photo_def)
  then show "black_photo \<noteq> []" by auto
qed

lemma raw_pixels_example: "is_raw_pixels ''p?format=rgb565'' (length black_photo)"
proof -
  have "contains_str ''format=rgb565'' ''p?format=rgb565''" by code_simp
  then show ?thesis
    by (simp add: is_raw_pixels_def black_photo_facts usize_mul_def usize_limit_def
        PANEL_LOGICAL_WIDTH_def PANEL_LOGICAL_HEIGHT_def)
qed

theorem queued_photo_joins_the_reserve_witness:
  "\<exists>s' f'. media_render pixel_io pixel_request fresh_frame = (Inr (), f') \<and> memory f' = Unpoisoned s' \<and>
     reserve s' (cached f') = [panel_image black_photo] \<and> (2 \<le> length (buffer s') \<or> photos (cached f') = [])"
proof -
  have "usable_id ''a1''" using accepted_empty by (simp add: accepted_def)
  then have "\<exists>s' f'. media_render pixel_io pixel_request fresh_frame = (Inr (), f') \<and>
      memory f' = Unpoisoned s' \<and>
      reserve s' (cached f') = reserve store_init (cached fresh_frame) @
        (if accepted None ''a1'' black_photo (cached fresh_frame) then [panel_image black_photo] else []) \<and>
      (length (buffer s') < 2 \<longrightarrow> photos (cached f') = [])"
    by (intro queued_photo_joins_the_reserve)
      (use raw_pixels_example in \<open>simp_all add: pixel_io_def offline_io_def quiet_cache_def download_media_def
        pixel_http_def black_photo_facts own_cache_Nil fresh_frame_def\<close>)
  moreover have "reserve store_init (cached fresh_frame) = []"
    by (simp add: reserve_def store_init_def fresh_frame_def own_cache_Nil)
  moreover have "accepted None ''a1'' black_photo (cached fresh_frame)"
    using accepted_empty by (simp add: fresh_frame_def)
  ultimately show ?thesis by (auto simp: not_less)
qed

section \<open>Recording a render\<close>

definition record_render_request :: "RenderRequest \<Rightarrow> AppState \<Rightarrow> AppState" where
  "record_render_request request st =
     set_screen_status Rendering
       (set_display_brightness (brightness (presentation request)) (set_active_media_url (media_url request) st))"

definition record_render_complete :: "AppState \<Rightarrow> AppState" where
  "record_render_complete st = set_screen_status Idle st"

definition record_render_error :: "AppState \<Rightarrow> AppState" where
  "record_render_error st = set_screen_status ScreenError st"

text \<open>The record of a render, however it ends: only the screen status tells the outcomes apart.\<close>

lemma recorded_render:
  assumes "st' \<in> {record_render_complete (record_render_request request st), record_render_error (record_render_request request st)}"
  shows "active_media_url st' = Some (media_url request) \<and> display_brightness st' = brightness (presentation request) \<and>
    screen_status st' \<noteq> Rendering \<and> network_phase st' = network_phase st \<and> controller_phase st' = controller_phase st"
  using assms
  by (auto simp: record_render_request_def record_render_complete_def record_render_error_def app_state_defs)

section \<open>Presentation\<close>

text \<open>
  Brightness and transition do nothing. A render request carries a presentation that the validator
  checks, but the outcome and the frame afterwards, and so every status sent in answer, are the same
  whatever it says.
\<close>

theorem presentation_is_ignored:
  "run_render_controller_loop (media_executor embedded)
     (map (\<lambda>(io, request). (io, Render (request\<lparr>presentation := p\<rparr>))) requests) f =
   run_render_controller_loop (media_executor embedded)
     (map (\<lambda>(io, request). (io, Render request)) requests) f"
proof (induction requests arbitrary: f)
  case (Cons r requests)
  obtain io request where r: "r = (io, request)" by force
  have same: "media_url (request\<lparr>presentation := p\<rparr>) = media_url request"
    "correlation_id (request\<lparr>presentation := p\<rparr>) = correlation_id request"
    "queue (request\<lparr>presentation := p\<rparr>) = queue request" by simp_all
  have "media_render io (request\<lparr>presentation := p\<rparr>) f = media_render io request f"
    unfolding media_render_def same ..
  moreover have "render_report (request\<lparr>presentation := p\<rparr>) = render_report request"
    unfolding render_report_def same ..
  ultimately have "handle_event (media_executor embedded) io (Render (request\<lparr>presentation := p\<rparr>)) f =
      handle_event (media_executor embedded) io (Render request) f"
    by (simp add: handle_event_def media_executor_def)
  then show ?case by (auto simp: r Cons.IH split: prod.split)
qed simp

end
