(* ===== verification/Control_Plane.thy ===== *)
theory Control_Plane
  imports Control_Message Controller_State Render_Executor "HOL-Library.Sublist"
begin

text \<open>
  The control plane of \<open>frame-firmware/src/runtime.rs\<close>: the exponential backoff, the WebSocket
  connection (its introduction and its read loop), and \<open>run_control_plane_loop\<close> as a step machine.

  Each turn of the loop takes what the world gives it (\<open>plane_input\<close>): a connection attempt, one
  exchange on the open connection, the end of a backoff delay, and, at any time between two turns,
  commands put on the transport queue by other threads. The URL parser, TCP, tungstenite and
  serde_json are arguments. \<open>Duration\<close>s are nanoseconds. Log output is not modelled.
\<close>

section \<open>Backoff\<close>

definition DURATION_MAX :: nat where
  "DURATION_MAX = (2 ^ 64 - 1) * 10 ^ 9 + 999999999"

definition duration_saturating_mul :: "nat \<Rightarrow> nat \<Rightarrow> nat" where
  "duration_saturating_mul d k = min DURATION_MAX (d * k)"

definition from_secs :: "nat \<Rightarrow> nat" where
  "from_secs s = s * 10 ^ 9"

record ExponentialBackoff =
  initial_delay :: nat
  max_delay :: nat
  current_delay :: nat

definition backoff_new :: "nat \<Rightarrow> nat \<Rightarrow> ExponentialBackoff" where
  "backoff_new i m = \<lparr>initial_delay = i, max_delay = m, current_delay = i\<rparr>"

definition next_delay :: "ExponentialBackoff \<Rightarrow> nat \<times> ExponentialBackoff" where
  "next_delay b =
     (current_delay b, b\<lparr>current_delay := min (max_delay b) (duration_saturating_mul (current_delay b) 2)\<rparr>)"

definition backoff_reset :: "ExponentialBackoff \<Rightarrow> ExponentialBackoff" where
  "backoff_reset b = b\<lparr>current_delay := initial_delay b\<rparr>"

text \<open>The delays of the first \<open>n\<close> calls.\<close>

fun delays :: "nat \<Rightarrow> ExponentialBackoff \<Rightarrow> nat list" where
  "delays 0 b = []"
| "delays (Suc n) b = (case next_delay b of (d, b') \<Rightarrow> d # delays n b')"

lemma delays_from:
  assumes "max_delay b \<le> DURATION_MAX" "current_delay b = min (max_delay b) (i * 2 ^ k)"
  shows "delays n b = map (\<lambda>j. min (max_delay b) (i * 2 ^ (k + j))) [0..<n]"
  using assms
proof (induction n arbitrary: b k)
  case (Suc n)
  let ?b = "snd (next_delay b)"
  have "current_delay ?b = min (max_delay ?b) (i * 2 ^ Suc k)"
    using Suc.prems by (auto simp: next_delay_def duration_saturating_mul_def min_def)
  moreover have "max_delay ?b = max_delay b" by (simp add: next_delay_def)
  ultimately have "delays n ?b = map (\<lambda>j. min (max_delay b) (i * 2 ^ (Suc k + j))) [0..<n]"
    using Suc.IH [of ?b "Suc k"] Suc.prems(1) by simp
  then show ?case
    using Suc.prems(2) by (simp add: next_delay_def map_upt_Suc del: upt_Suc)
qed simp

definition after_delays :: "nat \<Rightarrow> ExponentialBackoff \<Rightarrow> ExponentialBackoff" where
  "after_delays k b = ((\<lambda>b. snd (next_delay b)) ^^ k) b"

lemma after_delays_Suc: "after_delays (Suc k) b = after_delays k (snd (next_delay b))"
  by (simp add: after_delays_def funpow_Suc_right del: funpow.simps)

lemma after_delays_keeps:
  "initial_delay (after_delays k b) = initial_delay b \<and> max_delay (after_delays k b) = max_delay b"
  by (induction k) (simp_all add: after_delays_def next_delay_def)

lemma reset_after_delays: "backoff_reset (after_delays k (backoff_new i m)) = backoff_new i m"
  using after_delays_keeps [of k "backoff_new i m"]
  by (cases "after_delays k (backoff_new i m)") (simp add: backoff_reset_def backoff_new_def)

text \<open>
  C38: the reconnect delays double from the initial delay up to the maximum and stay there: the
  \<open>n\<close>-th delay is the smaller of the maximum and the initial delay times \<open>2 ^ n\<close>, with no overflow
  for any number of attempts, and a reset after any number of delays starts the sequence again.
\<close>

theorem backoff_delays:
  assumes "i \<le> m" and "m \<le> DURATION_MAX"
  shows "delays n (backoff_new i m) = map (\<lambda>j. min m (i * 2 ^ j)) [0..<n] \<and>
         delays n (backoff_reset (after_delays k (backoff_new i m))) = map (\<lambda>j. min m (i * 2 ^ j)) [0..<n]"
  using delays_from [of "backoff_new i m" i 0 n] assms
  unfolding reset_after_delays by (simp add: backoff_new_def)

theorem backoff_delays_witness:
  "delays 7 (backoff_new (from_secs 1) (from_secs 30)) =
     map from_secs [1, 2, 4, 8, 16, 30, 30]"
  using backoff_delays [of "from_secs 1" "from_secs 30" 7 0]
  by (simp add: from_secs_def DURATION_MAX_def upt_rec)

section \<open>The WebSocket connection\<close>

record url_parts =
  scheme :: string
  host_str :: "string option"
  port_or_known_default :: "u16 option"
  url_str :: string

record WebSocketControlPlaneTransport =
  endpoint :: string
  ws_device_id :: string
  ws_device_name :: string

definition transport_new :: "string \<Rightarrow> string \<Rightarrow> WebSocketControlPlaneTransport" where
  "transport_new e i = \<lparr>endpoint = e, ws_device_id = i, ws_device_name = ''Photo Frame''\<rparr>"

definition with_device_name ::
  "string option \<Rightarrow> WebSocketControlPlaneTransport \<Rightarrow> WebSocketControlPlaneTransport" where
  "with_device_name n t =
     (case n of None \<Rightarrow> t | Some name \<Rightarrow> if name \<noteq> [] then t\<lparr>ws_device_name := name\<rparr> else t)"

text \<open>The outcome of each call of one connection attempt.\<close>

record ws_io =
  parse_url :: "string \<Rightarrow> url_parts result"
  tcp_connect :: "string \<Rightarrow> unit result"
  set_nodelay :: "unit result"
  set_read_timeout :: "unit result"
  set_write_timeout :: "unit result"
  client_request :: "string \<Rightarrow> unit result"
  handshake :: "unit result"
  encode_status :: "OutboundStatusMessage \<Rightarrow> string result"
  socket_send :: "string \<Rightarrow> unit result"

definition ws_send_status :: "ws_io \<Rightarrow> OutboundStatusMessage \<Rightarrow> unit result" where
  "ws_send_status io m =
     and_then (with_context ''failed to encode status payload'' (encode_status io m)) (\<lambda>payload.
       with_context ''failed to send control-plane status payload'' (socket_send io payload))"

definition option_context :: "string \<Rightarrow> 'a option \<Rightarrow> 'a result" where
  "option_context c v = (case v of None \<Rightarrow> Inl (Msg c) | Some a \<Rightarrow> Inr a)"

text \<open>A connection is what has been written to it so far.\<close>

definition ws_connect ::
  "ws_io \<Rightarrow> WebSocketControlPlaneTransport \<Rightarrow> OutboundStatusMessage list result" where
  "ws_connect io t =
     and_then (with_context (''invalid control-plane URL '' @ endpoint t) (parse_url io (endpoint t))) (\<lambda>url.
     if scheme url \<noteq> ''ws'' then
       Inl (Msg ''only plain ws:// endpoints are supported for the MVP control plane'')
     else
     and_then (option_context ''control-plane URL did not include a host'' (host_str url)) (\<lambda>host.
     and_then (option_context ''control-plane URL did not include a usable port'' (port_or_known_default url))
       (\<lambda>port. let address = host @ '':'' @ show_nat (unat port) in
     and_then (with_context (''failed to open TCP connection to '' @ address) (tcp_connect io address)) (\<lambda>_.
     and_then (with_context ''failed to enable TCP_NODELAY for control-plane socket'' (set_nodelay io)) (\<lambda>_.
     and_then (with_context ''failed to set control-plane socket read timeout'' (set_read_timeout io)) (\<lambda>_.
     and_then (with_context ''failed to set control-plane socket write timeout'' (set_write_timeout io)) (\<lambda>_.
     and_then (with_context ''failed to build WebSocket client request'' (client_request io (url_str url))) (\<lambda>_.
     and_then (with_context (''failed to complete WebSocket handshake with '' @ url_str url) (handshake io)) (\<lambda>_.
       let hello = Connected (ws_device_id t) (ws_device_name t) in
     and_then (with_context ''failed to introduce this frame to the controller'' (ws_send_status io hello))
       (\<lambda>_. Inr [hello]))))))))))"

text \<open>What one \<open>socket.read()\<close> yields; a ping carries the outcome of answering it.\<close>

datatype socket_read =
    ReadText string
  | ReadBinary
  | ReadPing "unit result"
  | ReadPong
  | ReadClose string
  | ReadWouldBlock
  | ReadError error
  | ReadFrame

text \<open>
  The read loop over the reads to come; \<open>None\<close> is a loop still waiting when they run out, as under
  a peer that only ever pings.
\<close>

fun read_loop :: "socket_read list \<Rightarrow> string option result option" where
  "read_loop [] = None"
| "read_loop (ReadText m # rs) = Some (Inr (Some m))"
| "read_loop (ReadBinary # rs) = read_loop rs"
| "read_loop (ReadPing pong # rs) =
     (case with_context ''failed to respond to control-plane ping'' pong of
        Inl e \<Rightarrow> Some (Inl e)
      | Inr _ \<Rightarrow> read_loop rs)"
| "read_loop (ReadPong # rs) = read_loop rs"
| "read_loop (ReadClose f # rs) = Some (Inl (Msg (''control-plane closed connection: '' @ f)))"
| "read_loop (ReadWouldBlock # rs) = Some (Inr None)"
| "read_loop (ReadError e # rs) = Some (Inl (Context ''failed to read control-plane message'' e))"
| "read_loop (ReadFrame # rs) = read_loop rs"

definition read_message :: "unit result \<Rightarrow> socket_read list \<Rightarrow> string option result option" where
  "read_message set_timeout rs =
     (case with_context ''failed to update control-plane read timeout'' set_timeout of
        Inl e \<Rightarrow> Some (Inl e)
      | Inr _ \<Rightarrow> read_loop rs)"

lemma read_loop_skips:
  "\<forall>r \<in> set rs. r \<in> {ReadBinary, ReadPong, ReadFrame, ReadPing (Inr ())} \<Longrightarrow> read_loop (rs @ rest) = read_loop rest"
  by (induction rs) auto

section \<open>The control-plane loop\<close>

datatype TransportCommand = SendStatus OutboundStatusMessage | Shutdown

text \<open>Where the loop is: about to connect, connected, sleeping before a retry, or returned.\<close>

datatype plane_mode = Connecting | Online | Waiting nat | Stopped

record plane =
  mode :: plane_mode
  retry :: ExponentialBackoff
  controller :: "ControllerState mutex"
  token_slot :: "string option mutex"
  pending :: "TransportCommand list"
  senders_alive :: bool
  renderer_alive :: bool
  forwarded :: "ControlEvent list"
  wires :: "OutboundStatusMessage list list"

definition set_phase :: "ControllerPhase \<Rightarrow> plane \<Rightarrow> plane" where
  "set_phase ph p = p\<lparr>controller := snd (set_controller_phase ph (controller p))\<rparr>"

text \<open>After a failed attempt or a lost connection.\<close>

definition enter_backoff :: "plane \<Rightarrow> plane" where
  "enter_backoff p =
     (case next_delay (retry p) of
        (delay, b) \<Rightarrow> set_phase Searching (p\<lparr>retry := b, mode := Waiting delay\<rparr>))"

definition connect_step :: "OutboundStatusMessage list result \<Rightarrow> plane \<Rightarrow> plane" where
  "connect_step r p =
     (case r of
        Inr wire \<Rightarrow>
          (set_phase AwaitingConfiguration p)
            \<lparr>retry := backoff_reset (retry p), mode := Online, wires := wire # wires p\<rparr>
      | Inl _ \<Rightarrow> enter_backoff (set_phase Searching p))"

text \<open>The top of an exchange: one command from the queue, if any. \<open>None\<close> breaks to the backoff.\<close>

definition try_recv_step :: "(OutboundStatusMessage \<Rightarrow> unit result) \<Rightarrow> plane \<Rightarrow> plane option" where
  "try_recv_step send p =
     (case pending p of
        Shutdown # q \<Rightarrow> Some (p\<lparr>pending := q, mode := Stopped\<rparr>)
      | SendStatus m # q \<Rightarrow>
          (case send m of
             Inl _ \<Rightarrow> None
           | Inr _ \<Rightarrow> Some (p\<lparr>pending := q, wires := (hd (wires p) @ [m]) # tl (wires p)\<rparr>))
      | [] \<Rightarrow> if senders_alive p then Some p else Some (p\<lparr>mode := Stopped\<rparr>))"

definition take_token :: "ControllerRegistration \<Rightarrow> plane \<Rightarrow> plane" where
  "take_token r p =
     (case reg_frame_token r of
        None \<Rightarrow> p
      | Some t \<Rightarrow> p\<lparr>token_slot := set_frame_token t (token_slot p)\<rparr>)"

definition receive :: "(string \<Rightarrow> string + IncomingControlMessage) \<Rightarrow> string \<Rightarrow> plane \<Rightarrow> plane" where
  "receive from_json payload p =
     (case parse_control_message from_json payload of
        Inl _ \<Rightarrow> p
      | Inr event \<Rightarrow>
          (case event of
             Registration r \<Rightarrow>
               set_phase (if claimed r then CtlConnected else AwaitingConfiguration) (take_token r p)
           | _ \<Rightarrow>
               (let p1 = set_phase CtlConnected p
                in if renderer_alive p1 then p1\<lparr>forwarded := forwarded p1 @ [event]\<rparr>
                   else p1\<lparr>mode := Stopped\<rparr>)))"

definition exchange_step ::
  "(string \<Rightarrow> string + IncomingControlMessage) \<Rightarrow> (OutboundStatusMessage \<Rightarrow> unit result)
   \<Rightarrow> string option result \<Rightarrow> plane \<Rightarrow> plane" where
  "exchange_step from_json send r p =
     (case try_recv_step send p of
        None \<Rightarrow> enter_backoff (p\<lparr>pending := tl (pending p)\<rparr>)
      | Some p1 \<Rightarrow>
          if mode p1 = Stopped then p1
          else (case r of
                  Inr (Some payload) \<Rightarrow> receive from_json payload p1
                | Inr None \<Rightarrow> p1
                | Inl _ \<Rightarrow> enter_backoff (set_phase Searching p1)))"

text \<open>
  \<open>recv_timeout\<close> with \<open>d\<close> left to wait while \<open>n\<close> goes by: the first command is taken at once, without one
  the wait goes on until the delay has passed.
\<close>

definition wait_step :: "nat \<Rightarrow> nat \<Rightarrow> plane \<Rightarrow> plane" where
  "wait_step d n p =
     (case pending p of
        Shutdown # q \<Rightarrow> p\<lparr>pending := q, mode := Stopped\<rparr>
      | SendStatus _ # q \<Rightarrow> p\<lparr>pending := q, mode := Connecting\<rparr>
      | [] \<Rightarrow>
          if \<not> senders_alive p then p\<lparr>mode := Stopped\<rparr>
          else if d \<le> n then p\<lparr>mode := Connecting\<rparr>
          else p\<lparr>mode := Waiting (d - n)\<rparr>)"

datatype plane_input =
    Enqueue TransportCommand
  | DropSenders
  | DropRenderer
  | Connect ws_io
  | Exchange "OutboundStatusMessage \<Rightarrow> unit result" "string option result"
  | Waited nat

definition plane_step ::
  "WebSocketControlPlaneTransport \<Rightarrow> (string \<Rightarrow> string + IncomingControlMessage) \<Rightarrow> plane
   \<Rightarrow> plane_input \<Rightarrow> plane" where
  "plane_step t from_json p i =
     (case i of
        Enqueue c \<Rightarrow> if senders_alive p then p\<lparr>pending := pending p @ [c]\<rparr> else p
      | DropSenders \<Rightarrow> p\<lparr>senders_alive := False\<rparr>
      | DropRenderer \<Rightarrow> p\<lparr>renderer_alive := False\<rparr>
      | Connect io \<Rightarrow> (case mode p of Connecting \<Rightarrow> connect_step (ws_connect io t) p | _ \<Rightarrow> p)
      | Exchange send r \<Rightarrow> (case mode p of Online \<Rightarrow> exchange_step from_json send r p | _ \<Rightarrow> p)
      | Waited n \<Rightarrow> (case mode p of Waiting d \<Rightarrow> wait_step d n p | _ \<Rightarrow> p))"

definition plane_run ::
  "WebSocketControlPlaneTransport \<Rightarrow> (string \<Rightarrow> string + IncomingControlMessage) \<Rightarrow> plane
   \<Rightarrow> plane_input list \<Rightarrow> plane" where
  "plane_run t from_json = foldl (plane_step t from_json)"

definition plane_init :: plane where
  "plane_init = \<lparr>mode = Connecting, retry = backoff_new (from_secs 1) (from_secs 30),
     controller = Unpoisoned controller_state_default, token_slot = Unpoisoned None,
     pending = [], senders_alive = True, renderer_alive = True, forwarded = [], wires = []\<rparr>"

lemmas plane_defs =
  plane_step_def connect_step_def exchange_step_def wait_step_def enter_backoff_def set_phase_def
  try_recv_step_def receive_def take_token_def

text \<open>An invariant of every step holds after every run.\<close>

lemma plane_run_induct:
  assumes "P plane_init" and "\<And>p i. P p \<Longrightarrow> P (plane_step t from_json p i)"
  shows "P (plane_run t from_json plane_init is)"
proof -
  have "P p \<Longrightarrow> P (foldl (plane_step t from_json) p is)" for p
    by (induction "is" arbitrary: p) (auto intro: assms(2))
  with assms(1) show ?thesis by (simp add: plane_run_def)
qed

section \<open>A frame always introduces itself\<close>

lemma ws_connect_hello:
  "ws_connect io t = Inr wire \<Longrightarrow> wire = [Connected (ws_device_id t) (ws_device_name t)]"
  by (auto simp: ws_connect_def and_then_Inr Let_def split: if_splits)

definition introduced :: "WebSocketControlPlaneTransport \<Rightarrow> plane \<Rightarrow> bool" where
  "introduced t p \<longleftrightarrow>
     (\<forall>wire \<in> set (wires p). \<exists>rest. wire = Connected (ws_device_id t) (ws_device_name t) # rest) \<and>
     (mode p = Online \<longrightarrow> wires p \<noteq> [])"

lemma introduced_try_recv:
  "introduced t p \<Longrightarrow> mode p = Online \<Longrightarrow> try_recv_step send p = Some p1 \<Longrightarrow> introduced t p1"
  by (cases "wires p")
    (auto simp: introduced_def try_recv_step_def
      split: list.splits TransportCommand.splits sum.splits if_splits)

lemma introduced_phase [simp]: "introduced t (set_phase ph p) = introduced t p"
  by (simp add: introduced_def set_phase_def)

lemma introduced_backoff: "introduced t p \<Longrightarrow> introduced t (enter_backoff p)"
  by (auto simp: introduced_def enter_backoff_def set_phase_def split: prod.split)

lemma introduced_receive: "introduced t p \<Longrightarrow> introduced t (receive from_json payload p)"
  by (auto simp: introduced_def receive_def take_token_def set_phase_def Let_def
      split: sum.split ControlEvent.split option.split)

lemma introduced_step: "introduced t p \<Longrightarrow> introduced t (plane_step t from_json p i)"
proof (cases i)
  case (Connect io)
  assume "introduced t p"
  then show ?thesis
    using introduced_backoff [of t "set_phase Searching p"] ws_connect_hello [of io t]
    by (auto simp: Connect plane_step_def connect_step_def introduced_def set_phase_def
        split: plane_mode.split sum.split)
next
  case (Exchange send r)
  assume inv: "introduced t p"
  then have drop: "introduced t (p\<lparr>pending := q\<rparr>)" for q by (simp add: introduced_def)
  show ?thesis
    using inv introduced_try_recv [OF inv] introduced_backoff introduced_backoff [OF drop] introduced_receive
    by (auto simp: Exchange plane_step_def exchange_step_def
        split: plane_mode.split sum.split option.split)
qed (auto simp: introduced_def plane_step_def wait_step_def
     split: plane_mode.splits list.splits TransportCommand.splits)

text \<open>
  On every connection the frame's first message is its introduction, under its current name and
  identity: no health report or other status queued by another thread can reach the controller
  before it, whatever the order of connections, losses, statuses and retries.
\<close>

theorem first_message_is_introduction:
  assumes "wire \<in> set (wires (plane_run t from_json plane_init inputs))"
  shows "\<exists>rest. wire = Connected (ws_device_id t) (ws_device_name t) # rest"
proof -
  have "introduced t (plane_run t from_json plane_init inputs)"
    by (rule plane_run_induct) (auto simp: introduced_step, simp add: introduced_def plane_init_def)
  with assms show ?thesis by (auto simp: introduced_def)
qed

definition sample_transport :: WebSocketControlPlaneTransport where
  "sample_transport = with_device_name (Some ''Kitchen'') (transport_new ''ws://ha:8099/'' ''frame-1'')"

definition up_io :: ws_io where
  "up_io = \<lparr>parse_url = (\<lambda>u. Inr \<lparr>scheme = ''ws'', host_str = Some ''ha'',
       port_or_known_default = Some 8099, url_str = u\<rparr>),
     tcp_connect = (\<lambda>_. Inr ()), set_nodelay = Inr (), set_read_timeout = Inr (),
     set_write_timeout = Inr (), client_request = (\<lambda>_. Inr ()), handshake = Inr (),
     encode_status = (\<lambda>_. Inr ''{}''), socket_send = (\<lambda>_. Inr ())\<rparr>"

definition down_io :: ws_io where
  "down_io = up_io\<lparr>tcp_connect := (\<lambda>_. Inl (Msg ''refused''))\<rparr>"

lemma up_io_connects: "ws_connect up_io sample_transport = Inr [Connected ''frame-1'' ''Kitchen'']"
  by (simp add: ws_connect_def up_io_def sample_transport_def with_device_name_def transport_new_def
      option_context_def ws_send_status_def Let_def)

lemma down_io_fails: "\<exists>e. ws_connect down_io t = Inl e"
  by (simp add: ws_connect_def down_io_def up_io_def option_context_def Let_def)

lemma plane_init_simps [simp]:
  "mode plane_init = Connecting" "pending plane_init = []" "senders_alive plane_init"
  "wires plane_init = []" "forwarded plane_init = []" "renderer_alive plane_init"
  "controller plane_init = Unpoisoned controller_state_default"
  by (simp_all add: plane_init_def)

theorem first_message_is_introduction_witness:
  "\<exists>rest. [Connected ''frame-1'' ''Kitchen'', PhotoRequested 4 0] = Connected ''frame-1'' ''Kitchen'' # rest"
proof -
  let ?inputs = "[Enqueue (SendStatus (PhotoRequested 4 0)), Connect up_io, Exchange (\<lambda>_. Inr ()) (Inr None)]"
  have "wires (plane_run sample_transport (\<lambda>_. Inl []) plane_init ?inputs) =
      [[Connected ''frame-1'' ''Kitchen'', PhotoRequested 4 0]]"
    by (simp add: plane_run_def plane_step_def connect_step_def up_io_connects exchange_step_def
        try_recv_step_def set_phase_def)
  then have "[Connected ''frame-1'' ''Kitchen'', PhotoRequested 4 0]
      \<in> set (wires (plane_run sample_transport (\<lambda>_. Inl []) plane_init ?inputs))" by simp
  from first_message_is_introduction [OF this] show ?thesis
    by (simp add: sample_transport_def with_device_name_def transport_new_def)
qed

section \<open>Statuses leave in order, each at most once\<close>

definition sent_statuses :: "plane \<Rightarrow> OutboundStatusMessage list" where
  "sent_statuses p = concat (map tl (rev (wires p)))"

definition status_of :: "TransportCommand \<Rightarrow> OutboundStatusMessage list" where
  "status_of c = (case c of SendStatus m \<Rightarrow> [m] | Shutdown \<Rightarrow> [])"

definition queued_statuses :: "plane \<Rightarrow> OutboundStatusMessage list" where
  "queued_statuses p = concat (map status_of (pending p))"

definition enqueued :: "plane_input list \<Rightarrow> OutboundStatusMessage list" where
  "enqueued is = concat (map (\<lambda>i. case i of Enqueue c \<Rightarrow> status_of c | _ \<Rightarrow> []) is)"

definition in_flight :: "plane \<Rightarrow> OutboundStatusMessage list" where
  "in_flight p = sent_statuses p @ queued_statuses p"

lemma in_flight_simps [simp]:
  "in_flight (set_phase ph p) = in_flight p"
  "in_flight (enter_backoff p) = in_flight p"
  "in_flight (receive from_json payload p) = in_flight p"
  by (simp_all add: in_flight_def sent_statuses_def queued_statuses_def set_phase_def enter_backoff_def
      receive_def take_token_def Let_def split: prod.split sum.split ControlEvent.split option.split)

lemma subseq_drop_middle: "subseq (xs @ zs) (xs @ ys @ zs)"
  using list_emb_append_mono [of "(=)" xs xs zs "ys @ zs"] list_emb_append2 [of "(=)" zs zs ys] by simp

lemma subseq_drop_end: "subseq xs (xs @ zs)"
  using subseq_drop_middle [of xs "[]" zs] by simp

lemma drop_pending: "subseq (in_flight (p\<lparr>pending := tl (pending p)\<rparr>)) (in_flight p)"
  by (cases "pending p")
    (simp_all add: in_flight_def sent_statuses_def queued_statuses_def subseq_drop_middle)

lemma in_flight_try_recv:
  assumes "introduced t p" "mode p = Online" "try_recv_step send p = Some p1"
  shows "in_flight p1 = in_flight p"
proof -
  obtain m rest ws where "wires p = (m # rest) # ws"
    using assms(1,2) by (cases "wires p") (auto simp: introduced_def)
  with assms(3) show ?thesis
    by (auto simp: try_recv_step_def in_flight_def sent_statuses_def queued_statuses_def status_of_def
        split: list.splits TransportCommand.splits sum.splits if_splits)
qed

lemma in_flight_step:
  assumes "introduced t p"
  shows "subseq (in_flight (plane_step t from_json p i)) (in_flight p @ enqueued [i])"
proof (cases i)
  case (Enqueue c)
  have "in_flight (p\<lparr>pending := pending p @ [c]\<rparr>) = in_flight p @ status_of c"
    by (simp add: in_flight_def sent_statuses_def queued_statuses_def)
  then show ?thesis by (simp add: Enqueue plane_step_def enqueued_def subseq_drop_end)
next
  case (Connect io)
  have "in_flight (connect_step (ws_connect io t) p) = in_flight p"
    using ws_connect_hello [of io t]
    by (auto simp: connect_step_def in_flight_def sent_statuses_def queued_statuses_def set_phase_def
        enter_backoff_def split: sum.split prod.split)
  then show ?thesis by (simp add: Connect plane_step_def enqueued_def split: plane_mode.split)
next
  case (Exchange send r)
  have "subseq (in_flight (exchange_step from_json send r p)) (in_flight p)" if "mode p = Online"
    using in_flight_try_recv [OF assms that, of send] drop_pending [of p]
    by (auto simp: exchange_step_def split: option.split sum.split)
  then show ?thesis by (simp add: Exchange plane_step_def enqueued_def split: plane_mode.split)
next
  case (Waited n)
  have "in_flight (p\<lparr>pending := q, mode := m\<rparr>) = in_flight (p\<lparr>pending := q\<rparr>)" for q m
    by (simp add: in_flight_def sent_statuses_def queued_statuses_def)
  moreover have "in_flight (p\<lparr>mode := m\<rparr>) = in_flight p" for m
    by (simp add: in_flight_def sent_statuses_def queued_statuses_def)
  ultimately have "subseq (in_flight (wait_step d n p)) (in_flight p)" for d
    using drop_pending [of p]
    by (cases "pending p") (auto simp: wait_step_def split: TransportCommand.split)
  then show ?thesis by (simp add: Waited plane_step_def enqueued_def split: plane_mode.split)
qed (simp_all add: plane_step_def enqueued_def in_flight_def sent_statuses_def queued_statuses_def)

text \<open>
  C16: statuses reach the controller in the order they were queued, and none is sent twice: over any
  run, what was sent on all the connections (the introductions apart) followed by what still
  waits is a subsequence of what the other threads queued.
\<close>

theorem statuses_sent_in_order:
  "subseq (sent_statuses (plane_run t from_json plane_init inputs) @
           queued_statuses (plane_run t from_json plane_init inputs)) (enqueued inputs)"
proof -
  have "introduced t (plane_run t from_json plane_init inputs) \<and>
        subseq (in_flight (plane_run t from_json plane_init inputs)) (enqueued inputs)"
  proof (induction inputs rule: rev_induct)
    case Nil
    then show ?case
      by (simp add: plane_run_def introduced_def in_flight_def sent_statuses_def queued_statuses_def)
  next
    case (snoc i inputs)
    let ?p = "plane_run t from_json plane_init inputs"
    have step: "plane_run t from_json plane_init (inputs @ [i]) = plane_step t from_json ?p i"
      by (simp add: plane_run_def)
    have "enqueued (inputs @ [i]) = enqueued inputs @ enqueued [i]" by (simp add: enqueued_def)
    moreover have "subseq (in_flight ?p @ enqueued [i]) (enqueued inputs @ enqueued [i])"
      using snoc by simp
    ultimately show ?case
      using in_flight_step [of t ?p from_json i] snoc introduced_step [of t ?p from_json i]
      unfolding step by (metis subseq_order.trans)
  qed
  then show ?thesis by (simp add: in_flight_def)
qed

section \<open>What reaches the render loop\<close>

definition valid_event :: "(string \<Rightarrow> string + IncomingControlMessage) \<Rightarrow> string \<Rightarrow> ControlEvent list" where
  "valid_event from_json payload =
     (case parse_control_message from_json payload of
        Inl _ \<Rightarrow> []
      | Inr event \<Rightarrow> (case event of Registration r \<Rightarrow> [] | _ \<Rightarrow> [event]))"

definition valid_events :: "(string \<Rightarrow> string + IncomingControlMessage) \<Rightarrow> plane_input list \<Rightarrow> ControlEvent list" where
  "valid_events from_json is = concat (map (\<lambda>i.
     case i of Exchange send (Inr (Some payload)) \<Rightarrow> valid_event from_json payload | _ \<Rightarrow> []) is)"

lemma forwarded_simps [simp]:
  "forwarded (set_phase ph p) = forwarded p"
  "forwarded (enter_backoff p) = forwarded p"
  "try_recv_step send p = Some p1 \<Longrightarrow> forwarded p1 = forwarded p"
  "forwarded (wait_step d n p) = forwarded p"
  "forwarded (connect_step c p) = forwarded p"
  by (auto simp: set_phase_def enter_backoff_def try_recv_step_def wait_step_def connect_step_def
      split: prod.splits list.splits TransportCommand.splits sum.splits if_splits)

lemma forwarded_receive:
  "subseq (forwarded (receive from_json payload q)) (forwarded q @ valid_event from_json payload)"
  by (auto simp: receive_def take_token_def set_phase_def Let_def valid_event_def subseq_drop_end
      split: sum.split ControlEvent.split option.split)

lemma forwarded_step:
  "subseq (forwarded (plane_step t from_json p i)) (forwarded p @ valid_events from_json [i])"
proof (cases i)
  case (Exchange send r)
  have "subseq (forwarded (exchange_step from_json send r p)) (forwarded p @ valid_events from_json [i])"
  proof (cases "try_recv_step send p")
    case None
    then show ?thesis by (simp add: exchange_step_def subseq_drop_end)
  next
    case (Some q)
    then have "forwarded q = forwarded p" by simp
    with Some forwarded_receive [of from_json _ q] show ?thesis
      by (auto simp: exchange_step_def Exchange valid_events_def subseq_drop_end split: sum.split option.split)
  qed
  then show ?thesis by (simp add: Exchange plane_step_def subseq_drop_end split: plane_mode.split)
qed (simp_all add: plane_step_def valid_events_def split: plane_mode.split)

text \<open>
  The render loop is only ever given validated events, in the order they arrived and each at most
  once: what was forwarded over any run is a subsequence of the payloads received that parse to a
  render or a command, so a bad payload or a registration never gets through.
\<close>

theorem only_valid_events_forwarded:
  "subseq (forwarded (plane_run t from_json plane_init inputs)) (valid_events from_json inputs)"
proof (induction inputs rule: rev_induct)
  case Nil
  then show ?case by (simp add: plane_run_def)
next
  case (snoc i inputs)
  let ?p = "plane_run t from_json plane_init inputs"
  have "plane_run t from_json plane_init (inputs @ [i]) = plane_step t from_json ?p i"
    by (simp add: plane_run_def)
  moreover have "valid_events from_json (inputs @ [i]) =
      valid_events from_json inputs @ valid_events from_json [i]" by (simp add: valid_events_def)
  moreover have "subseq (forwarded ?p @ valid_events from_json [i])
      (valid_events from_json inputs @ valid_events from_json [i])" using snoc by simp
  ultimately show ?case
    using forwarded_step [of t from_json ?p i] by (metis subseq_order.trans)
qed

section \<open>The phase shown on screen\<close>

text \<open>
  The control plane owns the controller phase; \<open>Connected\<close> (which the screen shows as adopted) and
  \<open>AwaitingConfiguration\<close> are only ever published while a connection is open, or once the loop has
  returned.
\<close>

definition phase_matches :: "plane \<Rightarrow> bool" where
  "phase_matches p \<longleftrightarrow>
     (\<exists>c. controller p = Unpoisoned c \<and>
        (ctl_phase c \<in> {CtlConnected, AwaitingConfiguration} \<longrightarrow> mode p \<in> {Online, Stopped}) \<and>
        (\<forall>d. mode p = Waiting d \<longrightarrow> ctl_phase c = Searching))"

lemma phase_set [simp]:
  "controller p = Unpoisoned c \<Longrightarrow> \<exists>c'. controller (set_phase ph p) = Unpoisoned c' \<and> ctl_phase c' = ph"
  "mode (set_phase ph p) = mode p"
  by (simp_all add: set_phase_def set_controller_phase_def set_phase_body_def)

lemma phase_backoff: "phase_matches p \<Longrightarrow> phase_matches (enter_backoff p)"
  by (auto simp: phase_matches_def enter_backoff_def set_phase_def set_controller_phase_def
      set_phase_body_def split: prod.split)

lemma phase_drop: "phase_matches (p\<lparr>pending := q\<rparr>) = phase_matches p"
  by (simp add: phase_matches_def)

lemma phase_set_any: "phase_matches p \<Longrightarrow> mode p = Online \<Longrightarrow> phase_matches (set_phase ph p)"
  by (auto simp: phase_matches_def set_phase_def set_controller_phase_def set_phase_body_def)

lemma phase_try_recv: "phase_matches p \<Longrightarrow> try_recv_step send p = Some p1 \<Longrightarrow> phase_matches p1"
  by (auto simp: phase_matches_def try_recv_step_def
      split: list.splits TransportCommand.splits sum.splits if_splits)

lemma mode_try_recv:
  "mode p = Online \<Longrightarrow> try_recv_step send p = Some p1 \<Longrightarrow> mode p1 = Online \<or> mode p1 = Stopped"
  by (auto simp: try_recv_step_def split: list.splits TransportCommand.splits sum.splits if_splits)

lemma phase_receive: "phase_matches p \<Longrightarrow> mode p = Online \<Longrightarrow> phase_matches (receive from_json payload p)"
  by (auto simp: phase_matches_def receive_def take_token_def set_phase_def set_controller_phase_def
      set_phase_body_def Let_def split: sum.split ControlEvent.split option.split)

lemma phase_exchange:
  assumes "phase_matches p" "mode p = Online"
  shows "phase_matches (exchange_step from_json send r p)"
proof (cases "try_recv_step send p")
  case None
  then show ?thesis
    using phase_backoff [of "p\<lparr>pending := tl (pending p)\<rparr>"] assms(1)
    by (simp add: exchange_step_def phase_drop)
next
  case (Some p1)
  have p1: "phase_matches p1" "mode p1 = Online \<or> mode p1 = Stopped"
    using phase_try_recv [OF assms(1) Some] mode_try_recv [OF assms(2) Some] by auto
  then show ?thesis
    using phase_receive [OF p1(1)] phase_backoff [OF phase_set_any [OF p1(1)], of Searching]
    by (auto simp: exchange_step_def Some split: sum.split option.split)
qed

lemma phase_step: "phase_matches p \<Longrightarrow> phase_matches (plane_step t from_json p i)"
proof (cases i)
  case (Connect io)
  assume inv: "phase_matches p"
  then have "phase_matches (enter_backoff (set_phase Searching p))" if "mode p = Connecting"
    by (auto simp: phase_matches_def enter_backoff_def set_phase_def set_controller_phase_def
        set_phase_body_def split: prod.split)
  with inv show ?thesis
    by (auto simp: Connect plane_step_def connect_step_def phase_matches_def set_phase_def
        set_controller_phase_def set_phase_body_def split: plane_mode.split sum.split)
next
  case (Exchange send r)
  assume "phase_matches p"
  then show ?thesis
    using phase_exchange [of p] by (simp add: Exchange plane_step_def split: plane_mode.split)
qed (auto simp: phase_matches_def plane_step_def wait_step_def
     split: plane_mode.splits list.splits TransportCommand.splits)

lemma phase_of_run: "phase_matches (plane_run t from_json plane_init inputs)"
  by (rule plane_run_induct)
    (auto simp: phase_step, simp add: phase_matches_def controller_state_default_def)

text \<open>
  The frame never claims to be connected when it is not: over any run of the control plane, the
  published phase is \<open>Connected\<close> or \<open>AwaitingConfiguration\<close> only while a connection is open (or the
  loop has returned), and while it waits to retry the phase is \<open>Searching\<close>.
\<close>

theorem connected_phase_means_online:
  "\<exists>c. controller (plane_run t from_json plane_init inputs) = Unpoisoned c \<and>
     (ctl_phase c = CtlConnected \<or> ctl_phase c = AwaitingConfiguration \<longrightarrow>
        mode (plane_run t from_json plane_init inputs) = Online \<or>
        mode (plane_run t from_json plane_init inputs) = Stopped) \<and>
     (\<forall>d. mode (plane_run t from_json plane_init inputs) = Waiting d \<longrightarrow> ctl_phase c = Searching)"
  using phase_of_run [of t from_json inputs] by (simp add: phase_matches_def)

definition adopted_inputs :: "plane_input list" where
  "adopted_inputs = [Connect up_io, Exchange (\<lambda>_. Inr ()) (Inr (Some ''claim''))]"

definition claim_json :: "string \<Rightarrow> string + IncomingControlMessage" where
  "claim_json s = Inr \<lparr>in_media_url = None, in_transition_type = None, in_brightness = None,
     in_correlation_id = None, in_cmd = None,
     in_registration = Some \<lparr>claimed = True, display_name = None, reg_message = None, reg_frame_token = Some ''t''\<rparr>,
     in_queue = False\<rparr>"

lemma adopted_run:
  "controller (plane_run sample_transport claim_json plane_init adopted_inputs) =
     Unpoisoned \<lparr>ctl_generation = 2, ctl_phase = CtlConnected\<rparr> \<and>
   mode (plane_run sample_transport claim_json plane_init adopted_inputs) = Online"
  by (simp add: adopted_inputs_def plane_run_def plane_step_def connect_step_def up_io_connects
      exchange_step_def try_recv_step_def receive_def claim_json_def parse_control_message_def
      validate_control_message_def validate_action_def action_count_def count_some_def has_metadata_def
      take_token_def set_phase_def set_controller_phase_def set_phase_body_def controller_state_default_def)

theorem connected_phase_means_online_witness:
  "\<exists>c. Unpoisoned \<lparr>ctl_generation = 2, ctl_phase = CtlConnected\<rparr> = Unpoisoned c \<and> ctl_phase c = CtlConnected \<and>
     mode (plane_run sample_transport claim_json plane_init adopted_inputs) \<in> {Online, Stopped}"
  using connected_phase_means_online [of sample_transport claim_json adopted_inputs] adopted_run by auto

section \<open>Statuses queued while offline\<close>

text \<open>Attempts that fail, with no time going by between them.\<close>

definition retries :: "nat \<Rightarrow> ws_io \<Rightarrow> plane_input list" where
  "retries n io = concat (replicate n [Waited 0, Connect io])"

lemma wait_without_status:
  "pending q = [] \<Longrightarrow> senders_alive q \<Longrightarrow> mode q = Waiting d \<Longrightarrow> n < d \<Longrightarrow>
   plane_step t from_json q (Waited n) = q\<lparr>mode := Waiting (d - n)\<rparr>"
  by (simp add: plane_step_def wait_step_def)

lemma retries_use_up:
  assumes "mode p = Waiting d" and "pending p = map SendStatus statuses" and "senders_alive p"
    and "ws_connect io t = Inl e"
  shows "(\<exists>d'. mode (plane_run t from_json p (retries (length statuses) io)) = Waiting d') \<and>
    pending (plane_run t from_json p (retries (length statuses) io)) = [] \<and>
    senders_alive (plane_run t from_json p (retries (length statuses) io)) \<and>
    wires (plane_run t from_json p (retries (length statuses) io)) = wires p \<and>
    retry (plane_run t from_json p (retries (length statuses) io)) = after_delays (length statuses) (retry p)"
  using assms(1-3)
proof (induction statuses arbitrary: p d)
  case Nil
  then show ?case by (simp add: plane_run_def retries_def after_delays_def)
next
  case (Cons m ms)
  let ?q = "plane_step t from_json (plane_step t from_json p (Waited 0)) (Connect io)"
  have "\<exists>d'. mode ?q = Waiting d'" "pending ?q = map SendStatus ms" "senders_alive ?q" "wires ?q = wires p"
    "retry ?q = snd (next_delay (retry p))"
    using Cons.prems assms(4)
    by (simp_all add: plane_step_def wait_step_def connect_step_def enter_backoff_def set_phase_def
        split: prod.split)
  moreover have "plane_run t from_json p (retries (length (m # ms)) io) =
      plane_run t from_json ?q (retries (length ms) io)"
    by (simp add: plane_run_def retries_def)
  ultimately show ?case using Cons.IH [of ?q] by (auto simp: after_delays_Suc)
qed

text \<open>
  C36: a status queued while the frame is offline is lost, and it cuts the backoff short. From a wait with
  any number of statuses queued, that many connection attempts follow although no time goes by: each takes the
  next, longer delay from the backoff, uses up one status, and sends nothing. Once they are used up the wait
  is a wait again: less than its delay only brings the end nearer. And when the attempt a status woke the
  loop for succeeds, that status is lost as well: the connection opens with the introduction alone.
\<close>

theorem offline_statuses_are_lost:
  assumes "mode p = Waiting d" and "pending p = map SendStatus statuses" and "senders_alive p"
    and "ws_connect down t = Inl e" and "ws_connect up t = Inr wire"
    and "q = plane_run t from_json p (retries (length statuses) down)"
  shows "(\<exists>d'. mode q = Waiting d' \<and> (\<forall>n < d'. plane_step t from_json q (Waited n) = q\<lparr>mode := Waiting (d' - n)\<rparr>)) \<and>
    pending q = [] \<and> wires q = wires p \<and> retry q = after_delays (length statuses) (retry p) \<and>
    (\<forall>m ms. statuses = m # ms \<longrightarrow>
       mode (plane_run t from_json p [Waited 0, Connect up]) = Online \<and>
       wires (plane_run t from_json p [Waited 0, Connect up]) = [Connected (ws_device_id t) (ws_device_name t)] # wires p \<and>
       pending (plane_run t from_json p [Waited 0, Connect up]) = map SendStatus ms)"
proof -
  have q: "\<exists>d'. mode q = Waiting d'" "pending q = []" "senders_alive q" "wires q = wires p"
    "retry q = after_delays (length statuses) (retry p)"
    unfolding assms(6) using retries_use_up [OF assms(1-4)] by blast+
  moreover have "mode (plane_run t from_json p [Waited 0, Connect up]) = Online"
    "wires (plane_run t from_json p [Waited 0, Connect up]) = [Connected (ws_device_id t) (ws_device_name t)] # wires p"
    "pending (plane_run t from_json p [Waited 0, Connect up]) = map SendStatus ms" if "statuses = m # ms" for m ms
    using assms(1,2,5) that ws_connect_hello [OF assms(5)]
    by (simp_all add: plane_run_def plane_step_def wait_step_def connect_step_def set_phase_def)
  ultimately show ?thesis using wait_without_status by blast
qed

definition offline_plane :: plane where
  "offline_plane = plane_init\<lparr>mode := Waiting 5,
     pending := [SendStatus (PhotoRequested 4 0), SendStatus (PhotoRequested 3 0)]\<rparr>"

theorem offline_statuses_are_lost_witness:
  "\<exists>q d'. q = plane_run sample_transport claim_json offline_plane (retries 2 down_io) \<and> mode q = Waiting d' \<and>
     pending q = [] \<and> wires q = [] \<and> current_delay (retry q) = from_secs 4"
proof -
  obtain e where down: "ws_connect down_io sample_transport = Inl e" using down_io_fails by blast
  have "after_delays 2 b = snd (next_delay (snd (next_delay b)))" for b
    by (simp add: numeral_2_eq_2 after_delays_def)
  then have delay: "current_delay (after_delays 2 (retry offline_plane)) = from_secs 4"
    by (simp add: offline_plane_def plane_init_def backoff_new_def next_delay_def duration_saturating_mul_def
        DURATION_MAX_def from_secs_def)
  have start: "mode offline_plane = Waiting 5" "pending offline_plane = map SendStatus [PhotoRequested 4 0, PhotoRequested 3 0]"
    "senders_alive offline_plane" "wires offline_plane = []"
    by (simp_all add: offline_plane_def)
  have "length [PhotoRequested 4 0, PhotoRequested 3 0] = 2" by simp
  from offline_statuses_are_lost [OF start(1-3) down up_io_connects refl, of claim_json, unfolded this] delay start(4)
  show ?thesis by auto
qed

section \<open>The frame comes back\<close>

text \<open>What every reachable state has: the loop's own backoff, and a delay within its bound.\<close>

definition retry_ok :: "plane \<Rightarrow> bool" where
  "retry_ok p \<longleftrightarrow>
     initial_delay (retry p) = from_secs 1 \<and> max_delay (retry p) = from_secs 30 \<and>
     current_delay (retry p) \<le> from_secs 30 \<and> (\<forall>d. mode p = Waiting d \<longrightarrow> d \<le> from_secs 30)"

lemma retry_ok_backoff: "retry_ok p \<Longrightarrow> retry_ok (enter_backoff p)"
  by (auto simp: retry_ok_def enter_backoff_def set_phase_def next_delay_def)

lemma retry_ok_simps [simp]:
  "retry_ok (set_phase ph p) = retry_ok p" "retry_ok (p\<lparr>pending := q\<rparr>) = retry_ok p"
  by (simp_all add: retry_ok_def set_phase_def)

lemma retry_ok_try_recv: "retry_ok p \<Longrightarrow> try_recv_step send p = Some p1 \<Longrightarrow> retry_ok p1"
  by (auto simp: retry_ok_def try_recv_step_def
      split: list.splits TransportCommand.splits sum.splits if_splits)

lemma retry_ok_receive: "retry_ok p \<Longrightarrow> retry_ok (receive from_json payload p)"
  by (auto simp: receive_def take_token_def retry_ok_def set_phase_def Let_def
      split: sum.split ControlEvent.split option.split)

lemma retry_ok_step: "retry_ok p \<Longrightarrow> retry_ok (plane_step t from_json p i)"
proof (cases i)
  case (Connect io)
  assume "retry_ok p"
  then show ?thesis
    using retry_ok_backoff [of "set_phase Searching p"]
    by (auto simp: Connect plane_step_def connect_step_def retry_ok_def set_phase_def backoff_reset_def
        from_secs_def split: plane_mode.split sum.split)
next
  case (Exchange send r)
  assume ok: "retry_ok p"
  then have "retry_ok (p\<lparr>pending := q\<rparr>)" for q by simp
  with ok show ?thesis
    using retry_ok_try_recv [OF ok, of send] retry_ok_backoff retry_ok_receive
    by (auto simp: Exchange plane_step_def exchange_step_def split: plane_mode.split sum.split option.split)
qed (auto simp: retry_ok_def plane_step_def wait_step_def
     split: plane_mode.splits list.splits TransportCommand.splits)

text \<open>
  C15: the frame always comes back. Whatever happened before, a control plane that has not been shut down
  is either connected, or about to connect, or waiting at most thirty seconds; and as soon as an attempt
  can succeed the next one does: it is then online under the phase \<open>AwaitingConfiguration\<close>, has sent
  its introduction, and the next outage starts again at one second.
\<close>

theorem frame_reconnects:
  assumes "p = plane_run t from_json plane_init inputs"
    and "mode p \<noteq> Stopped" and "mode p \<noteq> Online" and "senders_alive p" and "Shutdown \<notin> set (pending p)"
    and "ws_connect io t = Inr wire"
  shows "\<exists>q c. (mode p = Connecting \<and> q = plane_run t from_json p [Connect io] \<or>
               (\<exists>d \<le> from_secs 30. mode p = Waiting d \<and> q = plane_run t from_json p [Waited d, Connect io])) \<and>
    mode q = Online \<and> wires q = [Connected (ws_device_id t) (ws_device_name t)] # wires p \<and>
    controller q = Unpoisoned c \<and> ctl_phase c = AwaitingConfiguration \<and> current_delay (retry q) = from_secs 1"
proof -
  have "retry_ok p"
    unfolding assms(1) by (rule plane_run_induct)
      (auto simp: retry_ok_step, simp add: retry_ok_def plane_init_def backoff_new_def from_secs_def)
  moreover obtain c0 where c0: "controller p = Unpoisoned c0"
    unfolding assms(1) using phase_of_run [of t from_json inputs] by (auto simp: phase_matches_def)
  moreover have wire: "wire = [Connected (ws_device_id t) (ws_device_name t)]"
    using ws_connect_hello [OF assms(6)] .
  ultimately show ?thesis
    using assms(2-6)
    by (cases "mode p"; cases "pending p")
      (auto simp: plane_run_def plane_step_def wait_step_def connect_step_def set_phase_def set_controller_phase_def
        set_phase_body_def backoff_reset_def retry_ok_def split: TransportCommand.split)
qed

definition outage :: "plane_input list" where
  "outage = [Enqueue (SendStatus (PhotoRequested 4 0)), Connect down_io]"

lemma outage_run:
  "mode (plane_run sample_transport claim_json plane_init outage) = Waiting (from_secs 1) \<and>
   senders_alive (plane_run sample_transport claim_json plane_init outage) \<and>
   pending (plane_run sample_transport claim_json plane_init outage) = [SendStatus (PhotoRequested 4 0)]"
proof -
  obtain e where "ws_connect down_io sample_transport = Inl e" using down_io_fails by blast
  then show ?thesis
    by (simp add: outage_def plane_run_def plane_step_def connect_step_def enter_backoff_def set_phase_def
        next_delay_def plane_init_def backoff_new_def)
qed

theorem frame_reconnects_witness:
  "\<exists>q. q = plane_run sample_transport claim_json (plane_run sample_transport claim_json plane_init outage)
         [Waited (from_secs 1), Connect up_io] \<and> mode q = Online \<and> current_delay (retry q) = from_secs 1"
  using frame_reconnects [OF refl _ _ _ _ up_io_connects, of claim_json outage] outage_run by auto

section \<open>When a read ends\<close>

text \<open>
  C25: reading from the controller ends exactly when something decides it. Binary frames, pongs and
  answered pings are passed over without counting the time, so a read of any length made of those
  has not ended; with anything else among them it ends with the first such thing. So a peer that keeps
  the line busy with pings keeps every queued status waiting.
\<close>

theorem read_ends_iff_something_decides:
  "(read_loop rs = None \<longleftrightarrow> (\<forall>r \<in> set rs. r \<in> {ReadBinary, ReadPong, ReadFrame, ReadPing (Inr ())})) \<and>
   (\<forall>out. read_loop rs = Some out \<longrightarrow>
      (\<exists>skipped r rest. rs = skipped @ r # rest \<and> read_loop skipped = None \<and> read_loop [r] = Some out))"
proof (induction rs)
  case (Cons r rs)
  have skip: "\<exists>skipped x rest. r # rs = skipped @ x # rest \<and> read_loop skipped = None \<and> read_loop [x] = Some out"
    if skipped: "read_loop [r] = None" and later: "read_loop rs = Some out" and IH: "\<forall>out. read_loop rs = Some out \<longrightarrow>
      (\<exists>skipped r rest. rs = skipped @ r # rest \<and> read_loop skipped = None \<and> read_loop [r] = Some out)" for out
  proof -
    obtain skipped x rest where "rs = skipped @ x # rest" "read_loop skipped = None" "read_loop [x] = Some out"
      using IH later by blast
    moreover from this(2) skipped have "read_loop (r # skipped) = None"
      by (cases r) (auto split: sum.splits)
    ultimately have "r # rs = (r # skipped) @ x # rest" "read_loop (r # skipped) = None" "read_loop [x] = Some out" by simp_all
    then show ?thesis by blast
  qed
  have now: "\<exists>skipped x rest. r # rs = skipped @ x # rest \<and> read_loop skipped = None \<and> read_loop [x] = Some out"
    if "read_loop [r] = Some out" for out
    using that by (intro exI [of _ "[]"] exI [of _ r] exI [of _ rs]) simp
  show ?case
  proof (cases "read_loop [r]")
    case None
    then have "read_loop (r # rs) = read_loop rs" "r \<in> {ReadBinary, ReadPong, ReadFrame, ReadPing (Inr ())}"
      by (cases r; auto split: sum.splits)+
    with Cons.IH skip [OF None] show ?thesis by auto
  next
    case (Some out)
    then have "read_loop (r # rs) = Some out" "r \<notin> {ReadBinary, ReadPong, ReadFrame, ReadPing (Inr ())}"
      by (cases r; auto split: sum.splits)+
    with now [OF Some] show ?thesis by auto
  qed
qed simp

theorem read_ends_iff_something_decides_witness:
  "read_loop (replicate 1000 (ReadPing (Inr ()))) = None \<and> read_loop [ReadPong, ReadText ''{}'', ReadPong] = Some (Inr (Some ''{}''))"
  using read_ends_iff_something_decides [of "replicate 1000 (ReadPing (Inr ()))"] by auto

section \<open>The placeholder transport\<close>

text \<open>It always connects, never receives and drops what it is given to send.\<close>

definition noop_connect :: "OutboundStatusMessage list result" where
  "noop_connect = Inr []"

definition noop_read_message :: "string option result" where
  "noop_read_message = Inr None"

definition noop_send_status :: "OutboundStatusMessage \<Rightarrow> unit result" where
  "noop_send_status m = Inr ()"

definition noop_turn :: "(string \<Rightarrow> string + IncomingControlMessage) \<Rightarrow> plane \<Rightarrow> plane" where
  "noop_turn from_json p =
     (case mode p of
        Connecting \<Rightarrow> connect_step noop_connect p
      | Online \<Rightarrow> exchange_step from_json noop_send_status noop_read_message p
      | Waiting d \<Rightarrow> wait_step d d p
      | Stopped \<Rightarrow> p)"

lemma noop_plane_idles:
  assumes "\<forall>d. mode p \<noteq> Waiting d"
  shows "forwarded (noop_turn from_json p) = forwarded p \<and> (\<forall>d. mode (noop_turn from_json p) \<noteq> Waiting d) \<and>
    length (pending (noop_turn from_json p)) \<le> length (pending p)"
  using assms
  by (cases "mode p"; cases "pending p")
    (auto simp: noop_turn_def noop_connect_def noop_read_message_def noop_send_status_def connect_step_def
      exchange_step_def try_recv_step_def set_phase_def split: TransportCommand.split)

end
