(* ===== verification/Photo_Fit.thy ===== *)
theory Photo_Fit
  imports Rendered_Image Float_Round
begin

text \<open>
  Fitting any photo to the panel: \<open>frame-ui/src/fit.rs\<close>. The resampler of the image crate is an
  argument; \<open>f32\<close> arithmetic is \<open>Float_Round\<close> at 24 bits. The canvas is filled row by row.

  The lemmas bound the rounding: a crop always covers the panel, a letterbox never leaves it, and
  the result is always a whole panel with the scaled photo centred on black.
\<close>

section \<open>Single precision\<close>

definition f32_of :: "nat \<Rightarrow> rat" where
  "f32_of n = round_float 24 (of_nat n)"

definition f32_div :: "rat \<Rightarrow> rat \<Rightarrow> rat" where
  "f32_div a b = round_float 24 (a / b)"

definition f32_mul :: "rat \<Rightarrow> rat \<Rightarrow> rat" where
  "f32_mul a b = round_float 24 (a * b)"

text \<open>\<open>(a - b).abs()\<close>: rounding is symmetric, so the absolute value may be taken first.\<close>

definition f32_abs_diff :: "rat \<Rightarrow> rat \<Rightarrow> rat" where
  "f32_abs_diff a b = round_float 24 \<bar>a - b\<bar>"

text \<open>\<open>as u32\<close> saturates.\<close>

definition saturate_u32 :: "nat \<Rightarrow> nat" where
  "saturate_u32 n = min (2 ^ 32 - 1) n"

section \<open>Fitting\<close>

definition ASPECT_TOLERANCE :: rat where
  "ASPECT_TOLERANCE = 1 / 4"

datatype Treatment = Crop | ContainOnBlack

record RgbImage =
  img_width :: u32
  img_height :: u32
  get_pixel :: "nat \<Rightarrow> nat \<Rightarrow> u8 \<times> u8 \<times> u8"

definition treatment_for :: "nat \<Rightarrow> nat \<Rightarrow> Treatment" where
  "treatment_for src_w src_h =
     (let src_aspect = f32_div (f32_of src_w) (f32_of src_h);
          target_aspect = f32_div (f32_of PANEL_LOGICAL_WIDTH) (f32_of PANEL_LOGICAL_HEIGHT)
      in if f32_div (f32_abs_diff src_aspect target_aspect) target_aspect \<le> ASPECT_TOLERANCE
         then Crop else ContainOnBlack)"

definition scale_for :: "Treatment \<Rightarrow> nat \<Rightarrow> nat \<Rightarrow> rat" where
  "scale_for t src_w src_h =
     (let sx = f32_div (f32_of PANEL_LOGICAL_WIDTH) (f32_of src_w);
          sy = f32_div (f32_of PANEL_LOGICAL_HEIGHT) (f32_of src_h)
      in case t of Crop \<Rightarrow> max sx sy | ContainOnBlack \<Rightarrow> min sx sy)"

definition scaled_dim :: "rat \<Rightarrow> nat \<Rightarrow> nat" where
  "scaled_dim scale n = max (saturate_u32 (round_away (f32_mul (f32_of n) scale))) 1"

text \<open>Division of an \<open>i64\<close> by two, towards zero.\<close>

definition half_toward_zero :: "int \<Rightarrow> int" where
  "half_toward_zero d = (if 0 \<le> d then d div 2 else - ((- d) div 2))"

definition canvas_pixel :: "RgbImage \<Rightarrow> nat \<Rightarrow> nat \<Rightarrow> nat \<Rightarrow> nat \<Rightarrow> u8 list" where
  "canvas_pixel scaled scaled_w scaled_h dst_x dst_y =
     (let src_y = int dst_y - half_toward_zero (int PANEL_LOGICAL_HEIGHT - int scaled_h);
          src_x = int dst_x - half_toward_zero (int PANEL_LOGICAL_WIDTH - int scaled_w)
      in if src_y < 0 \<or> int scaled_h \<le> src_y then [0, 0, 0]
         else if src_x < 0 \<or> int scaled_w \<le> src_x then [0, 0, 0]
         else (case get_pixel scaled (nat src_x) (nat src_y) of (r, g, b) \<Rightarrow> [r, g, b]))"

definition canvas_of :: "RgbImage \<Rightarrow> nat \<Rightarrow> nat \<Rightarrow> u8 list" where
  "canvas_of scaled scaled_w scaled_h =
     concat (map (\<lambda>i. canvas_pixel scaled scaled_w scaled_h
                        (i mod PANEL_LOGICAL_WIDTH) (i div PANEL_LOGICAL_WIDTH))
               [0..<PANEL_LOGICAL_WIDTH * PANEL_LOGICAL_HEIGHT])"

definition fit_to_panel ::
  "(RgbImage \<Rightarrow> nat \<Rightarrow> nat \<Rightarrow> RgbImage) \<Rightarrow> RgbImage \<Rightarrow> (RenderedImage \<times> Treatment) result" where
  "fit_to_panel resize source =
     (let src_w = unat (img_width source); src_h = unat (img_height source) in
      if \<not> (0 < src_w \<and> 0 < src_h) then Inl (Msg ''image has a zero dimension'')
      else
        let t = treatment_for src_w src_h;
            scale = scale_for t src_w src_h;
            scaled_w = scaled_dim scale src_w;
            scaled_h = scaled_dim scale src_h;
            scaled = resize source scaled_w scaled_h
        in and_then (image_from_rgb8 (word_of_nat PANEL_LOGICAL_WIDTH) (word_of_nat PANEL_LOGICAL_HEIGHT)
                       (canvas_of scaled scaled_w scaled_h))
             (\<lambda>rendered. Inr (rendered, t)))"

section \<open>Rounding errors\<close>

lemma f32_of_exact: "n < 2 ^ 24 \<Longrightarrow> f32_of n = of_nat n"
  unfolding f32_of_def by (rule round_float_of_nat) simp_all

lemma round24: "0 < x \<Longrightarrow> \<bar>round_float 24 x - x\<bar> \<le> x / 16777216"
  using round_float_relative [of x 24] by (simp add: field_simps)

lemma round24_pos: "0 < x \<Longrightarrow> 0 < round_float 24 x"
  using round24 [of x] unfolding abs_le_iff by linarith

lemma round_away_ge: "of_nat n - 1 / 2 \<le> x \<Longrightarrow> n \<le> round_away x"
proof -
  assume "of_nat n - 1 / 2 \<le> x"
  then have "of_int (int n) \<le> x + 1 / 2" by simp
  then have "int n \<le> \<lfloor>x + 1 / 2\<rfloor>" by (simp only: le_floor_iff)
  then show ?thesis by (simp add: round_away_def)
qed

lemma round_away_le: "x < of_nat n + 1 / 2 \<Longrightarrow> round_away x \<le> n"
proof -
  assume "x < of_nat n + 1 / 2"
  then have "x + 1 / 2 < of_int (int n + 1)" by simp
  then have "\<lfloor>x + 1 / 2\<rfloor> < int n + 1" by (simp only: floor_less_iff)
  then show ?thesis by (simp add: round_away_def)
qed

text \<open>The scale for one dimension maps it onto the target within a fraction of a pixel.\<close>

lemma scale_times_dim:
  assumes "0 < w" "w < 2 ^ 24" "0 < n" "n < 2 ^ 12"
  shows "\<bar>of_nat w * f32_div (f32_of n) (f32_of w) - of_nat n\<bar> \<le> of_nat n / 16777216"
proof -
  let ?x = "of_nat n / of_nat w :: rat"
  have f: "f32_of n = of_nat n" "f32_of w = of_nat w" using assms by (simp_all add: f32_of_exact)
  have w: "(0::rat) < of_nat w" using assms by simp
  have "0 < ?x" using assms by simp
  from round24 [OF this] have "of_nat w * \<bar>round_float 24 ?x - ?x\<bar> \<le> of_nat w * (?x / 16777216)"
    using w by (intro mult_left_mono) simp_all
  also have "\<dots> = of_nat n / 16777216" using w by simp
  finally have "\<bar>of_nat w * (round_float 24 ?x - ?x)\<bar> \<le> of_nat n / 16777216"
    using w by (simp add: abs_mult)
  moreover have "of_nat w * (round_float 24 ?x - ?x) = of_nat w * round_float 24 ?x - of_nat n"
    using w by (simp add: right_diff_distrib)
  ultimately show ?thesis unfolding f f32_div_def by simp
qed

lemma scaled_dim_ge:
  assumes "0 < w" "w < 2 ^ 24" "0 < n" "n < 2 ^ 12" "f32_div (f32_of n) (f32_of w) \<le> scale"
  shows "n \<le> scaled_dim scale w"
proof -
  let ?y = "of_nat w * scale :: rat"
  have nn: "(1::rat) \<le> of_nat n" "(of_nat n :: rat) < 4096" using assms(3,4) by simp_all
  have "of_nat w * f32_div (f32_of n) (f32_of w) \<le> ?y" using assms(5) by (intro mult_left_mono) simp_all
  with scale_times_dim [OF assms(1-4)] have y: "of_nat n - of_nat n / 16777216 \<le> ?y"
    unfolding abs_le_iff by linarith
  then have ypos: "0 < ?y" using nn by linarith
  have "?y - ?y / 16777216 \<le> round_float 24 ?y" using round24 [OF ypos] unfolding abs_le_iff by linarith
  moreover have "of_nat n - 1 / 2 \<le> ?y - ?y / 16777216" using y nn by linarith
  ultimately have "of_nat n - 1 / 2 \<le> f32_mul (f32_of w) scale"
    using assms(2) by (simp add: f32_mul_def f32_of_exact)
  then have "n \<le> round_away (f32_mul (f32_of w) scale)" by (rule round_away_ge)
  with assms(4) show ?thesis by (simp add: scaled_dim_def saturate_u32_def)
qed

lemma scaled_dim_le:
  assumes "0 < w" "w < 2 ^ 24" "0 < n" "n < 2 ^ 12" "scale \<le> f32_div (f32_of n) (f32_of w)" "0 < scale"
  shows "scaled_dim scale w \<le> n"
proof -
  let ?y = "of_nat w * scale :: rat"
  have nn: "(1::rat) \<le> of_nat n" "(of_nat n :: rat) < 4096" using assms(3,4) by simp_all
  have "?y \<le> of_nat w * f32_div (f32_of n) (f32_of w)" using assms(5) by (intro mult_left_mono) simp_all
  with scale_times_dim [OF assms(1-4)] have y: "?y \<le> of_nat n + of_nat n / 16777216"
    unfolding abs_le_iff by linarith
  have ypos: "0 < ?y" using assms(1,6) by simp
  have "round_float 24 ?y \<le> ?y + ?y / 16777216" using round24 [OF ypos] unfolding abs_le_iff by linarith
  moreover have "?y + ?y / 16777216 < of_nat n + 1 / 2" using y nn by linarith
  ultimately have "f32_mul (f32_of w) scale < of_nat n + 1 / 2"
    using assms(2) by (simp add: f32_mul_def f32_of_exact)
  then have "round_away (f32_mul (f32_of w) scale) \<le> n" by (rule round_away_le)
  with assms(3) show ?thesis by (simp add: scaled_dim_def saturate_u32_def)
qed

lemma panel_dims: "PANEL_LOGICAL_WIDTH = 1280" "PANEL_LOGICAL_HEIGHT = 800"
  by (simp_all add: PANEL_LOGICAL_WIDTH_def PANEL_LOGICAL_HEIGHT_def)

text \<open>
  C23: a crop fills the panel and a letterbox fits it, in spite of single-precision rounding: for every
  photo of less than \<open>2 ^ 24\<close> pixels each way, a cropped photo is scaled to at least \<open>1280 x 800\<close>, so
  no bar can appear, and a letterboxed one to at most \<open>1280 x 800\<close> with one side exact, so nothing
  is cut off and the photo is as large as it can be.
\<close>

theorem crop_covers_and_letterbox_fits:
  assumes "0 < w" "w < 2 ^ 24" "0 < h" "h < 2 ^ 24"
  shows "case treatment_for w h of
      Crop \<Rightarrow> 1280 \<le> scaled_dim (scale_for Crop w h) w \<and> 800 \<le> scaled_dim (scale_for Crop w h) h
    | ContainOnBlack \<Rightarrow>
        scaled_dim (scale_for ContainOnBlack w h) w \<le> 1280 \<and> scaled_dim (scale_for ContainOnBlack w h) h \<le> 800 \<and>
        (scaled_dim (scale_for ContainOnBlack w h) w = 1280 \<or> scaled_dim (scale_for ContainOnBlack w h) h = 800)"
proof -
  let ?sx = "f32_div (f32_of 1280) (f32_of w)" and ?sy = "f32_div (f32_of 800) (f32_of h)"
  have pos: "0 < ?sx" "0 < ?sy"
    using assms by (simp_all add: f32_div_def f32_of_exact round24_pos)
  have crop: "scale_for Crop w h = max ?sx ?sy" and contain: "scale_for ContainOnBlack w h = min ?sx ?sy"
    by (simp_all add: scale_for_def panel_dims Let_def)
  have "1280 \<le> scaled_dim (max ?sx ?sy) w" "800 \<le> scaled_dim (max ?sx ?sy) h"
    using assms by (intro scaled_dim_ge; simp)+
  moreover have "scaled_dim (min ?sx ?sy) w \<le> 1280" "scaled_dim (min ?sx ?sy) h \<le> 800"
    using assms pos by (intro scaled_dim_le; simp)+
  moreover have "1280 \<le> scaled_dim (min ?sx ?sy) w" if "?sx \<le> ?sy"
    using assms that by (intro scaled_dim_ge) simp_all
  moreover have "800 \<le> scaled_dim (min ?sx ?sy) h" if "?sy \<le> ?sx"
    using assms that by (intro scaled_dim_ge) simp_all
  ultimately show ?thesis
    unfolding crop contain by (cases "?sx \<le> ?sy") (auto split: Treatment.split)
qed

text \<open>
  The choice itself: a photo at least as tall as wide is never cropped, and one whose shape is between
  \<open>13 : 10\<close> and \<open>19 : 10\<close> always is. Rounding moves neither.
\<close>

lemma round24_le: "0 < x \<Longrightarrow> x \<le> c \<Longrightarrow> round_float 24 x \<le> c + c / 16777216"
  using round24 [of x] unfolding abs_le_iff by linarith

lemma round24_ge: "0 < x \<Longrightarrow> c \<le> x \<Longrightarrow> c - c / 16777216 \<le> round_float 24 x"
  using round24 [of x] unfolding abs_le_iff by linarith

lemma round24_0 [simp]: "round_float 24 0 = 0"
  by (simp add: round_float_def)

lemma rounded_target: "\<bar>round_float 24 (8 / 5) - 8 / 5\<bar> \<le> 1 / 1000000"
  using round24 [of "8 / 5"] by simp

lemma treatment_by_aspect:
  assumes "0 < w" "w < 2 ^ 24" "0 < h" "h < 2 ^ 24"
  shows "treatment_for w h =
    (let a = round_float 24 (of_nat w / of_nat h); t = round_float 24 (8 / 5)
     in if round_float 24 (round_float 24 \<bar>a - t\<bar> / t) \<le> 1 / 4 then Crop else ContainOnBlack)"
  using assms by (simp add: treatment_for_def panel_dims f32_div_def f32_abs_diff_def f32_of_exact
      ASPECT_TOLERANCE_def Let_def)

lemma portrait_is_letterboxed:
  assumes "0 < w" "w \<le> h" "h < 2 ^ 24"
  shows "treatment_for w h = ContainOnBlack"
proof -
  let ?x = "of_nat w / of_nat h :: rat" and ?a = "round_float 24 (of_nat w / of_nat h)"
    and ?t = "round_float 24 (8 / 5)"
  have x: "0 < ?x" "?x \<le> 1" using assms by simp_all
  have a: "?a \<le> 1 + 1 / 1000000" using round24_le [OF x] by simp
  have t: "8 / 5 - 1 / 1000000 \<le> ?t" "?t \<le> 8 / 5 + 1 / 1000000"
    using rounded_target unfolding abs_le_iff by linarith+
  define y where "y = \<bar>?a - ?t\<bar>"
  have y: "59 / 100 \<le> y" using a t unfolding y_def by linarith
  then have "58 / 100 \<le> round_float 24 y" using round24 [of y] unfolding abs_le_iff by linarith
  define d where "d = round_float 24 y / ?t"
  have "3 / 10 \<le> d" unfolding d_def using \<open>58 / 100 \<le> _\<close> t by (simp add: le_divide_eq)
  then have "1 / 4 < round_float 24 d" using round24 [of d] unfolding abs_le_iff by linarith
  then show ?thesis using assms by (simp add: treatment_by_aspect Let_def d_def y_def)
qed

lemma landscape_is_cropped:
  assumes "0 < w" "w < 2 ^ 24" "0 < h" "h < 2 ^ 24" and "13 * h \<le> 10 * w" "10 * w \<le> 19 * h"
  shows "treatment_for w h = Crop"
proof -
  let ?x = "of_nat w / of_nat h :: rat" and ?a = "round_float 24 (of_nat w / of_nat h)"
    and ?t = "round_float 24 (8 / 5)"
  have "of_nat (13 * h) \<le> (of_nat (10 * w) :: rat)" "of_nat (10 * w) \<le> (of_nat (19 * h) :: rat)"
    using assms by (simp_all only: of_nat_le_iff)
  then have x: "0 < ?x" "13 / 10 \<le> ?x" "?x \<le> 19 / 10"
    using assms by (simp_all add: le_divide_eq divide_le_eq)
  have a: "13 / 10 - 1 / 1000000 \<le> ?a" "?a \<le> 19 / 10 + 1 / 1000000"
    using round24_ge [OF x(1,2)] round24_le [OF x(1,3)] by simp_all
  have t: "8 / 5 - 1 / 1000000 \<le> ?t" "?t \<le> 8 / 5 + 1 / 1000000"
    using rounded_target unfolding abs_le_iff by linarith+
  define y where "y = \<bar>?a - ?t\<bar>"
  have y: "y \<le> 31 / 100" "0 \<le> y" using a t unfolding y_def by linarith+
  have "round_float 24 y \<le> 32 / 100" using round24_le [of y "31 / 100"] y by (cases "y = 0") simp_all
  moreover have "0 \<le> round_float 24 y" using round24_pos [of y] y by (cases "y = 0") simp_all
  ultimately have d: "round_float 24 y / ?t \<le> 21 / 100" "0 \<le> round_float 24 y / ?t"
    using t by (simp_all add: divide_le_eq)
  define d where "d = round_float 24 y / ?t"
  have "round_float 24 d \<le> 1 / 4"
    using round24_le [of d "21 / 100"] d unfolding d_def [symmetric] by (cases "d = 0") simp_all
  then show ?thesis using assms by (simp add: treatment_by_aspect Let_def d_def y_def)
qed

theorem crop_covers_and_letterbox_fits_witness:
  "scaled_dim (scale_for ContainOnBlack 3024 4032) 3024 \<le> 1280 \<and>
   scaled_dim (scale_for ContainOnBlack 3024 4032) 4032 \<le> 800 \<and>
   1280 \<le> scaled_dim (scale_for Crop 6000 4000) 6000"
  using crop_covers_and_letterbox_fits [of 3024 4032] crop_covers_and_letterbox_fits [of 6000 4000]
  by (simp add: portrait_is_letterboxed landscape_is_cropped)

section \<open>The fitted photo\<close>

lemma length_canvas_pixel [simp]: "length (canvas_pixel scaled sw sh x y) = 3"
  by (simp add: canvas_pixel_def Let_def split: prod.split)

lemma chunks_concat: "(\<And>i. length (f i) = 3) \<Longrightarrow> chunks_exact 3 (concat (map f xs)) = map f xs"
  by (induction xs) (simp_all add: chunks_exact_append)

lemma length_concat_3: "(\<And>i. length (f i) = 3) \<Longrightarrow> length (concat (map f xs)) = 3 * length xs"
  by (induction xs) simp_all

lemma canvas_chunks: "chunks_exact 3 (canvas_of scaled sw sh) =
    map (\<lambda>i. canvas_pixel scaled sw sh (i mod 1280) (i div 1280)) [0..<1280 * 800]"
  unfolding canvas_of_def panel_dims by (rule chunks_concat, rule length_canvas_pixel)

lemma length_canvas: "length (canvas_of scaled sw sh) = 3 * (1280 * 800)"
  unfolding canvas_of_def panel_dims
  by (subst length_concat_3, rule length_canvas_pixel) (simp only: length_upt diff_zero)

definition panel_pixel :: "u8 list \<Rightarrow> u16" where
  "panel_pixel px = pack565 (px ! 0) (px ! 1) (px ! 2)"

lemma canvas_image:
  "image_from_rgb8 (word_of_nat PANEL_LOGICAL_WIDTH) (word_of_nat PANEL_LOGICAL_HEIGHT) (canvas_of scaled sw sh) =
   Inr \<lparr>width = 1280, height = 800,
        rgb565 = map (\<lambda>i. panel_pixel (canvas_pixel scaled sw sh (i mod 1280) (i div 1280))) [0..<1280 * 800],
        image_id = None\<rparr>"
  by (simp add: image_from_rgb8_def image_new_def panel_dims usize_mul_def usize_limit_def length_canvas
      canvas_chunks panel_pixel_def Let_def del: upt_Suc upt_rec_numeral)

text \<open>Fitting in one equation, for sources with no zero side.\<close>

lemma fit_to_panel_eq:
  fixes source resize
  defines "t \<equiv> treatment_for (unat (img_width source)) (unat (img_height source))"
  defines "sw \<equiv> scaled_dim (scale_for t (unat (img_width source)) (unat (img_height source))) (unat (img_width source))"
    and "sh \<equiv> scaled_dim (scale_for t (unat (img_width source)) (unat (img_height source))) (unat (img_height source))"
  assumes "0 < unat (img_width source)" and "0 < unat (img_height source)"
  shows "fit_to_panel resize source =
    Inr (\<lparr>width = 1280, height = 800,
          rgb565 = map (\<lambda>i. panel_pixel (canvas_pixel (resize source sw sh) sw sh (i mod 1280) (i div 1280)))
                     [0..<1280 * 800], image_id = None\<rparr>, t)"
  using assms by (simp add: fit_to_panel_def canvas_image Let_def del: upt_Suc upt_rec_numeral)

lemma fit_to_panel_ok:
  "0 < unat (img_width source) \<Longrightarrow> 0 < unat (img_height source) \<Longrightarrow> \<exists>r. fit_to_panel resize source = Inr r"
  unfolding fit_to_panel_eq by blast

lemma fit_to_panel_length:
  assumes "0 < unat (img_width source)" "0 < unat (img_height source)" "fit_to_panel resize source = Inr (img, t)"
  shows "length (rgb565 img) = 1280 * 800"
proof -
  have len: "length (map f [0..<1280 * 800]) = 1280 * 800" for f :: "nat \<Rightarrow> u16"
    by (simp only: length_map length_upt diff_zero)
  show ?thesis using assms(3) unfolding fit_to_panel_eq [OF assms(1,2)]
    by (auto simp only: sum.inject prod.inject RenderedImage.simps len)
qed

text \<open>
  The same pixel said without the code's canvas: the offset that halves what the photo leaves over, and the
  colour of a pixel as a number.
\<close>

lemma offset_bounds:
  "\<bar>d - 2 * half_toward_zero d\<bar> \<le> 1 \<and> \<bar>2 * half_toward_zero d\<bar> \<le> \<bar>d\<bar>"
  by (auto simp: half_toward_zero_def)

lemma panel_pixel_value:
  "unat (panel_pixel [0, 0, 0]) = 0"
  "unat (panel_pixel [r, g, b]) = unat r div 8 * 2048 + unat g div 4 * 32 + unat b div 8"
  by (simp_all add: panel_pixel_def unat_pack565)

text \<open>
  C24: a photo of any size becomes a whole panel, centred on black. If neither side is zero, fitting succeeds
  whatever the resampler returns, and the result has exactly \<open>1280 * 800\<close> pixels. The resampled photo is
  placed at \<open>ox\<close>, \<open>oy\<close>, which leave as much over (or cut off as much) on one side as on the other, up to one
  pixel: every pixel inside it is the resampled photo's pixel there, with five bits of red, six of green and
  five of blue, and every pixel outside it is black.
\<close>

theorem fitted_photo_is_a_whole_panel:
  assumes "0 < unat (img_width source)" and "0 < unat (img_height source)"
  shows "\<exists>img t sw sh ox oy.
    fit_to_panel resize source = Inr (img, t) \<and> length (rgb565 img) = 1280 * 800 \<and>
    t = treatment_for (unat (img_width source)) (unat (img_height source)) \<and>
    sw = scaled_dim (scale_for t (unat (img_width source)) (unat (img_height source))) (unat (img_width source)) \<and>
    sh = scaled_dim (scale_for t (unat (img_width source)) (unat (img_height source))) (unat (img_height source)) \<and>
    \<bar>(1280 - int sw) - 2 * ox\<bar> \<le> 1 \<and> \<bar>2 * ox\<bar> \<le> \<bar>1280 - int sw\<bar> \<and>
    \<bar>(800 - int sh) - 2 * oy\<bar> \<le> 1 \<and> \<bar>2 * oy\<bar> \<le> \<bar>800 - int sh\<bar> \<and>
    (\<forall>x < 1280. \<forall>y < 800. unat (rgb565 img ! (y * 1280 + x)) =
       (if ox \<le> int x \<and> int x < ox + int sw \<and> oy \<le> int y \<and> int y < oy + int sh
        then case get_pixel (resize source sw sh) (nat (int x - ox)) (nat (int y - oy)) of
               (r, g, b) \<Rightarrow> unat r div 8 * 2048 + unat g div 4 * 32 + unat b div 8
        else 0))"
proof -
  let ?w = "unat (img_width source)" and ?h = "unat (img_height source)"
  let ?t = "treatment_for ?w ?h"
  let ?sw = "scaled_dim (scale_for ?t ?w ?h) ?w" and ?sh = "scaled_dim (scale_for ?t ?w ?h) ?h"
  let ?px = "\<lambda>i. panel_pixel (canvas_pixel (resize source ?sw ?sh) ?sw ?sh (i mod 1280) (i div 1280))"
  let ?ox = "half_toward_zero (1280 - int ?sw)" and ?oy = "half_toward_zero (800 - int ?sh)"
  let ?img = "\<lparr>width = 1280, height = 800, rgb565 = map ?px [0..<1280 * 800], image_id = None\<rparr>"
  have fits: "fit_to_panel resize source = Inr (?img, ?t)" by (rule fit_to_panel_eq [OF assms])
  have pixel: "unat (rgb565 ?img ! (y * 1280 + x)) =
       (if ?ox \<le> int x \<and> int x < ?ox + int ?sw \<and> ?oy \<le> int y \<and> int y < ?oy + int ?sh
        then case get_pixel (resize source ?sw ?sh) (nat (int x - ?ox)) (nat (int y - ?oy)) of
               (r, g, b) \<Rightarrow> unat r div 8 * 2048 + unat g div 4 * 32 + unat b div 8
        else 0)" if "x < 1280" "y < 800" for x y
  proof -
    have "y * 1280 + x < 1280 * 800" using that by linarith
    then have "rgb565 ?img ! (y * 1280 + x) = panel_pixel (canvas_pixel (resize source ?sw ?sh) ?sw ?sh x y)"
      using that by (simp del: upt_Suc upt_rec_numeral)
    then show ?thesis by (auto simp: canvas_pixel_def panel_dims panel_pixel_value Let_def split: prod.split)
  qed
  have "length (rgb565 ?img) = 1280 * 800" by (rule fit_to_panel_length [OF assms fits])
  note parts = fits this refl refl refl offset_bounds [THEN conjunct1] offset_bounds [THEN conjunct2]
    offset_bounds [THEN conjunct1] offset_bounds [THEN conjunct2]
  show ?thesis by (intro exI conjI allI impI) (rule parts pixel | assumption)+
qed

definition tiny_source :: RgbImage where
  "tiny_source = \<lparr>img_width = 2, img_height = 2, get_pixel = (\<lambda>x y. (255, 255, 255))\<rparr>"

theorem fitted_photo_is_a_whole_panel_witness:
  "\<exists>img t. fit_to_panel (\<lambda>s w h. s) tiny_source = Inr (img, t) \<and> length (rgb565 img) = 1280 * 800"
  using fitted_photo_is_a_whole_panel [of tiny_source "\<lambda>s w h. s"] by (auto simp: tiny_source_def)

end
