(* ===== verification/Local_Photos.thy ===== *)
theory Local_Photos
  imports Photo_Fit Sd_Card Frame_Text
begin

text \<open>
  The slideshow from the owner's folder: \<open>frame-ui/src/local_photos.rs\<close>.

  A path is the folder, a slash and a file name; names are UTF-8, so \<open>to_str\<close> is the identity, and
  paths of one folder compare as their names do. What the folder lists, and what opening,
  identifying and decoding a file give, are arguments. One iteration of the endless loop is
  \<open>slideshow_step\<close>; a run is a list of iterations, each with the decoder it meets.

  The lemmas show what is indexed, that the loop takes the photos in turn and never spins, and what it
  does to the photo store.
\<close>

section \<open>Indexing\<close>

definition eq_ignore_ascii_case :: "string \<Rightarrow> string \<Rightarrow> bool" where
  "eq_ignore_ascii_case a b \<longleftrightarrow> to_ascii_lowercase a = to_ascii_lowercase b"

definition file_name :: "string \<Rightarrow> string" where
  "file_name path = rev (takeWhile (\<lambda>c. c \<noteq> CHR ''/'') (rev path))"

definition SUPPORTED_EXTENSIONS :: "string list" where
  "SUPPORTED_EXTENSIONS = [''jpg'', ''jpeg'', ''png'']"

definition MAX_PHOTOS :: nat where
  "MAX_PHOTOS = 5000"

record LocalLibrary =
  lib_photos :: "string list"
  lib_skipped :: nat

definition library_default :: LocalLibrary where
  "library_default = \<lparr>lib_photos = [], lib_skipped = 0\<rparr>"

definition lib_is_empty :: "LocalLibrary \<Rightarrow> bool" where
  "lib_is_empty lib \<longleftrightarrow> lib_photos lib = []"

definition lib_len :: "LocalLibrary \<Rightarrow> nat" where
  "lib_len lib = length (lib_photos lib)"

definition summary :: "LocalLibrary \<Rightarrow> string" where
  "summary lib =
     (let found = length (lib_photos lib); skipped = lib_skipped lib in
      if found = 0 then
        (if skipped = 0 then ''no photos on card''
         else show_nat skipped @ '' file(s) on card, none readable'')
      else if skipped = 0 then show_nat found @ '' photo(s) on card''
      else show_nat found @ '' photo(s) on card, '' @ show_nat skipped @ '' unreadable'')"

definition is_supported :: "string \<Rightarrow> bool" where
  "is_supported path =
     (case extension (file_name path) of
        None \<Rightarrow> False
      | Some ext \<Rightarrow> to_ascii_lowercase ext \<in> set SUPPORTED_EXTENSIONS)"

definition is_readme :: "string \<Rightarrow> bool" where
  "is_readme path =
     (case extension (file_name path) of None \<Rightarrow> False | Some ext \<Rightarrow> eq_ignore_ascii_case ext ''txt'')"

text \<open>One listed entry: unreadable, or a name and whether it is a plain file.\<close>

type_synonym dir_entry = "(string \<times> bool) result"

definition index_entry :: "string \<Rightarrow> LocalLibrary \<Rightarrow> dir_entry \<Rightarrow> LocalLibrary" where
  "index_entry dir lib entry =
     (case entry of
        Inl _ \<Rightarrow> lib
      | Inr (name, is_file) \<Rightarrow>
          (let path = dir @ ''/'' @ name in
           if \<not> is_file then lib
           else if is_supported path then
             (if length (lib_photos lib) < MAX_PHOTOS then lib\<lparr>lib_photos := lib_photos lib @ [path]\<rparr> else lib)
           else if \<not> is_readme path then lib\<lparr>lib_skipped := lib_skipped lib + 1\<rparr>
           else lib))"

definition scan_local_photos :: "(string \<Rightarrow> dir_entry list result) \<Rightarrow> string \<Rightarrow> LocalLibrary" where
  "scan_local_photos read_dir dir =
     (case read_dir dir of
        Inl _ \<Rightarrow> library_default
      | Inr listed \<Rightarrow>
          (let lib = foldl (index_entry dir) library_default listed
           in lib\<lparr>lib_photos := sort (lib_photos lib)\<rparr>))"

section \<open>Decoding\<close>

text \<open>The image crate: a handle for an opened file, its format guessed, and the decoded pixels.\<close>

record 'h image_reader =
  open_image :: "string \<Rightarrow> 'h result"
  guess_format :: "'h \<Rightarrow> 'h result"
  decode_rgb8 :: "'h \<Rightarrow> RgbImage result"
  resize_image :: "RgbImage \<Rightarrow> nat \<Rightarrow> nat \<Rightarrow> RgbImage"

definition load_photo :: "'h image_reader \<Rightarrow> string \<Rightarrow> RenderedImage result" where
  "load_photo rd path =
     and_then (with_context (''could not open '' @ path) (open_image rd path)) (\<lambda>opened.
     and_then (with_context (''could not identify '' @ path) (guess_format rd opened)) (\<lambda>identified.
     and_then (with_context (''could not decode '' @ path) (decode_rgb8 rd identified)) (\<lambda>decoded.
     and_then (fit_to_panel (resize_image rd) decoded) (\<lambda>(img, treatment). Inr img))))"

section \<open>The slideshow\<close>

definition ROTATION_INTERVAL :: nat where
  "ROTATION_INTERVAL = 30"

record slideshow =
  index :: nat
  consecutive_failures :: nat

definition slideshow_init :: slideshow where
  "slideshow_init = \<lparr>index = 0, consecutive_failures = 0\<rparr>"

text \<open>One iteration: the path tried, the seconds slept, and the new state and store.\<close>

definition slideshow_step ::
  "LocalLibrary \<Rightarrow> 'h image_reader \<Rightarrow> slideshow \<times> store mutex \<Rightarrow> (string \<times> nat) \<times> slideshow \<times> store mutex" where
  "slideshow_step lib rd state =
     (let (sl, m) = state;
          path = lib_photos lib ! (index sl mod lib_len lib);
          sl1 = sl\<lparr>index := (index sl + 1) mod usize_limit\<rparr>
      in case load_photo rd path of
           Inr img \<Rightarrow>
             ((path, ROTATION_INTERVAL), sl1\<lparr>consecutive_failures := 0\<rparr>, snd (push_rendered_image img m))
         | Inl _ \<Rightarrow>
             (let failures = consecutive_failures sl1 + 1 in
              if lib_len lib \<le> failures then ((path, 60), sl1\<lparr>consecutive_failures := 0\<rparr>, m)
              else ((path, 0), sl1\<lparr>consecutive_failures := failures\<rparr>, m)))"

fun slideshow_run ::
  "LocalLibrary \<Rightarrow> 'h image_reader list \<Rightarrow> slideshow \<times> store mutex \<Rightarrow> (string \<times> nat) list \<times> slideshow \<times> store mutex" where
  "slideshow_run lib [] state = ([], state)"
| "slideshow_run lib (rd # rds) state =
     (let (did, state1) = slideshow_step lib rd state;
          (later, state2) = slideshow_run lib rds state1
      in (did # later, state2))"

text \<open>The thread's first \<open>n\<close> iterations; with no photo it returns at once.\<close>

definition run_local_slideshow ::
  "LocalLibrary \<Rightarrow> 'h image_reader list \<Rightarrow> store mutex \<Rightarrow> (string \<times> nat) list \<times> store mutex" where
  "run_local_slideshow lib rds m =
     (if lib_is_empty lib then ([], m)
      else (let (did, sl, m') = slideshow_run lib rds (slideshow_init, m) in (did, m')))"

section \<open>What is indexed\<close>

text \<open>The plain files of a listing, and which of them count.\<close>

definition plain_files :: "string \<Rightarrow> dir_entry list \<Rightarrow> string list" where
  "plain_files dir listed =
     List.map_filter (\<lambda>e. case e of Inl _ \<Rightarrow> None
        | Inr (name, is_file) \<Rightarrow> if is_file then Some (dir @ ''/'' @ name) else None) listed"

lemma plain_files_simps [simp]:
  "plain_files dir [] = []"
  "plain_files dir (Inl e # es) = plain_files dir es"
  "plain_files dir (Inr (name, is_file) # es) =
     (if is_file then (dir @ ''/'' @ name) # plain_files dir es else plain_files dir es)"
  by (simp_all add: plain_files_def List.map_filter_simps)

lemma index_entries:
  "length (lib_photos lib) \<le> MAX_PHOTOS \<Longrightarrow>
   foldl (index_entry dir) lib listed =
     lib\<lparr>lib_photos := take MAX_PHOTOS (lib_photos lib @ filter is_supported (plain_files dir listed)),
         lib_skipped := lib_skipped lib +
           length (filter (\<lambda>p. \<not> is_supported p \<and> \<not> is_readme p) (plain_files dir listed))\<rparr>"
proof (induction listed arbitrary: lib)
  case Nil
  then show ?case by simp
next
  case (Cons e es)
  show ?case
  proof (cases e)
    case (Inl _)
    with Cons show ?thesis by (simp add: index_entry_def)
  next
    case (Inr f)
    obtain name is_file where f: "f = (name, is_file)" by force
    have "length (lib_photos (index_entry dir lib e)) \<le> MAX_PHOTOS"
      using Cons.prems by (simp add: Inr f index_entry_def Let_def)
    from Cons.IH [OF this] show ?thesis
      using Cons.prems by (auto simp: Inr f index_entry_def take_Cons' Let_def)
  qed
qed

text \<open>
  The index is exactly the photos of the folder. A folder that cannot be read is an empty
  library; otherwise the library holds the first \<open>5000\<close> plain files named \<open>.jpg\<close>, \<open>.jpeg\<close> or \<open>.png\<close> in
  any case, sorted, with nothing else and nothing twice unless listed twice, and counts as skipped
  exactly the plain files that are neither a photo nor a text note.
\<close>

theorem index_is_the_photos_of_the_folder:
  "scan_local_photos read_dir dir =
     (case read_dir dir of
        Inl _ \<Rightarrow> \<lparr>lib_photos = [], lib_skipped = 0\<rparr>
      | Inr listed \<Rightarrow>
          \<lparr>lib_photos = sort (take 5000 (filter is_supported (plain_files dir listed))),
           lib_skipped = length (filter (\<lambda>p. \<not> (is_supported p \<or> is_readme p)) (plain_files dir listed))\<rparr>)"
  by (simp add: scan_local_photos_def index_entries library_default_def MAX_PHOTOS_def Let_def
      split: sum.split)

text \<open>Lower-casing makes the extension test insensitive to case, and hidden names have none.\<close>

lemma supported_examples:
  "is_supported ''/sdcard/media/Beach.JPG''" "is_supported ''/sdcard/media/a.b.jpeg''"
  "\<not> is_supported ''/sdcard/media/IMG_1.HEIC''" "\<not> is_supported ''/sdcard/media/.png''"
  "is_readme ''/sdcard/media/READ ME.txt''" "is_readme (MEDIA_DIR @ ''/'' @ MEDIA_README_NAME)"
  by code_simp+

section \<open>The loop never spins\<close>

lemma slideshow_step_failures:
  assumes "slideshow_step lib rd (sl, m) = ((path, slept), sl', m')" and "consecutive_failures sl < lib_len lib"
  shows "consecutive_failures sl' < lib_len lib \<and>
    30 * (1 + consecutive_failures sl) \<le> 30 * consecutive_failures sl' + lib_len lib * slept"
  using assms by (auto simp: slideshow_step_def Let_def ROTATION_INTERVAL_def split: sum.splits if_splits)

lemma slideshow_step_path:
  "slideshow_step lib rd (sl, m) = ((path, slept), sl', m') \<Longrightarrow>
   path = lib_photos lib ! (index sl mod lib_len lib) \<and> index sl' = (index sl + 1) mod usize_limit"
  by (auto simp: slideshow_step_def Let_def split: sum.splits if_splits)

lemma slideshow_run_failures:
  "slideshow_run lib rds (sl, m) = (did, sl', m') \<Longrightarrow> consecutive_failures sl < lib_len lib \<Longrightarrow>
   consecutive_failures sl' < lib_len lib \<and>
   30 * (length rds + consecutive_failures sl) \<le>
     30 * consecutive_failures sl' + lib_len lib * sum_list (map snd did)"
proof (induction rds arbitrary: sl m did)
  case Nil
  then show ?case by simp
next
  case (Cons rd rds)
  obtain path slept sl1 m1 where one: "slideshow_step lib rd (sl, m) = ((path, slept), sl1, m1)"
    by (metis prod.exhaust)
  obtain later where rest: "slideshow_run lib rds (sl1, m1) = (later, sl', m')" and did: "did = (path, slept) # later"
    using Cons.prems(1) one by (auto simp: Let_def split: prod.splits)
  show ?case
    using slideshow_step_failures [OF one Cons.prems(2)] Cons.IH [OF rest]
    by (simp add: did distrib_left)
qed

lemma slideshow_run_paths:
  "slideshow_run lib rds (sl, m) = (did, sl', m') \<Longrightarrow> index sl = n mod usize_limit \<Longrightarrow>
   map fst did = map (\<lambda>i. lib_photos lib ! (i mod usize_limit mod lib_len lib)) [n..<n + length rds]"
proof (induction rds arbitrary: sl m did n)
  case Nil
  then show ?case by simp
next
  case (Cons rd rds)
  obtain path slept sl1 m1 where one: "slideshow_step lib rd (sl, m) = ((path, slept), sl1, m1)"
    by (metis prod.exhaust)
  obtain later where rest: "slideshow_run lib rds (sl1, m1) = (later, sl', m')" and did: "did = (path, slept) # later"
    using Cons.prems(1) one by (auto simp: Let_def split: prod.splits)
  have "index sl1 = Suc n mod usize_limit"
    using slideshow_step_path [OF one] Cons.prems(2) by (simp add: mod_Suc_eq)
  note IH = Cons.IH [OF rest this]
  have "[n..<n + length (rd # rds)] = n # [Suc n..<Suc n + length rds]"
    by (simp add: upt_conv_Cons del: upt_Suc)
  with IH show ?case
    using slideshow_step_path [OF one] Cons.prems(2) by (simp add: did del: upt_Suc)
qed

text \<open>
  C33: the slideshow takes every photo in turn and never spins. Iteration \<open>i\<close> tries photo
  \<open>i mod 2 ^ 32 mod L\<close> of the \<open>L\<close> in the library whether or not earlier ones could be decoded, and the
  thread sleeps more than \<open>30 * (n / L - 1)\<close> seconds over \<open>n\<close> iterations, whatever the files do: a folder of
  undecodable files does not keep the processor busy.
\<close>

theorem slideshow_never_spins:
  assumes "lib_photos lib \<noteq> []" and "run_local_slideshow lib rds m = (did, m')"
  shows "30 * length rds < lib_len lib * (sum_list (map snd did) + 30) \<and>
    map fst did = map (\<lambda>i. lib_photos lib ! (i mod 2 ^ 32 mod lib_len lib)) [0..<length rds]"
proof -
  obtain sl where run: "slideshow_run lib rds (slideshow_init, m) = (did, sl, m')"
    using assms by (auto simp: run_local_slideshow_def lib_is_empty_def Let_def split: prod.splits)
  have some: "0 < lib_len lib" using assms(1) by (simp add: lib_len_def)
  have "consecutive_failures sl < lib_len lib"
    "30 * length rds \<le> 30 * consecutive_failures sl + lib_len lib * sum_list (map snd did)"
    using slideshow_run_failures [OF run] some by (simp_all add: slideshow_init_def)
  moreover have "map fst did = map (\<lambda>i. lib_photos lib ! (i mod 2 ^ 32 mod lib_len lib)) [0..<length rds]"
    using slideshow_run_paths [OF run, of 0] by (simp add: slideshow_init_def usize_limit_def)
  ultimately show ?thesis by (simp add: distrib_left)
qed

definition broken_reader :: "unit image_reader" where
  "broken_reader = \<lparr>open_image = (\<lambda>p. Inl (Msg ''gone'')), guess_format = (\<lambda>h. Inl (Msg [])),
     decode_rgb8 = (\<lambda>h. Inl (Msg [])), resize_image = (\<lambda>img w h. img)\<rparr>"

definition two_photos :: LocalLibrary where
  "two_photos = \<lparr>lib_photos = [''/sdcard/media/a.jpg'', ''/sdcard/media/b.jpg''], lib_skipped = 0\<rparr>"

lemma broken_run:
  "run_local_slideshow two_photos [broken_reader, broken_reader, broken_reader] Poisoned =
     ([(''/sdcard/media/a.jpg'', 0), (''/sdcard/media/b.jpg'', 60), (''/sdcard/media/a.jpg'', 0)], Poisoned)"
  by (simp add: run_local_slideshow_def two_photos_def lib_is_empty_def lib_len_def slideshow_init_def
      slideshow_step_def load_photo_def broken_reader_def usize_limit_def Let_def)

theorem slideshow_never_spins_witness:
  "30 * length [broken_reader, broken_reader, broken_reader] < lib_len two_photos * (60 + 30)"
  using slideshow_never_spins [OF _ broken_run] by (simp add: two_photos_def)

section \<open>What the slideshow shows\<close>

lemma loaded_photo_is_a_panel:
  assumes "load_photo rd path = Inr img" shows "length (rgb565 img) = 1280 * 800"
proof -
  obtain decoded t where fit: "fit_to_panel (resize_image rd) decoded = Inr (img, t)"
    using assms by (auto simp: load_photo_def and_then_Inr)
  then have "0 < unat (img_width decoded)" "0 < unat (img_height decoded)"
    by (auto simp: fit_to_panel_def Let_def split: if_splits)
  from fit_to_panel_length [OF this fit] show ?thesis .
qed

lemma slideshow_push_keeps_front:
  "push_rendered_image img (Unpoisoned s) = (r, m') \<Longrightarrow> front s = Some shown \<Longrightarrow>
   \<exists>s'. m' = Unpoisoned s' \<and> front s' = Some shown \<and> generation s' = generation s"
  by (cases "buffer s") (auto simp: push_rendered_image_def push_body_def make_room_def front_def
      BUFFER_CAPACITY_def Let_def split: if_splits)

lemma slideshow_run_keeps_front:
  "slideshow_run lib rds (sl, Unpoisoned s) = (did, sl', m') \<Longrightarrow> front s = Some shown \<Longrightarrow>
   \<exists>s'. m' = Unpoisoned s' \<and> front s' = Some shown \<and> generation s' = generation s"
proof (induction rds arbitrary: sl s did)
  case Nil
  then show ?case by auto
next
  case (Cons rd rds)
  obtain path slept sl1 m1 where one: "slideshow_step lib rd (sl, Unpoisoned s) = ((path, slept), sl1, m1)"
    by (metis prod.exhaust)
  obtain later where rest: "slideshow_run lib rds (sl1, m1) = (later, sl', m')"
    using Cons.prems(1) one by (auto simp: Let_def split: prod.splits)
  have "m1 = Unpoisoned s \<or> (\<exists>img. m1 = snd (push_rendered_image img (Unpoisoned s)))"
    using one by (auto simp: slideshow_step_def Let_def split: sum.splits if_splits)
  then obtain s1 where s1: "m1 = Unpoisoned s1" "front s1 = Some shown" "generation s1 = generation s"
    using slideshow_push_keeps_front [OF surjective_pairing Cons.prems(2)] Cons.prems(2) by auto
  from Cons.IH [OF rest [unfolded s1(1)] s1(2)] s1(3) show ?case by simp
qed

text \<open>
  C32: the slideshow on its own never changes the picture. The loop only queues what it decodes, and
  queueing behind a photo on screen neither shows nor advances anything: once a picture is up, any
  number of iterations later the same picture is up, with the same generation, so the panel is not even
  redrawn. Only others move it on: a tap, a command, or the five-minute rotation of a frame whose controller is away.
\<close>

theorem slideshow_never_changes_the_picture:
  assumes "front s = Some shown" and "run_local_slideshow lib rds (Unpoisoned s) = (did, m')"
  shows "\<exists>s'. m' = Unpoisoned s' \<and> front s' = Some shown \<and> generation s' = generation s"
proof (cases "lib_is_empty lib")
  case True
  with assms show ?thesis by (auto simp: run_local_slideshow_def)
next
  case False
  then obtain sl where "slideshow_run lib rds (slideshow_init, Unpoisoned s) = (did, sl, m')"
    using assms(2) by (auto simp: run_local_slideshow_def Let_def split: prod.splits)
  from slideshow_run_keeps_front [OF this assms(1)] show ?thesis .
qed

definition working_reader :: "unit image_reader" where
  "working_reader = \<lparr>open_image = (\<lambda>p. Inr ()), guess_format = Inr,
     decode_rgb8 = (\<lambda>h. Inr tiny_source), resize_image = (\<lambda>img w h. img)\<rparr>"

definition one_photo_store :: store where
  "one_photo_store = \<lparr>buffer = [\<lparr>width = 1, height = 1, rgb565 = [7], image_id = Some ''x''\<rparr>], generation = 4\<rparr>"

lemma working_reader_loads: "\<exists>img. load_photo working_reader path = Inr img"
  using fit_to_panel_ok [of tiny_source "\<lambda>img w h. img"]
  by (auto simp: load_photo_def working_reader_def tiny_source_def)

theorem slideshow_never_changes_the_picture_witness:
  "is_ok (load_photo working_reader ''/sdcard/media/a.jpg'') \<and>
   (\<exists>s'. snd (run_local_slideshow two_photos (replicate 10 working_reader) (Unpoisoned one_photo_store)) =
       Unpoisoned s' \<and> map rgb565 (take 1 (buffer s')) = [[7]] \<and> generation s' = 4)"
proof -
  have ok: "is_ok (load_photo working_reader ''/sdcard/media/a.jpg'')"
    using working_reader_loads [of "''/sdcard/media/a.jpg''"] by (simp add: is_ok_iff)
  have "front one_photo_store = Some \<lparr>width = 1, height = 1, rgb565 = [7], image_id = Some ''x''\<rparr>"
    by (simp add: one_photo_store_def front_def)
  from slideshow_never_changes_the_picture [OF this surjective_pairing]
  obtain s' where "snd (run_local_slideshow two_photos (replicate 10 working_reader) (Unpoisoned one_photo_store)) =
      Unpoisoned s'" "front s' = Some \<lparr>width = 1, height = 1, rgb565 = [7], image_id = Some ''x''\<rparr>" "generation s' = 4"
    by (fastforce simp: one_photo_store_def)
  with ok show ?thesis by (auto simp: front_def split: list.splits)
qed

end
