(* ===== verification/Panel_Display.thy ===== *)
theory Panel_Display
  imports Rendered_Image
begin

text \<open>
  \<open>packages/frame-ui/src/panel.rs\<close>: the landscape canvas, its rotation into the portrait panel and
  the transfer to the glass. The outcome of the display driver's \<open>draw_bitmap\<close> and of setting the
  backlight is a parameter of the call; \<open>glass\<close> is what the driver last transferred.
\<close>

definition PANEL_WIDTH :: nat where
  "PANEL_WIDTH = 800"

definition PANEL_HEIGHT :: nat where
  "PANEL_HEIGHT = 1280"

abbreviation WIDTH :: nat where
  "WIDTH \<equiv> PANEL_LOGICAL_WIDTH"

abbreviation HEIGHT :: nat where
  "HEIGHT \<equiv> PANEL_LOGICAL_HEIGHT"

record Panel =
  canvas :: "u16 list"
  rotated :: "u16 list"
  glass :: "u16 list"

text \<open>A panel once the driver is up: both buffers are all zero.\<close>

definition panel_init :: Panel where
  "panel_init = \<lparr>canvas = replicate (WIDTH * HEIGHT) 0,
                 rotated = replicate (PANEL_WIDTH * PANEL_HEIGHT) 0, glass = []\<rparr>"

text \<open>
  \<open>Panel::init\<close>: what the board-support calls answer. The answer to switching the display on is only logged.
\<close>

record panel_io =
  display_created :: "unit result"
  null_handle :: bool
  backlight_lit :: "unit result"

definition init_panel :: "panel_io \<Rightarrow> Panel result" where
  "init_panel io =
     and_then (with_context ''bsp_display_new_with_handles failed'' (display_created io)) (\<lambda>_.
     if null_handle io then Inl (Msg ''BSP returned a null panel handle'')
     else and_then (with_context ''backlight on failed'' (backlight_lit io)) (\<lambda>_. Inr panel_init))"

definition panel_ok :: "Panel \<Rightarrow> bool" where
  "panel_ok p \<longleftrightarrow> length (canvas p) = WIDTH * HEIGHT \<and> length (rotated p) = PANEL_WIDTH * PANEL_HEIGHT"

definition backlight_percent :: "u8 \<Rightarrow> int" where
  "backlight_percent percent = uint (min percent 100)"

definition set_backlight :: "(int \<Rightarrow> unit result) \<Rightarrow> u8 \<Rightarrow> unit result" where
  "set_backlight brightness_set percent =
     with_context ''failed to set backlight brightness'' (brightness_set (backlight_percent percent))"

text \<open>\<open>rotate_90\<close>: the two nested loops over the source rows and their pixels.\<close>

definition rotate_row :: "u16 list \<Rightarrow> nat \<Rightarrow> u16 list \<Rightarrow> u16 list" where
  "rotate_row src y dst =
     foldl (\<lambda>d x. d[x * PANEL_WIDTH + (HEIGHT - 1 - y) := src ! (y * WIDTH + x)]) dst [0..<WIDTH]"

definition rotate_90 :: "u16 list \<Rightarrow> u16 list \<Rightarrow> u16 list" where
  "rotate_90 src dst = foldl (\<lambda>d y. rotate_row src y d) dst [0..<HEIGHT]"

definition blit :: "unit result \<Rightarrow> Panel \<Rightarrow> unit result \<times> Panel" where
  "blit drawn p =
     (case drawn of
        Inl e \<Rightarrow> (Inl (Context ''esp_lcd_panel_draw_bitmap failed'' e), p)
      | Inr _ \<Rightarrow> (Inr (), p\<lparr>glass := rotated p\<rparr>))"

definition flush :: "unit result \<Rightarrow> Panel \<Rightarrow> unit result \<times> Panel" where
  "flush drawn p = blit drawn (p\<lparr>rotated := rotate_90 (canvas p) (rotated p)\<rparr>)"

definition clear :: "u16 \<Rightarrow> Panel \<Rightarrow> Panel" where
  "clear colour p = p\<lparr>canvas := replicate (length (canvas p)) colour\<rparr>"

definition present :: "unit result \<Rightarrow> u16 list \<Rightarrow> Panel \<Rightarrow> unit result \<times> Panel" where
  "present drawn pixels p =
     (if length pixels < WIDTH * HEIGHT
      then (Inl (Msg (''frame too small: '' @ show_nat (length pixels) @ '' pixels, need ''
              @ show_nat (WIDTH * HEIGHT))), p)
      else flush drawn (p\<lparr>canvas := take (WIDTH * HEIGHT) pixels @ drop (WIDTH * HEIGHT) (canvas p)\<rparr>))"

text \<open>\<open>DrawTarget::draw_iter\<close>: pixels outside the canvas are skipped.\<close>

definition draw_pixel :: "Panel \<Rightarrow> (int \<times> int) \<times> u16 \<Rightarrow> Panel" where
  "draw_pixel p px =
     (case px of ((x, y), colour) \<Rightarrow>
        if x < 0 \<or> y < 0 then p
        else if WIDTH \<le> nat x \<or> HEIGHT \<le> nat y then p
        else p\<lparr>canvas := (canvas p)[nat y * WIDTH + nat x := colour]\<rparr>)"

definition draw_iter :: "((int \<times> int) \<times> u16) list \<Rightarrow> Panel \<Rightarrow> Panel" where
  "draw_iter pixels p = foldl draw_pixel p pixels"

lemmas panel_sizes = PANEL_LOGICAL_WIDTH_def PANEL_LOGICAL_HEIGHT_def PANEL_WIDTH_def PANEL_HEIGHT_def

section \<open>Rotation\<close>

text \<open>Writing through an injective index map: every index written holds its own value.\<close>

lemma length_foldl_update [simp]: "length (foldl (\<lambda>d i. d[f i := g i]) dst is) = length dst"
  by (induction "is" arbitrary: dst) auto

lemma foldl_update_other:
  "\<forall>i \<in> set is. f i \<noteq> k \<Longrightarrow> foldl (\<lambda>d i. d[f i := g i]) dst is ! k = dst ! k"
  by (induction "is" arbitrary: dst) auto

lemma foldl_update_nth:
  assumes "j \<in> set is" "inj_on f (set is)" "distinct is" "f j < length dst"
  shows "foldl (\<lambda>d i. d[f i := g i]) dst is ! f j = g j"
  using assms
proof (induction "is" arbitrary: dst)
  case Nil
  then show ?case by simp
next
  case (Cons i "is")
  let ?d = "dst[f i := g i]"
  have step: "foldl (\<lambda>d i. d[f i := g i]) dst (i # is) = foldl (\<lambda>d i. d[f i := g i]) ?d is"
    by simp
  show ?case
  proof (cases "j = i")
    case True
    with Cons.prems have "\<forall>k \<in> set is. f k \<noteq> f j"
      by (auto simp: inj_on_def)
    then have "foldl (\<lambda>d i. d[f i := g i]) ?d is ! f j = ?d ! f j"
      by (rule foldl_update_other)
    with True Cons.prems(4) show ?thesis by (simp add: step)
  next
    case False
    with Cons.prems have "j \<in> set is" "inj_on f (set is)" "distinct is" "f j < length ?d"
      by (auto simp: inj_on_def)
    then show ?thesis unfolding step by (rule Cons.IH)
  qed
qed

definition rot_index :: "nat \<Rightarrow> nat \<Rightarrow> nat" where
  "rot_index x y = x * PANEL_WIDTH + (HEIGHT - 1 - y)"

lemma rot_index_bound: "x < WIDTH \<Longrightarrow> y < HEIGHT \<Longrightarrow> rot_index x y < PANEL_WIDTH * PANEL_HEIGHT"
  by (simp add: rot_index_def panel_sizes)

lemma rot_index_inj:
  assumes "y < HEIGHT" "y' < HEIGHT" "rot_index x y = rot_index x' y'"
  shows "x = x' \<and> y = y'"
proof -
  have split: "rot_index x y div 800 = x \<and> rot_index x y mod 800 = 799 - y" if "y < HEIGHT" for x y
  proof -
    obtain k where k: "799 - y = k" "k < 800" by auto
    then have "rot_index x y = x * 800 + k" by (simp add: rot_index_def panel_sizes)
    with k show ?thesis by simp
  qed
  have "x = x'" and "799 - y = 799 - y'"
    using split [OF assms(1), of x] split [OF assms(2), of x'] assms(3) by simp_all
  with assms(1,2) show ?thesis by (simp add: panel_sizes)
qed

lemma rotate_row_alt: "rotate_row src y dst = foldl (\<lambda>d x. d[rot_index x y := src ! (y * WIDTH + x)]) dst [0..<WIDTH]"
  by (simp add: rotate_row_def rot_index_def)

lemma length_rotate_row [simp]: "length (rotate_row src y dst) = length dst"
  by (simp add: rotate_row_def)

lemma rotate_row_nth:
  assumes "x < WIDTH" "y < HEIGHT" "length dst = PANEL_WIDTH * PANEL_HEIGHT"
  shows "rotate_row src y dst ! rot_index x y = src ! (y * WIDTH + x)"
  unfolding rotate_row_alt
proof (rule foldl_update_nth [where f = "\<lambda>x. rot_index x y"])
  show "x \<in> set [0..<WIDTH]" and "distinct [0..<WIDTH]"
    using assms(1) by simp_all
  show "inj_on (\<lambda>x. rot_index x y) (set [0..<WIDTH])"
    using rot_index_inj [OF assms(2) assms(2)] by (intro inj_onI) blast
  show "rot_index x y < length dst"
    using rot_index_bound [OF assms(1,2)] assms(3) by simp
qed

lemma rotate_row_other:
  assumes "y < HEIGHT" "y' < HEIGHT" "y \<noteq> y'"
  shows "rotate_row src y dst ! rot_index x y' = dst ! rot_index x y'"
  unfolding rotate_row_alt
  by (rule foldl_update_other) (use rot_index_inj [OF assms(1,2)] assms(3) in blast)

lemma length_rotate_rows [simp]: "length (foldl (\<lambda>d y. rotate_row src y d) dst ys) = length dst"
  by (induction ys arbitrary: dst) auto

lemma rotate_rows_nth:
  assumes "length dst = PANEL_WIDTH * PANEL_HEIGHT" "x < WIDTH"
  shows "k \<le> HEIGHT \<Longrightarrow> y < k \<Longrightarrow>
    foldl (\<lambda>d y. rotate_row src y d) dst [0..<k] ! rot_index x y = src ! (y * WIDTH + x)"
proof (induction k)
  case 0
  then show ?case by simp
next
  case (Suc k)
  let ?d = "foldl (\<lambda>d y. rotate_row src y d) dst [0..<k]"
  have unroll: "foldl (\<lambda>d y. rotate_row src y d) dst [0..<Suc k] = rotate_row src k ?d"
    by simp
  show ?case
  proof (cases "y = k")
    case True
    with Suc.prems assms show ?thesis
      unfolding unroll by (simp only: length_rotate_rows rotate_row_nth Suc_le_eq)
  next
    case False
    with Suc.prems have "rotate_row src k ?d ! rot_index x y = ?d ! rot_index x y"
      by (intro rotate_row_other) auto
    with False Suc show ?thesis
      unfolding unroll by (simp only: Suc_leD less_Suc_eq) auto
  qed
qed

lemma length_rotate_90 [simp]:
  "length (rotate_90 src dst) = length dst"
  by (simp add: rotate_90_def)

lemma rotate_90_nth:
  "length dst = PANEL_WIDTH * PANEL_HEIGHT \<Longrightarrow> x < WIDTH \<Longrightarrow> y < HEIGHT \<Longrightarrow>
   rotate_90 src dst ! (x * PANEL_WIDTH + (HEIGHT - 1 - y)) = src ! (y * WIDTH + x)"
  using rotate_rows_nth [of dst x HEIGHT y src] by (simp only: rotate_90_def rot_index_def order_refl)

text \<open>The portrait position \<open>i\<close> comes from column \<open>i div 800\<close>, row \<open>799 - i mod 800\<close>.\<close>

definition quarter_turn :: "u16 list \<Rightarrow> u16 list" where
  "quarter_turn src = map (\<lambda>i. src ! ((HEIGHT - 1 - i mod PANEL_WIDTH) * WIDTH + i div PANEL_WIDTH))
     [0..<PANEL_WIDTH * PANEL_HEIGHT]"

lemma rotate_90_is_turn:
  assumes "length dst = PANEL_WIDTH * PANEL_HEIGHT"
  shows "rotate_90 src dst = quarter_turn src"
proof (rule nth_equalityI)
  show "length (rotate_90 src dst) = length (quarter_turn src)"
    using assms by (simp add: quarter_turn_def)
next
  fix i
  assume "i < length (rotate_90 src dst)"
  with assms have i: "i < PANEL_WIDTH * PANEL_HEIGHT" by simp
  define x where "x = i div PANEL_WIDTH"
  define y where "y = HEIGHT - 1 - i mod PANEL_WIDTH"
  have "x < WIDTH" "y < HEIGHT" and eq: "x * PANEL_WIDTH + (HEIGHT - 1 - y) = i"
    using i by (auto simp: x_def y_def panel_sizes)
  then have "rotate_90 src dst ! i = src ! (y * WIDTH + x)"
    using rotate_90_nth [OF assms, of x y src] by simp
  then show "rotate_90 src dst ! i = quarter_turn src ! i"
    using i by (simp add: quarter_turn_def x_def y_def)
qed

text \<open>
  The rotation is exactly a quarter turn of the picture: whatever was in the panel buffer before,
  every one of its pixels is overwritten by the pixel of the canvas that belongs there.
\<close>

theorem rotate_90_is_quarter_turn:
  assumes "length dst = PANEL_WIDTH * PANEL_HEIGHT"
  shows "rotate_90 src dst = quarter_turn src"
  using assms by (rule rotate_90_is_turn)

theorem rotate_90_is_quarter_turn_witness:
  "rotate_90 (canvas panel_init) (replicate 1024000 7) = quarter_turn (canvas panel_init)"
  by (rule rotate_90_is_quarter_turn) (simp add: panel_sizes)

section \<open>The panel's buffers\<close>

lemma panel_init_ok [simp]: "panel_ok panel_init"
  by (simp add: panel_ok_def panel_init_def)

lemma clear_ok: "panel_ok p \<Longrightarrow> panel_ok (clear c p)"
  by (simp add: panel_ok_def clear_def)

lemma draw_pixel_ok: "panel_ok p \<Longrightarrow> panel_ok (draw_pixel p px)"
  by (simp add: panel_ok_def draw_pixel_def split: prod.splits)

lemma draw_iter_ok: "panel_ok p \<Longrightarrow> panel_ok (draw_iter pxs p)"
  by (induction pxs arbitrary: p) (auto simp: draw_iter_def draw_pixel_ok)

lemma flush_ok: "panel_ok p \<Longrightarrow> panel_ok (snd (flush drawn p))"
  by (simp add: panel_ok_def flush_def blit_def split: sum.split)

lemma present_ok: "panel_ok p \<Longrightarrow> panel_ok (snd (present drawn px p))"
  by (auto simp: present_def panel_ok_def intro!: flush_ok [unfolded panel_ok_def])

lemma flush_simps:
  "panel_ok p \<Longrightarrow> flush (Inr u) p =
     (Inr (), p\<lparr>rotated := quarter_turn (canvas p), glass := quarter_turn (canvas p)\<rparr>)"
  "flush (Inl e) p =
     (Inl (Context ''esp_lcd_panel_draw_bitmap failed'' e),
      p\<lparr>rotated := rotate_90 (canvas p) (rotated p)\<rparr>)"
  by (simp_all add: flush_def blit_def rotate_90_is_turn panel_ok_def)

lemma present_small:
  "length px < WIDTH * HEIGHT \<Longrightarrow> \<exists>e. present drawn px p = (Inl e, p)"
  by (simp add: present_def)

lemma present_shows:
  assumes "panel_ok p" and "present drawn px p = (Inr u, p')"
  shows "glass p' = quarter_turn px \<and> WIDTH * HEIGHT \<le> length px \<and> panel_ok p'"
proof -
  let ?q = "p\<lparr>canvas := take (WIDTH * HEIGHT) px @ drop (WIDTH * HEIGHT) (canvas p)\<rparr>"
  from assms(2) have len: "WIDTH * HEIGHT \<le> length px" and fl: "flush drawn ?q = (Inr u, p')"
    by (simp_all add: present_def not_less split: if_splits)
  from assms(1) len have ok: "panel_ok ?q"
    by (simp add: panel_ok_def)
  from fl obtain v where "drawn = Inr v"
    by (cases drawn) (simp_all add: flush_simps(2))
  with fl flush_simps(1) [OF ok] have p': "p' = ?q\<lparr>rotated := quarter_turn (canvas ?q),
      glass := quarter_turn (canvas ?q)\<rparr>"
    by simp
  have "quarter_turn (canvas ?q) = quarter_turn px"
    using len assms(1) by (auto simp: quarter_turn_def nth_append panel_sizes panel_ok_def)
  with p' len present_ok [OF assms(1), of drawn px] assms(2) show ?thesis by simp
qed

section \<open>The colour sweep\<close>

text \<open>
  The factory diagnostic: four solid fills, each put up or not as the driver decides. It goes straight to the
  rotated buffer, so the canvas and with it the next screen are untouched.
\<close>

definition DIAGNOSTIC_COLOURS :: "u16 list" where
  "DIAGNOSTIC_COLOURS = [0xFFFF, 0x001F, 0xF800, 0x07E0]"

definition sweep_colour :: "unit result \<times> u16 \<Rightarrow> Panel \<Rightarrow> Panel" where
  "sweep_colour step p =
     (let (drawn, colour) = step in snd (blit drawn (p\<lparr>rotated := replicate (length (rotated p)) colour\<rparr>)))"

definition diagnostic_colour_sweep :: "unit result list \<Rightarrow> Panel \<Rightarrow> Panel" where
  "diagnostic_colour_sweep drawns p = fold sweep_colour (zip drawns DIAGNOSTIC_COLOURS) p"

lemma sweep_colour_keeps: "canvas (sweep_colour step p) = canvas p \<and> length (rotated (sweep_colour step p)) = length (rotated p)"
  by (simp add: sweep_colour_def blit_def split: prod.split sum.split)

lemma sweep_keeps:
  "canvas (fold sweep_colour steps p) = canvas p \<and> length (rotated (fold sweep_colour steps p)) = length (rotated p)"
  using sweep_colour_keeps by (induction steps arbitrary: p) auto

lemma colour_sweep_is_transient:
  assumes "panel_ok p"
  shows "panel_ok (diagnostic_colour_sweep drawns p) \<and>
    glass (snd (flush (Inr ()) (diagnostic_colour_sweep drawns p))) = glass (snd (flush (Inr ()) p))"
proof -
  let ?q = "diagnostic_colour_sweep drawns p"
  have q: "canvas ?q = canvas p" "panel_ok ?q"
    using assms sweep_keeps [of "zip drawns DIAGNOSTIC_COLOURS" p] by (simp_all add: diagnostic_colour_sweep_def panel_ok_def)
  have "glass (snd (flush (Inr ()) r)) = quarter_turn (canvas r)" if "panel_ok r" for r
  proof -
    have "length (rotated r) = PANEL_WIDTH * PANEL_HEIGHT" using that unfolding panel_ok_def by (rule conjunct2)
    from rotate_90_is_turn [OF this, of "canvas r"] show ?thesis by (simp add: flush_def blit_def)
  qed
  from this [OF q(2)] this [OF assms] q show ?thesis by simp
qed

end
