(* ===== verification/Ui_Sync.thy ===== *)
theory Ui_Sync
  imports Panel_Display Controller_State
begin

text \<open>
  \<open>packages/frame-ui/src/ui.rs\<close> and \<open>screens.rs\<close>: the reconciliation of the panel with the photo
  store and the application state, and the four text screens. Rendering a line of text into
  coloured pixels is \<open>embedded-graphics\<close> and so a parameter \<open>font\<close>; clipping those pixels to the
  canvas, and everything else, is the frame's own code.
\<close>

section \<open>Screens\<close>

type_synonym font = "string \<Rightarrow> int \<times> int \<Rightarrow> u16 \<Rightarrow> bool \<Rightarrow> ((int \<times> int) \<times> u16) list"

definition rgb565_new :: "u16 \<Rightarrow> u16 \<Rightarrow> u16 \<Rightarrow> u16" where
  "rgb565_new r g b = push_bit 11 r OR push_bit 5 g OR b"

definition BACKGROUND :: u16 where
  "BACKGROUND = 0"

definition PRIMARY :: u16 where
  "PRIMARY = 0xFFFF"

definition SECONDARY :: u16 where
  "SECONDARY = rgb565_new 18 37 18"

definition CENTRE_X :: int where
  "CENTRE_X = int (WIDTH div 2)"

text \<open>A font that draws nothing, to evaluate examples with.\<close>

definition blank_font :: font where
  "blank_font = (\<lambda>_ _ _ _. [])"

definition line :: "font \<Rightarrow> string \<Rightarrow> int \<Rightarrow> u16 \<Rightarrow> bool \<Rightarrow> Panel \<Rightarrow> Panel" where
  "line font t y colour large p = draw_iter (font t (CENTRE_X, y) colour large) p"

definition show_starting :: "font \<Rightarrow> unit result \<Rightarrow> Panel \<Rightarrow> unit result \<times> Panel" where
  "show_starting font drawn p =
     (let p1 = clear BACKGROUND p;
          p2 = line font ''Starting up'' (int (HEIGHT div 2)) PRIMARY True p1
      in flush drawn p2)"

definition show_wifi_setup :: "font \<Rightarrow> unit result \<Rightarrow> string \<Rightarrow> Panel \<Rightarrow> unit result \<times> Panel" where
  "show_wifi_setup font drawn ssid p =
     (let p1 = clear BACKGROUND p;
          p2 = line font ''Connect this frame to Wi-Fi'' 300 PRIMARY True p1;
          p3 = line font ''Join this network from your phone, then follow the prompt.'' 350 SECONDARY False p2;
          p4 = line font ssid 430 PRIMARY True p3
      in flush drawn p4)"

definition show_awaiting_adoption :: "font \<Rightarrow> unit result \<Rightarrow> string \<Rightarrow> Panel \<Rightarrow> unit result \<times> Panel" where
  "show_awaiting_adoption font drawn frame_id p =
     (let p1 = clear BACKGROUND p;
          p2 = line font ''Add this frame in Home Assistant'' 270 PRIMARY True p1;
          p3 = line font ''Settings > Devices & Services > Add Integration > PhotoFrame Bridge''
                 318 SECONDARY False p2;
          p4 = line font frame_id 400 PRIMARY True p3;
          p5 = line font ''Photos will start appearing here on their own.'' 470 SECONDARY False p4
      in flush drawn p5)"

definition show_ready :: "font \<Rightarrow> unit result \<Rightarrow> Panel \<Rightarrow> unit result \<times> Panel" where
  "show_ready font drawn p =
     (let p1 = clear BACKGROUND p;
          p2 = line font ''Waiting for photos'' (int (HEIGHT div 2)) SECONDARY False p1
      in flush drawn p2)"

lemmas screen_defs =
  show_starting_def show_wifi_setup_def show_awaiting_adoption_def show_ready_def Let_def

lemma line_ok: "panel_ok p \<Longrightarrow> panel_ok (line font t y c l p)"
  by (simp add: line_def draw_iter_ok)

lemma screens_ok:
  assumes "panel_ok p"
  shows "panel_ok (snd (show_starting font drawn p))"
    and "panel_ok (snd (show_wifi_setup font drawn ssid p))"
    and "panel_ok (snd (show_awaiting_adoption font drawn i p))"
    and "panel_ok (snd (show_ready font drawn p))"
  unfolding screen_defs by (intro flush_ok line_ok clear_ok assms)+

section \<open>The driver of the panel\<close>

datatype Showing =
    Nothing
  | Starting
  | WifiSetup string
  | AwaitingAdoption string
  | Ready
  | Photo u64

record FrameUi =
  panel :: Panel
  showing :: Showing

text \<open>The display a successful \<open>create_ui\<close> gives, and the call itself.\<close>

definition create_ui :: FrameUi where
  "create_ui = \<lparr>panel = panel_init, showing = Nothing\<rparr>"

definition create_ui_on :: "panel_io \<Rightarrow> FrameUi result" where
  "create_ui_on io = and_then (init_panel io) (\<lambda>p. Inr \<lparr>panel = p, showing = Nothing\<rparr>)"

lemma create_ui_on_Inr: "create_ui_on io = Inr u \<Longrightarrow> u = create_ui"
  by (auto simp: create_ui_on_def init_panel_def create_ui_def and_then_Inr split: if_splits)

definition unwrap_or :: "'a \<Rightarrow> 'a option \<Rightarrow> 'a" where
  "unwrap_or d v = (case v of None \<Rightarrow> d | Some x \<Rightarrow> x)"

definition wanted_screen :: "AppState \<Rightarrow> ControllerPhase \<Rightarrow> Showing" where
  "wanted_screen st ctl =
     (case (network_phase st, ctl) of
        (_, CtlConnected) \<Rightarrow> Ready
      | (Provisioning, _) \<Rightarrow> WifiSetup (unwrap_or ''Photo Frame setup'' (provisioning_ssid st))
      | (NetConnected, _) \<Rightarrow> AwaitingAdoption (unwrap_or ''unknown'' (device_id st))
      | _ \<Rightarrow> Starting)"

definition draw_screen :: "font \<Rightarrow> unit result \<Rightarrow> Showing \<Rightarrow> Panel \<Rightarrow> unit result \<times> Panel" where
  "draw_screen font drawn wanted p =
     (case wanted of
        Starting \<Rightarrow> show_starting font drawn p
      | WifiSetup ssid \<Rightarrow> show_wifi_setup font drawn ssid p
      | AwaitingAdoption i \<Rightarrow> show_awaiting_adoption font drawn i p
      | Ready \<Rightarrow> show_ready font drawn p
      | Nothing \<Rightarrow> (Inr (), p)
      | Photo _ \<Rightarrow> (Inr (), p))"

text \<open>A drawing step whose error leaves \<open>showing\<close> as it was, as the \<open>?\<close> does.\<close>

definition show_as :: "Showing \<Rightarrow> FrameUi \<Rightarrow> unit result \<times> Panel \<Rightarrow> unit result \<times> FrameUi" where
  "show_as wanted ui out =
     (case out of
        (Inl e, p) \<Rightarrow> (Inl e, ui\<lparr>panel := p\<rparr>)
      | (Inr _, p) \<Rightarrow> (Inr (), ui\<lparr>panel := p, showing := wanted\<rparr>))"

definition sync ::
  "font \<Rightarrow> unit result \<Rightarrow> AppState \<Rightarrow> store mutex \<Rightarrow> ControllerState mutex \<Rightarrow> FrameUi
   \<Rightarrow> unit result \<times> FrameUi" where
  "sync font drawn st photos ctl ui =
     (case rendered_image_snapshot photos of
        Inl e \<Rightarrow> (Inl e, ui)
      | Inr rendered \<Rightarrow>
          (case snap_image rendered of
             Some img \<Rightarrow>
               (let wanted = Photo (snap_generation rendered)
                in if showing ui \<noteq> wanted
                   then show_as wanted ui (present drawn (rgb565 img) (panel ui))
                   else (Inr (), ui))
           | None \<Rightarrow>
               (case controller_state_snapshot ctl of
                  Inl e \<Rightarrow> (Inl e, ui)
                | Inr controller \<Rightarrow>
                    (let wanted = wanted_screen st (ctl_phase controller)
                     in if showing ui = wanted then (Inr (), ui)
                        else show_as wanted ui (draw_screen font drawn wanted (panel ui))))))"

definition set_brightness :: "(int \<Rightarrow> unit result) \<Rightarrow> u8 \<Rightarrow> FrameUi \<Rightarrow> unit result" where
  "set_brightness brightness_set percent ui = set_backlight brightness_set percent"

section \<open>Lemmas on one reconciliation\<close>

lemma snapshot_unpoisoned [simp]:
  "rendered_image_snapshot (Unpoisoned s) =
     Inr \<lparr>snap_image = front s, snap_generation = generation s, snap_buffered = length (buffer s)\<rparr>"
  by (simp add: rendered_image_snapshot_def snapshot_body_def)

lemma controller_snapshot_unpoisoned [simp]:
  "controller_state_snapshot (Unpoisoned c) = Inr c"
  by (simp add: controller_state_snapshot_def)

lemma draw_screen_ok: "panel_ok p \<Longrightarrow> panel_ok (snd (draw_screen font drawn w p))"
  by (simp add: draw_screen_def screens_ok split: Showing.split)

lemma show_as_ok: "panel_ok (snd out) \<Longrightarrow> panel_ok (panel (snd (show_as w ui out)))"
  by (cases out) (auto simp: show_as_def split: sum.split)

lemma sync_panel_ok:
  assumes "panel_ok (panel ui)"
  shows "panel_ok (panel (snd (sync font drawn st photos ctl ui)))"
  using assms show_as_ok [OF present_ok [OF assms]] show_as_ok [OF draw_screen_ok [OF assms]]
  by (auto simp: sync_def Let_def split: sum.split option.split)

lemma show_as_Inr:
  "show_as w ui out = (Inr u, ui') \<longleftrightarrow>
     (\<exists>v p. out = (Inr v, p) \<and> ui' = ui\<lparr>panel := p, showing := w\<rparr>)"
  by (auto simp: show_as_def split: prod.splits sum.splits)

lemma wanted_screen_not_photo [simp]:
  "wanted_screen st c \<noteq> Photo g" "Photo g \<noteq> wanted_screen st c"
  by (cases "network_phase st"; cases c; simp add: wanted_screen_def)+

lemma sync_front_Some:
  assumes "front s = Some img"
  shows "sync font drawn st (Unpoisoned s) ctl ui =
    (if showing ui = Photo (generation s) then (Inr (), ui)
     else show_as (Photo (generation s)) ui (present drawn (rgb565 img) (panel ui)))"
  using assms by (simp add: sync_def Let_def)

lemma sync_front_None:
  assumes "front s = None" "sync font drawn st (Unpoisoned s) ctl ui = (Inr u, ui')"
  shows "\<exists>c. ctl = Unpoisoned c \<and> showing ui' = wanted_screen st (ctl_phase c)"
proof (cases ctl)
  case Poisoned
  with assms show ?thesis by (simp add: sync_def controller_state_snapshot_def)
next
  case (Unpoisoned c)
  with assms show ?thesis
    by (auto simp: sync_def Let_def show_as_Inr split: if_splits)
qed

lemma sync_shows_front:
  assumes ok: "panel_ok (panel ui)" and front: "front s = Some img"
    and fresh: "showing ui = Photo (generation s) \<Longrightarrow> glass (panel ui) = quarter_turn (rgb565 img)"
    and sync: "sync font drawn st (Unpoisoned s) ctl ui = (Inr u, ui')"
  shows "showing ui' = Photo (generation s) \<and> glass (panel ui') = quarter_turn (rgb565 img)"
proof (cases "showing ui = Photo (generation s)")
  case True
  with sync fresh show ?thesis by (auto simp: sync_front_Some [OF front])
next
  case False
  with sync obtain v p where "present drawn (rgb565 img) (panel ui) = (Inr v, p)"
    and "ui' = ui\<lparr>panel := p, showing := Photo (generation s)\<rparr>"
    by (auto simp: sync_front_Some [OF front] show_as_Inr)
  with present_shows [OF ok, of drawn "rgb565 img" v p] show ?thesis by simp
qed

text \<open>With a working display, a photo of at least the panel's size is always put up.\<close>

lemma sync_photo_ok:
  assumes "front s = Some img" and "WIDTH * HEIGHT \<le> length (rgb565 img)"
  shows "fst (sync font (Inr ()) st (Unpoisoned s) ctl ui) = Inr ()"
proof -
  have "fst (present (Inr ()) (rgb565 img) p) = Inr ()" for p
    using assms(2) by (simp add: present_def flush_def blit_def)
  then have "\<exists>p'. present (Inr ()) (rgb565 img) p = (Inr (), p')" for p by (metis prod.collapse)
  then obtain p' where "present (Inr ()) (rgb565 img) (panel ui) = (Inr (), p')" by blast
  then show ?thesis by (simp add: sync_front_Some [OF assms(1)] show_as_def)
qed

section \<open>The panel follows the store\<close>

text \<open>
  The main loop: the panel is reconciled, then the other threads perform any operations on the
  photo store (fewer than \<open>2 ^ 64\<close> of them) and change the phases, then it is reconciled again. The
  loop ends at the first reconciliation that fails, so only successful ones continue it.
\<close>

inductive ui_run :: "store \<Rightarrow> FrameUi \<Rightarrow> bool" where
  boot: "ui_run s create_ui"
| pass: "ui_run s ui \<Longrightarrow> length ops < 2 ^ 64 \<Longrightarrow>
     sync font drawn st (Unpoisoned (store_run s ops)) ctl ui = (Inr u, ui') \<Longrightarrow>
     ui_run (store_run s ops) ui'"

definition coherent :: "store \<Rightarrow> FrameUi \<Rightarrow> bool" where
  "coherent s ui \<longleftrightarrow> panel_ok (panel ui) \<and>
     (showing ui = Photo (generation s) \<longrightarrow>
        (\<exists>img. front s = Some img \<and> glass (panel ui) = quarter_turn (rgb565 img)))"

lemma coherent_sync:
  assumes coh: "coherent s ui" and few: "length ops < 2 ^ 64"
    and sync: "sync font drawn st (Unpoisoned (store_run s ops)) ctl ui = (Inr u, ui')"
    and prev: "\<And>g. showing ui = Photo g \<Longrightarrow> g = generation s"
  shows "coherent (store_run s ops) ui' \<and>
    (case front (store_run s ops) of
       Some img \<Rightarrow> showing ui' = Photo (generation (store_run s ops)) \<and>
                   glass (panel ui') = quarter_turn (rgb565 img)
     | None \<Rightarrow> \<forall>g. showing ui' \<noteq> Photo g)"
proof -
  let ?t = "store_run s ops"
  have ok: "panel_ok (panel ui)" and ok': "panel_ok (panel ui')"
    using coh sync_panel_ok [of ui font drawn st "Unpoisoned ?t" ctl] sync by (simp_all add: coherent_def)
  show ?thesis
  proof (cases "front ?t")
    case None
    then show ?thesis
      using ok' sync_front_None [OF None sync] by (auto simp: coherent_def)
  next
    case (Some img)
    have "glass (panel ui) = quarter_turn (rgb565 img)" if "showing ui = Photo (generation ?t)"
    proof -
      from that prev have "generation ?t = generation s" by blast
      with few have "front ?t = front s"
        unfolding store_run_def by (rule photo_view.same_version_same_view)
      with Some coh that \<open>generation ?t = generation s\<close> show ?thesis
        by (auto simp: coherent_def)
    qed
    with sync_shows_front [OF ok Some _ sync] ok' Some show ?thesis
      by (auto simp: coherent_def)
  qed
qed

lemma ui_run_coherent:
  "ui_run s ui \<Longrightarrow> coherent s ui \<and> (\<forall>g. showing ui = Photo g \<longrightarrow> g = generation s)"
proof (induction rule: ui_run.induct)
  case (boot s)
  then show ?case by (simp add: coherent_def create_ui_def)
next
  case (pass s ui ops font drawn st ctl u ui')
  then show ?case
    using coherent_sync [of s ui ops font drawn st ctl u ui']
    by (auto split: option.splits)
qed

text \<open>
  C3: the panel follows the photo store. After any number of successful reconciliations, with any
  store operations between them, a successful reconciliation leaves on the glass exactly the
  pixels of the photo at the front of the store, turned into the panel's orientation, although a
  reconciliation that finds the generation unchanged does not draw at all.
\<close>

theorem panel_follows_store:
  assumes "ui_run s ui" and "length ops < 2 ^ 64"
    and "sync font drawn st (Unpoisoned (store_run s ops)) ctl ui = (Inr u, ui')"
    and "front (store_run s ops) = Some img"
  shows "glass (panel ui') = quarter_turn (rgb565 img) \<and>
         showing ui' = Photo (generation (store_run s ops))"
  using coherent_sync [OF _ assms(2,3)] ui_run_coherent [OF assms(1)] assms(4) by simp

definition full_image :: "u16 \<Rightarrow> RenderedImage" where
  "full_image p = \<lparr>width = 1280, height = 800, rgb565 = replicate (WIDTH * HEIGHT) p, image_id = None\<rparr>"

definition one_photo :: store where
  "one_photo = \<lparr>buffer = [full_image 7], generation = 1\<rparr>"

lemma store_run_one_photo: "store_run store_init [OpShow (full_image 7)] = one_photo"
  by (simp add: store_run_def show_body_def same_id_def full_image_def make_room_def
      store_init_def one_photo_def BUFFER_CAPACITY_def)

lemma one_photo_simps [simp]:
  "front one_photo = Some (full_image 7)" "generation one_photo = 1"
  by (simp_all add: one_photo_def front_def)

lemma sync_one_photo:
  "sync (\<lambda>_ _ _ _. []) (Inr ()) app_state_new (Unpoisoned one_photo)
     (Unpoisoned controller_state_default) create_ui =
   (Inr (), \<lparr>panel = \<lparr>canvas = rgb565 (full_image 7), rotated = quarter_turn (rgb565 (full_image 7)),
              glass = quarter_turn (rgb565 (full_image 7))\<rparr>, showing = Photo 1\<rparr>)"
  by (simp add: sync_front_Some create_ui_def show_as_def present_def flush_simps
      panel_init_def panel_ok_def full_image_def)

theorem panel_follows_store_witness:
  "\<exists>ui' :: FrameUi. glass (panel ui') = quarter_turn (rgb565 (full_image 7)) \<and> showing ui' = Photo 1"
proof -
  have "glass (panel \<lparr>panel = \<lparr>canvas = rgb565 (full_image 7),
      rotated = quarter_turn (rgb565 (full_image 7)), glass = quarter_turn (rgb565 (full_image 7))\<rparr>,
      showing = Photo 1\<rparr>) = quarter_turn (rgb565 (full_image 7)) \<and>
    showing \<lparr>panel = \<lparr>canvas = rgb565 (full_image 7),
      rotated = quarter_turn (rgb565 (full_image 7)), glass = quarter_turn (rgb565 (full_image 7))\<rparr>,
      showing = Photo 1\<rparr> = Photo (generation (store_run store_init [OpShow (full_image 7)]))"
    by (rule panel_follows_store [OF ui_run.boot, of "[OpShow (full_image 7)]" "\<lambda>_ _ _ _. []" "Inr ()"
          app_state_new store_init "Unpoisoned controller_state_default" "()"])
      (simp_all add: store_run_one_photo sync_one_photo)
  then show ?thesis unfolding store_run_one_photo one_photo_simps by blast
qed

text \<open>
  A photo that is smaller than the panel stops the screen for good: if the front photo has fewer
  than \<open>1280 * 800\<close> pixels and is not already up, the reconciliation fails and changes nothing, with
  any outcome of the display driver, so the next one fails again and every later photo is lost
  with it once the main loop gives up.
\<close>

theorem undersized_photo_fails_sync:
  assumes "front s = Some img" and "length (rgb565 img) < WIDTH * HEIGHT"
    and "showing ui \<noteq> Photo (generation s)"
  shows "\<exists>e. sync font drawn st (Unpoisoned s) ctl ui = (Inl e, ui)"
proof -
  obtain e where "present drawn (rgb565 img) (panel ui) = (Inl e, panel ui)"
    using present_small [OF assms(2)] by blast
  with assms(3) show ?thesis
    by (simp add: sync_front_Some [OF assms(1)] show_as_def)
qed

theorem undersized_photo_fails_sync_witness:
  "\<exists>e. sync (\<lambda>_ _ _ _. []) (Inr ()) app_state_new
     (Unpoisoned (store_step store_init (OpShow (px_image 5 ''a'')))) Poisoned create_ui = (Inl e, create_ui)"
  by (rule undersized_photo_fails_sync [of _ "px_image 5 ''a''"])
    (simp_all add: show_body_def same_id_def px_image_def make_room_def store_init_def front_def
      panel_sizes create_ui_def BUFFER_CAPACITY_def)

text \<open>
  Reconciling twice with nothing changed in between draws nothing the second time: after a
  successful reconciliation an immediate second one succeeds without touching the panel, even
  when the display driver would fail.
\<close>

theorem sync_idempotent:
  assumes "sync font drawn st photos ctl ui = (Inr u, ui')"
  shows "sync font drawn' st photos ctl ui' = (Inr (), ui')"
proof (cases photos)
  case Poisoned
  with assms show ?thesis by (simp add: sync_def rendered_image_snapshot_def)
next
  case (Unpoisoned s)
  show ?thesis
  proof (cases "front s")
    case (Some img)
    with assms Unpoisoned have "showing ui' = Photo (generation s)"
      by (auto simp: sync_front_Some show_as_Inr split: if_splits)
    then show ?thesis by (simp add: Unpoisoned sync_front_Some [OF Some])
  next
    case None
    with assms Unpoisoned obtain c where "ctl = Unpoisoned c" "showing ui' = wanted_screen st (ctl_phase c)"
      using sync_front_None by blast
    with None show ?thesis by (simp add: Unpoisoned sync_def)
  qed
qed

theorem sync_idempotent_witness:
  "\<exists>ui'. sync (\<lambda>_ _ _ _. []) (Inl (Msg ''driver'')) app_state_new (Unpoisoned one_photo)
     (Unpoisoned controller_state_default) ui' = (Inr (), ui')"
  using sync_idempotent [OF sync_one_photo] by blast

end
