(* ===== verification/Firmware_Loop.thy ===== *)
theory Firmware_Loop
  imports Render_Executor Local_Photos Controller_State Ui_Sync
begin

text \<open>
  The second half of \<open>run()\<close> in \<open>frame-firmware/src/main.rs\<close>: the choice between the owner's photos and
  Home Assistant's, the health report, the paced requests for more photos, the tap, and the main loop with
  its rotation while the controller is away. It also has the bookkeeping of a render in
  \<open>frame-firmware/src/runtime.rs\<close>.

  Times are nanoseconds of \<open>Instant::now\<close>, and \<open>elapsed\<close> saturates at zero. What the card does during each
  call is an argument. Each thread's turn is a step on the shared state; the threads interleave between
  turns.
\<close>

section \<open>Whose photos\<close>

definition DEFAULT_CONTROL_PLANE_URL :: string where
  "DEFAULT_CONTROL_PLANE_URL = ''ws://homeassistant.local:8123/api/photoframe_bridge/ws''"

text \<open>The address baked in at build time, if it is not empty.\<close>

definition control_plane_url :: "string option \<Rightarrow> string" where
  "control_plane_url baked_url =
     (case baked_url of
        Some url \<Rightarrow> if url \<noteq> [] then url else DEFAULT_CONTROL_PLANE_URL
      | None \<Rightarrow> DEFAULT_CONTROL_PLANE_URL)"

definition choose_library :: "(string \<Rightarrow> dir_entry list result) \<Rightarrow> SdStatus \<Rightarrow> LocalLibrary" where
  "choose_library read_dir sd =
     (if is_ready sd then scan_local_photos read_dir MEDIA_DIR else library_default)"

text \<open>The flag is set, and whether the slideshow thread is started.\<close>

definition start_photo_source :: "LocalLibrary \<Rightarrow> frame \<Rightarrow> bool \<times> frame" where
  "start_photo_source lib f =
     (let active = \<not> lib_is_empty lib in (active, set_local_photos_active active f))"

definition photo_source_of :: "LocalLibrary \<Rightarrow> string" where
  "photo_source_of lib =
     (if \<not> lib_is_empty lib then ''SD card ('' @ summary lib @ '')'' else ''Home Assistant'')"

section \<open>Asking for more photos\<close>

definition PHOTO_REQUEST_BATCH :: nat where
  "PHOTO_REQUEST_BATCH = 4"

definition PHOTO_REQUEST_COOLDOWN :: nat where
  "PHOTO_REQUEST_COOLDOWN = 20 * 10 ^ 9"

text \<open>
  What one call meets: the card during the top-up, the two listings, and the clock when it is compared
  and when it is stamped.
\<close>

record request_env =
  refill_envs :: "nat \<Rightarrow> cache_env"
  list_wanted :: listing
  list_cached :: listing
  compared_at :: nat
  stamped_at :: nat

type_synonym last_request = "nat option mutex"

definition elapsed :: "nat \<Rightarrow> nat \<Rightarrow> nat" where
  "elapsed now since = now - since"

definition top_up :: "(nat \<Rightarrow> cache_env) \<Rightarrow> frame \<Rightarrow> frame" where
  "top_up envs f =
     (let (m, fs) = top_up_from_cache envs 0 (memory f) (cached f) in f\<lparr>memory := m, cached := fs\<rparr>)"

definition request_more_photos ::
  "request_env \<Rightarrow> frame \<times> last_request \<Rightarrow> OutboundStatusMessage list \<times> frame \<times> last_request" where
  "request_more_photos env st =
     (let (f0, slot) = st;
          f = top_up (refill_envs env) f0;
          outstanding = wanted (list_wanted env) (cached f)
      in if outstanding = 0 then ([], f, slot)
         else (case slot of
                 Poisoned \<Rightarrow> ([], f, slot)
               | Unpoisoned prev \<Rightarrow>
                   if (case prev of None \<Rightarrow> False
                       | Some t \<Rightarrow> elapsed (compared_at env) t < PHOTO_REQUEST_COOLDOWN)
                   then ([], f, slot)
                   else ([PhotoRequested (word_of_nat (min outstanding PHOTO_REQUEST_BATCH))
                            (word_of_nat (min (count_photos (list_cached env) (cached f)) (2 ^ 16 - 1)))],
                         f, Unpoisoned (Some (stamped_at env)))))"

section \<open>Health\<close>

definition HEALTH_REPORT_INTERVAL_SECS :: nat where
  "HEALTH_REPORT_INTERVAL_SECS = 60"

text \<open>One turn of the health thread: the statuses it sends.\<close>

definition health_turn ::
  "string \<Rightarrow> string \<Rightarrow> request_env \<Rightarrow> frame \<times> last_request \<Rightarrow> OutboundStatusMessage list \<times> frame \<times> last_request" where
  "health_turn sd_text source env st =
     (let buffered = (case rendered_image_snapshot (memory (fst st)) of
                        Inr snapshot \<Rightarrow> Some (word_of_nat (min (snap_buffered snapshot) 255))
                      | Inl _ \<Rightarrow> None);
          (asked, st') = request_more_photos env st;
          health = \<lparr>cpu_temp_millidegrees = None, health_screen_status = None, storage = Some sd_text,
                    buffered_photos = buffered, photo_source = Some source\<rparr>
      in (asked @ [Health health], st'))"

section \<open>The tap\<close>

definition on_tap ::
  "request_env \<Rightarrow> frame \<times> last_request \<Rightarrow> OutboundStatusMessage list \<times> frame \<times> last_request" where
  "on_tap env st =
     (let (f, slot) = st; (advanced, m) = advance_rendered_image (memory f); f1 = f\<lparr>memory := m\<rparr>
      in case advanced of
           Inr more_ready \<Rightarrow>
             if \<not> more_ready then request_more_photos env (f1, slot) else ([], f1, slot)
         | Inl _ \<Rightarrow> ([], f1, slot))"

section \<open>The main loop\<close>

definition OFFLINE_ROTATION_INTERVAL :: nat where
  "OFFLINE_ROTATION_INTERVAL = 300 * 10 ^ 9"

record main_env =
  drawn :: "unit result"
  controller :: "ControllerState mutex"
  checked_at :: nat
  rotated_at :: nat
  first_refill :: "nat \<Rightarrow> cache_env"
  second_refill :: "nat \<Rightarrow> cache_env"

record main_state =
  glass_ui :: FrameUi
  shared :: frame
  last_offline_rotation :: nat

definition controller_connected :: "ControllerState mutex \<Rightarrow> bool" where
  "controller_connected ctl =
     (case controller_state_snapshot ctl of Inr s \<Rightarrow> ctl_phase s = CtlConnected | Inl _ \<Rightarrow> False)"

definition rotate_offline :: "main_env \<Rightarrow> frame \<Rightarrow> frame" where
  "rotate_offline env f =
     (let f1 = top_up (first_refill env) f; (advanced, m) = advance_rendered_image (memory f1); f2 = f1\<lparr>memory := m\<rparr>
      in case advanced of
           Inr True \<Rightarrow> top_up (second_refill env) f2
         | Inr False \<Rightarrow> f2
         | Inl _ \<Rightarrow> f2)"

text \<open>One turn; an error of the reconciliation ends \<open>run()\<close>.\<close>

definition main_turn :: "font \<Rightarrow> AppState \<Rightarrow> main_env \<Rightarrow> main_state \<Rightarrow> unit result \<times> main_state" where
  "main_turn font st env ms =
     (case sync font (drawn env) st (memory (shared ms)) (controller env) (glass_ui ms) of
        (Inl e, u) \<Rightarrow> (Inl e, ms\<lparr>glass_ui := u\<rparr>)
      | (Inr _, u) \<Rightarrow>
          (let ms1 = ms\<lparr>glass_ui := u\<rparr> in
           if \<not> controller_connected (controller env)
              \<and> OFFLINE_ROTATION_INTERVAL \<le> elapsed (checked_at env) (last_offline_rotation ms1)
           then (Inr (), ms1\<lparr>last_offline_rotation := rotated_at env, shared := rotate_offline env (shared ms1)\<rparr>)
           else (Inr (), ms1)))"

fun main_run :: "font \<Rightarrow> AppState \<Rightarrow> main_env list \<Rightarrow> main_state \<Rightarrow> unit result \<times> main_state" where
  "main_run font st [] ms = (Inr (), ms)"
| "main_run font st (env # envs) ms =
     (case main_turn font st env ms of
        (Inl e, ms') \<Rightarrow> (Inl e, ms')
      | (Inr _, ms') \<Rightarrow> main_run font st envs ms')"

section \<open>Requests are paced\<close>

text \<open>
  The calls of all threads in the order in which they take the lock, each on the frame it finds; the
  requests sent, with the time of each.
\<close>

fun request_run :: "(request_env \<times> frame) list \<Rightarrow> last_request \<Rightarrow> (nat \<times> OutboundStatusMessage) list" where
  "request_run [] slot = []"
| "request_run ((env, f) # calls) slot =
     (case request_more_photos env (f, slot) of
        (sent, f', slot') \<Rightarrow> map (Pair (stamped_at env)) sent @ request_run calls slot')"

definition call_times :: "(request_env \<times> frame) list \<Rightarrow> nat list" where
  "call_times calls = concat (map (\<lambda>(env, f). [compared_at env, stamped_at env]) calls)"

definition small_request :: "OutboundStatusMessage \<Rightarrow> bool" where
  "small_request m = (case m of PhotoRequested n c \<Rightarrow> 1 \<le> unat n \<and> unat n \<le> 4 | _ \<Rightarrow> False)"

lemma request_small:
  assumes "0 < n"
  shows "small_request (PhotoRequested (word_of_nat (min n PHOTO_REQUEST_BATCH)) c)"
proof -
  have "unat (word_of_nat (min n 4) :: u16) = min n 4" by (simp add: unat_of_nat take_bit_nat_eq_self)
  then show ?thesis using assms by (simp add: small_request_def PHOTO_REQUEST_BATCH_def)
qed

lemma request_cases:
  assumes "request_more_photos env (f, slot) = (sent, f', slot')"
  shows "sent = [] \<and> slot' = slot \<or>
    (\<exists>prev m. slot = Unpoisoned prev \<and> sent = [m] \<and> small_request m \<and> slot' = Unpoisoned (Some (stamped_at env)) \<and>
       (\<forall>t. prev = Some t \<longrightarrow> PHOTO_REQUEST_COOLDOWN \<le> compared_at env - t))"
  using assms request_small
  by (auto simp: request_more_photos_def elapsed_def Let_def not_less split: if_splits mutex.splits option.splits)

lemma request_run_spaced:
  "sorted (call_times calls) \<Longrightarrow>
   sorted_wrt (\<lambda>a b. fst a + PHOTO_REQUEST_COOLDOWN \<le> fst b) (request_run calls slot) \<and>
   (\<forall>r \<in> set (request_run calls slot). small_request (snd r) \<and>
      (\<forall>t. slot = Unpoisoned (Some t) \<longrightarrow> t + PHOTO_REQUEST_COOLDOWN \<le> fst r))"
proof (induction calls arbitrary: slot)
  case Nil
  then show ?case by simp
next
  case (Cons call calls)
  obtain env f where call: "call = (env, f)" by force
  obtain sent f' slot' where one: "request_more_photos env (f, slot) = (sent, f', slot')"
    by (metis prod_cases3)
  have "sorted (call_times calls)" and order: "compared_at env \<le> stamped_at env"
    using Cons.prems by (simp_all add: call call_times_def)
  note IH = Cons.IH [OF this(1), of slot']
  from request_cases [OF one] show ?case
  proof (elim disjE exE conjE)
    assume "sent = []" "slot' = slot"
    with IH one show ?thesis by (auto simp: call)
  next
    fix prev m
    assume "slot = Unpoisoned prev" "sent = [m]" "small_request m" "slot' = Unpoisoned (Some (stamped_at env))"
      and "\<forall>t. prev = Some t \<longrightarrow> PHOTO_REQUEST_COOLDOWN \<le> compared_at env - t"
    moreover have "0 < PHOTO_REQUEST_COOLDOWN" by (simp add: PHOTO_REQUEST_COOLDOWN_def)
    ultimately show ?thesis using IH one order by (fastforce simp: call)
  qed
qed

text \<open>
  C26: the frame never floods its controller with requests. However the health thread and the taps call
  for more photos, and whatever the other threads do to the frame in between, any two requests are at
  least twenty seconds apart and each asks for one to four photos. Taps are paced like the rest: the comment
  at \<open>PHOTO_REQUEST_COOLDOWN\<close> promises an immediate request after a tap that empties the buffer, but there is
  one cooldown for all callers.
\<close>

theorem photo_requests_are_paced:
  assumes "sorted (call_times calls)"
  shows "sorted_wrt (\<lambda>a b. fst a + 20 * 10 ^ 9 \<le> fst b) (request_run calls slot) \<and>
    (\<forall>(time, m) \<in> set (request_run calls slot). small_request m)"
  using request_run_spaced [OF assms, of slot] by (auto simp: PHOTO_REQUEST_COOLDOWN_def)

definition idle_env :: "nat \<Rightarrow> request_env" where
  "idle_env t = \<lparr>refill_envs = (\<lambda>_. healthy_env None), list_wanted = everything, list_cached = everything,
     compared_at = t, stamped_at = t + 1\<rparr>"

theorem photo_requests_are_paced_witness:
  "request_run [(idle_env 0, fresh_frame), (idle_env 5, fresh_frame), (idle_env (30 * 10 ^ 9), fresh_frame)]
     (Unpoisoned None) = [(1, PhotoRequested 4 0), (30 * 10 ^ 9 + 1, PhotoRequested 4 0)] \<and>
   list_all (\<lambda>(time, m). small_request m) [(1 :: nat, PhotoRequested 4 0), (30 * 10 ^ 9 + 1, PhotoRequested 4 0)]"
proof -
  let ?calls = "[(idle_env 0, fresh_frame), (idle_env 5, fresh_frame), (idle_env (30 * 10 ^ 9), fresh_frame)]"
  have "top_up (\<lambda>_. healthy_env None) fresh_frame = fresh_frame"
    by (simp add: top_up_def fresh_frame_def top_up_from_cache.simps [of _ _ _ "[]"] take_oldest_def
        entries_everything names_def split: prod.split)
  moreover have "cached fresh_frame = []" by (simp add: fresh_frame_def)
  ultimately have run: "request_run ?calls (Unpoisoned None) =
      [(1, PhotoRequested 4 0), (30 * 10 ^ 9 + 1, PhotoRequested 4 0)]"
    by (simp add: request_more_photos_def idle_env_def wanted_def count_photos_def entries_everything names_def
        TARGET_PHOTOS_def PHOTO_REQUEST_BATCH_def PHOTO_REQUEST_COOLDOWN_def elapsed_def)
  have "sorted (call_times ?calls)" by (simp add: call_times_def idle_env_def)
  note paced = photo_requests_are_paced [OF this, of "Unpoisoned None", unfolded run]
  show ?thesis unfolding list_all_iff by (rule conjI [OF run conjunct2 [OF paced]])
qed

section \<open>The rotation while the controller is away\<close>

lemma top_up_healthy:
  assumes "own_cache (cached f)" and "memory f = Unpoisoned s"
  obtains s' where "memory (top_up (\<lambda>_. healthy_env None) f) = Unpoisoned s'"
    and "reserve s' (cached (top_up (\<lambda>_. healthy_env None) f)) = reserve s (cached f)"
    and "own_cache (cached (top_up (\<lambda>_. healthy_env None) f))"
    and "length (buffer s') < 2 \<Longrightarrow> photos (cached (top_up (\<lambda>_. healthy_env None) f)) = []"
    and "length (buffer s) \<le> length (buffer s')"
proof -
  obtain m fs where run: "top_up_from_cache (\<lambda>_. healthy_env None) 0 (Unpoisoned s) (cached f) = (m, fs)"
    by (metis prod.exhaust)
  then have "memory (top_up (\<lambda>_. healthy_env None) f) = m" "cached (top_up (\<lambda>_. healthy_env None) f) = fs"
    using assms(2) by (simp_all add: top_up_def)
  with top_up_reserve [OF assms(1) run] top_up_extends [OF run] that show thesis
    by (auto simp: MEMORY_BUFFER_TARGET_def)
qed

lemma rotate_offline_reserve:
  assumes "own_cache (cached f)" and "memory f = Unpoisoned s"
    and env: "first_refill env = (\<lambda>_. healthy_env None)" "second_refill env = (\<lambda>_. healthy_env None)"
  defines "R \<equiv> reserve s (cached f)"
  obtains s' where "memory (rotate_offline env f) = Unpoisoned s'" and "own_cache (cached (rotate_offline env f))"
    and "reserve s' (cached (rotate_offline env f)) = (if length R < 2 then R else tl R)"
    and "R \<noteq> [] \<Longrightarrow> buffer s' \<noteq> []"
proof -
  let ?f1 = "top_up (\<lambda>_. healthy_env None) f"
  obtain s1 where s1: "memory ?f1 = Unpoisoned s1" "reserve s1 (cached ?f1) = R" "own_cache (cached ?f1)"
      "length (buffer s1) < 2 \<Longrightarrow> photos (cached ?f1) = []"
    using top_up_healthy [OF assms(1,2)] unfolding R_def by blast
  show thesis
  proof (cases "length (buffer s1) < 2")
    case True
    then have "rotate_offline env f = ?f1"
      using s1(1) env by (cases ?f1) (simp add: rotate_offline_def advance_rendered_image_def advance_body_def)
    with that [of s1] s1 True show ?thesis by (auto simp: reserve_def)
  next
    case False
    let ?s2 = "s1\<lparr>buffer := tl (buffer s1), generation := generation s1 + 1\<rparr>"
    let ?f2 = "?f1\<lparr>memory := Unpoisoned ?s2\<rparr>"
    have rot: "rotate_offline env f = top_up (\<lambda>_. healthy_env None) ?f2"
      using False s1(1) env by (simp add: rotate_offline_def advance_rendered_image_def advance_body_def)
    have "own_cache (cached ?f2)" using s1(3) by simp
    then obtain s' where s': "memory (rotate_offline env f) = Unpoisoned s'" "own_cache (cached (rotate_offline env f))"
        "reserve s' (cached (rotate_offline env f)) = reserve ?s2 (cached ?f2)" "length (buffer ?s2) \<le> length (buffer s')"
      unfolding rot by (rule top_up_healthy [of ?f2 ?s2]) simp_all
    have R: "R = buffer s1 @ map panel_image (photos (cached ?f1))" using s1(2) by (simp add: reserve_def)
    have some: "buffer s1 \<noteq> []" and "2 \<le> length R" using False unfolding R by auto
    moreover from some have "reserve ?s2 (cached ?f2) = tl R" unfolding R by (simp add: reserve_def)
    moreover have "buffer s' \<noteq> []" using s'(4) False by auto
    ultimately show ?thesis using that [OF s'(1,2)] s'(3) by simp
  qed
qed

text \<open>Turns that find the controller away and the rotation due, each measured from the last one.\<close>

fun all_due :: "nat \<Rightarrow> main_env list \<Rightarrow> bool" where
  "all_due since [] = True"
| "all_due since (env # envs) \<longleftrightarrow>
     OFFLINE_ROTATION_INTERVAL \<le> checked_at env - since \<and> \<not> controller_connected (controller env) \<and>
     first_refill env = (\<lambda>_. healthy_env None) \<and> second_refill env = (\<lambda>_. healthy_env None) \<and>
     all_due (rotated_at env) envs"

lemma drop_one_at_a_time:
  assumes "R1 = (if length R < 2 then R else tl R)"
  shows "drop (min n (length R1 - 1)) R1 = drop (min (Suc n) (length R - 1)) R"
  using assms by (cases R) (auto simp: min_def drop_Cons' split: if_splits)

lemma main_run_rotates:
  "main_run font st envs ms = (Inr (), ms') \<Longrightarrow> all_due (last_offline_rotation ms) envs \<Longrightarrow>
   own_cache (cached (shared ms)) \<Longrightarrow> memory (shared ms) = Unpoisoned s \<Longrightarrow>
   (reserve s (cached (shared ms)) \<noteq> [] \<Longrightarrow> envs = [] \<Longrightarrow> buffer s \<noteq> []) \<Longrightarrow>
   \<exists>s'. memory (shared ms') = Unpoisoned s' \<and>
     (let R = reserve s (cached (shared ms)) in
        reserve s' (cached (shared ms')) = drop (min (length envs) (length R - 1)) R \<and>
        (R \<noteq> [] \<longrightarrow> buffer s' \<noteq> []))"
proof (induction envs arbitrary: ms s)
  case Nil
  then show ?case by (auto simp: Let_def)
next
  case (Cons env envs)
  let ?R = "reserve s (cached (shared ms))" and ?f = "rotate_offline env (shared ms)"
  obtain u where step: "main_turn font st env ms = (Inr (),
      ms\<lparr>glass_ui := u, last_offline_rotation := rotated_at env, shared := ?f\<rparr>)"
    and rest: "main_run font st envs (ms\<lparr>glass_ui := u, last_offline_rotation := rotated_at env, shared := ?f\<rparr>) = (Inr (), ms')"
    using Cons.prems(1,2) by (auto simp: main_turn_def elapsed_def Let_def split: prod.splits sum.splits)
  obtain s1 where s1: "memory ?f = Unpoisoned s1" "own_cache (cached ?f)"
      "reserve s1 (cached ?f) = (if length ?R < 2 then ?R else tl ?R)" "?R \<noteq> [] \<Longrightarrow> buffer s1 \<noteq> []"
    using rotate_offline_reserve [OF Cons.prems(3,4), of env] Cons.prems(2) by auto
  have ne: "reserve s1 (cached ?f) \<noteq> [] \<Longrightarrow> buffer s1 \<noteq> []"
    using s1(3,4) by (metis list.sel(2))
  let ?ms = "ms\<lparr>glass_ui := u, last_offline_rotation := rotated_at env, shared := ?f\<rparr>"
  have due: "all_due (last_offline_rotation ?ms) envs" using Cons.prems(2) by simp
  have "own_cache (cached (shared ?ms))" "memory (shared ?ms) = Unpoisoned s1" using s1 by simp_all
  from Cons.IH [OF rest due this] ne have "\<exists>s'. memory (shared ms') = Unpoisoned s' \<and>
     (let R1 = reserve s1 (cached ?f) in
        reserve s' (cached (shared ms')) = drop (min (length envs) (length R1 - 1)) R1 \<and> (R1 \<noteq> [] \<longrightarrow> buffer s' \<noteq> []))"
    by simp
  moreover have "?R \<noteq> [] \<Longrightarrow> reserve s1 (cached ?f) \<noteq> []" using s1(4) by (simp add: reserve_def)
  ultimately show ?case
    using drop_one_at_a_time [OF s1(3), of "length envs"] by (auto simp: Let_def)
qed

text \<open>
  C10: a frame whose controller has gone away keeps being a photo frame. On a healthy card, each turn of
  the main loop that finds a rotation due moves on by exactly one photo of the reserve, memory first
  and then the card in arrival order: after \<open>n\<close> of them the picture is the \<open>n\<close>-th photo of the reserve
  and those after it are still to come, in order; at the last one it stops and stays. The photos are used up
  and not cycled: none that has been replaced comes back, although the specification (\<open>spec.md\<close>, user story 4,
  scenario 3) asks an offline frame with nothing new to continue cycling the photos it holds.
\<close>

theorem offline_rotation_shows_the_reserve_in_order:
  assumes "main_run font st envs ms = (Inr (), ms')" and "all_due (last_offline_rotation ms) envs"
    and "own_cache (cached (shared ms))" and "memory (shared ms) = Unpoisoned s"
    and "R = reserve s (cached (shared ms))" and "R \<noteq> []" and "envs \<noteq> []"
  shows "\<exists>s'. memory (shared ms') = Unpoisoned s' \<and>
    front s' = Some (R ! min (length envs) (length R - 1)) \<and>
    reserve s' (cached (shared ms')) = drop (min (length envs) (length R - 1)) R"
proof -
  let ?k = "min (length envs) (length R - 1)"
  obtain s' where s': "memory (shared ms') = Unpoisoned s'"
      "reserve s' (cached (shared ms')) = drop ?k R" "buffer s' \<noteq> []"
    using main_run_rotates [OF assms(1-4)] assms(5-7) by (auto simp: Let_def)
  have "?k < length R" using assms(6) by (cases R) auto
  then have "drop ?k R = R ! ?k # drop (Suc ?k) R" by (rule Cons_nth_drop_Suc [symmetric])
  with s'(2,3) have "hd (buffer s') = R ! ?k" by (cases "buffer s'") (auto simp: reserve_def)
  with s' show ?thesis by (auto simp: front_Some_iff)
qed

definition away_env :: "nat \<Rightarrow> main_env" where
  "away_env t = \<lparr>drawn = Inr (), controller = Poisoned, checked_at = t, rotated_at = t,
     first_refill = (\<lambda>_. healthy_env None), second_refill = (\<lambda>_. healthy_env None)\<rparr>"

definition two_spares :: store where
  "two_spares = \<lparr>buffer = [px_image 1 ''a'', px_image 2 ''b'', px_image 3 ''c''], generation = 9\<rparr>"

definition rotating :: main_state where
  "rotating = \<lparr>glass_ui = \<lparr>panel = panel_init, showing = Photo 9\<rparr>,
     shared = fresh_frame\<lparr>memory := Unpoisoned two_spares\<rparr>, last_offline_rotation = 0\<rparr>"

lemma away_turn: "\<exists>ms'. main_run font st [away_env (300 * 10 ^ 9)] rotating = (Inr (), ms')"
  by (simp add: main_turn_def rotating_def away_env_def two_spares_def sync_def front_def Let_def)

theorem offline_rotation_shows_the_reserve_in_order_witness:
  "\<exists>ms' s'. main_run blank_font app_state_new [away_env (300 * 10 ^ 9)] rotating = (Inr (), ms') \<and>
     memory (shared ms') = Unpoisoned s' \<and> front s' = Some (px_image 2 ''b'') \<and>
     reserve s' (cached (shared ms')) = [px_image 2 ''b'', px_image 3 ''c'']"
proof -
  obtain ms' where run: "main_run blank_font app_state_new [away_env (300 * 10 ^ 9)] rotating = (Inr (), ms')"
    using away_turn by blast
  have "all_due (last_offline_rotation rotating) [away_env (300 * 10 ^ 9)]"
    by (simp add: rotating_def away_env_def OFFLINE_ROTATION_INTERVAL_def controller_connected_def
        controller_state_snapshot_def)
  moreover have "own_cache (cached (shared rotating))" "memory (shared rotating) = Unpoisoned two_spares"
    "reserve two_spares (cached (shared rotating)) = [px_image 1 ''a'', px_image 2 ''b'', px_image 3 ''c'']"
    by (simp_all add: rotating_def fresh_frame_def own_cache_Nil reserve_def two_spares_def)
  ultimately show ?thesis
    using offline_rotation_shows_the_reserve_in_order [OF run, of two_spares "reserve two_spares (cached (shared rotating))"]
      run by auto
qed

text \<open>
  While the controller is connected the main loop leaves the photos alone: it reconciles the panel, and
  neither advances, nor takes a photo from the card, nor restarts the rotation clock, for any number of
  turns and however late they are.
\<close>

theorem connected_controller_decides:
  assumes "\<forall>env \<in> set envs. controller_connected (controller env)"
    and "main_run font st envs ms = (r, ms')"
  shows "shared ms' = shared ms \<and> last_offline_rotation ms' = last_offline_rotation ms"
  using assms
proof (induction envs arbitrary: ms)
  case Nil
  then show ?case by auto
next
  case (Cons env envs)
  obtain r1 ms1 where one: "main_turn font st env ms = (r1, ms1)" by (metis prod.exhaust)
  have same: "shared ms1 = shared ms" "last_offline_rotation ms1 = last_offline_rotation ms"
    using one Cons.prems(1) by (auto simp: main_turn_def Let_def split: prod.splits sum.splits)
  show ?case
    using Cons.prems one same Cons.IH [of ms1] by (auto split: sum.splits)
qed

definition home_assistant_env :: main_env where
  "home_assistant_env = (away_env (10 ^ 15))\<lparr>controller := Unpoisoned \<lparr>ctl_generation = 1, ctl_phase = CtlConnected\<rparr>\<rparr>"

theorem connected_controller_decides_witness:
  "shared (snd (main_run blank_font app_state_new [home_assistant_env, home_assistant_env] rotating)) = shared rotating"
proof -
  have "\<forall>env \<in> set [home_assistant_env, home_assistant_env]. controller_connected (controller env)"
    by (simp add: home_assistant_env_def controller_connected_def controller_state_snapshot_def)
  from connected_controller_decides [OF this surjective_pairing] show ?thesis by blast
qed

section \<open>Local photos do not keep cached ones out\<close>

text \<open>
  C40: the owner's photos do not keep Home Assistant's off the screen. While the local slideshow runs, the
  executor ignores every photo the controller sends, but the health thread still tops memory up
  from the card: with nothing in memory yet, its first turn puts the oldest cached Home Assistant photo
  on the screen.
\<close>

theorem cached_photo_reaches_a_local_frame:
  assumes "local_photos_active f" and "memory f = Unpoisoned s" and "buffer s = []"
    and "own_cache (cached f)" and "photos (cached f) = p # ps"
    and "refill_envs env = (\<lambda>_. healthy_env None)"
    and "health_turn sd_text source env (f, slot) = (sent, f', slot')"
  shows "local_photos_active f' \<and> on_screen f' = Some (panel_image p)"
proof -
  obtain s' where s': "memory (top_up (\<lambda>_. healthy_env None) f) = Unpoisoned s'"
      "reserve s' (cached (top_up (\<lambda>_. healthy_env None) f)) = reserve s (cached f)"
      "length (buffer s') < 2 \<Longrightarrow> photos (cached (top_up (\<lambda>_. healthy_env None) f)) = []"
    using top_up_healthy [OF assms(4,2)] by blast
  have "reserve s (cached f) = panel_image p # map panel_image ps" using assms(3,5) by (simp add: reserve_def)
  with s'(2,3) have "front s' = Some (panel_image p)"
    by (cases "buffer s'") (auto simp: reserve_def front_def)
  moreover have "f' = top_up (\<lambda>_. healthy_env None) f"
    using assms(6,7) by (auto simp: health_turn_def request_more_photos_def Let_def split: prod.splits mutex.splits if_splits)
  moreover have "local_active (top_up envs f) = local_active f" for envs
    by (simp add: top_up_def split: prod.split)
  ultimately show ?thesis using s'(1) assms(1) by (simp add: on_screen_def local_photos_active_def)
qed

theorem cached_photo_reaches_a_local_frame_witness:
  "\<exists>f'. local_photos_active f' \<and> on_screen f' = Some (panel_image black_photo) \<and>
     f' = fst (snd (health_turn ''ready'' ''SD card'' (idle_env 0)
            (snd (start_photo_source two_photos (fresh_frame\<lparr>cached := put_healthy None ''a1'' black_photo []\<rparr>)), Unpoisoned None)))"
proof -
  let ?fs = "put_healthy None ''a1'' black_photo []"
  let ?f = "snd (start_photo_source two_photos (fresh_frame\<lparr>cached := ?fs\<rparr>))"
  have f: "?f = fresh_frame\<lparr>cached := ?fs, local_active := True\<rparr>"
    by (simp add: start_photo_source_def two_photos_def lib_is_empty_def set_local_photos_active_def)
  have fs: "own_cache ?fs" "photos ?fs = [black_photo]"
    using cache.put_inv [of "[]"] cache.put_contents [of "[]" None "''a1''" black_photo] accepted_empty
    by (simp_all add: own_cache_Nil)
  obtain sent f' slot' where turn: "health_turn ''ready'' ''SD card'' (idle_env 0) (?f, Unpoisoned None) = (sent, f', slot')"
    by (metis prod_cases3)
  have "local_photos_active ?f" "memory ?f = Unpoisoned store_init" "buffer store_init = []" "cached ?f = ?fs"
    "refill_envs (idle_env 0) = (\<lambda>_. healthy_env None)"
    unfolding f by (simp_all add: local_photos_active_def fresh_frame_def store_init_def idle_env_def)
  with cached_photo_reaches_a_local_frame [OF _ _ _ _ _ _ turn] fs have
    "local_photos_active f' \<and> on_screen f' = Some (panel_image black_photo)" by metis
  with turn show ?thesis by auto
qed

end
