(* ===== verification/Touch_Input.thy ===== *)
theory Touch_Input
  imports Main
begin

text \<open>
  Tap detection: the polling loop of \<open>frame-firmware/src/touch.rs\<close>. One poll is what the touch
  controller gives (a failed read, or whether a finger is down) and the time at which it is handled;
  times are nanoseconds of \<open>Instant::now\<close>, which never goes back. Starting the controller and the
  thread is in the BSP and not modelled beyond its outcome.
\<close>

definition TAP_COOLDOWN :: nat where
  "TAP_COOLDOWN = 600 * 10 ^ 6"

text \<open>\<open>start\<close>: touch is available when the BSP returns success and a handle.\<close>

definition touch_start :: "int \<Rightarrow> int \<Rightarrow> bool \<Rightarrow> bool" where
  "touch_start esp_ok code handle_null = (\<not> (code \<noteq> esp_ok \<or> handle_null))"

datatype poll = BadRead | Read bool nat

record touch_state =
  was_touching :: bool
  last_tap :: "nat option"

definition touch_init :: touch_state where
  "touch_init = \<lparr>was_touching = False, last_tap = None\<rparr>"

text \<open>\<open>duration_since\<close> saturates at zero.\<close>

definition in_cooldown :: "nat option \<Rightarrow> nat \<Rightarrow> bool" where
  "in_cooldown prev_tap now = (case prev_tap of None \<Rightarrow> False | Some previous \<Rightarrow> now - previous < TAP_COOLDOWN)"

text \<open>One poll: the new state, and the time of the tap if \<open>on_tap\<close> is called.\<close>

definition touch_step :: "poll \<Rightarrow> touch_state \<Rightarrow> nat option \<times> touch_state" where
  "touch_step p s =
     (case p of
        BadRead \<Rightarrow> (None, s)
      | Read touching now \<Rightarrow>
          (let pressed = (touching \<and> \<not> was_touching s);
               s1 = s\<lparr>was_touching := touching\<rparr>
           in if \<not> pressed then (None, s1)
              else if in_cooldown (last_tap s1) now then (None, s1)
              else (Some now, s1\<lparr>last_tap := Some now\<rparr>)))"

fun touch_run :: "poll list \<Rightarrow> touch_state \<Rightarrow> nat list" where
  "touch_run [] s = []"
| "touch_run (p # ps) s =
     (case touch_step p s of
        (None, s') \<Rightarrow> touch_run ps s'
      | (Some t, s') \<Rightarrow> t # touch_run ps s')"

text \<open>The times at which a finger went down: a good read with it down after a good one without.\<close>

fun presses :: "bool \<Rightarrow> poll list \<Rightarrow> nat list" where
  "presses down [] = []"
| "presses down (BadRead # ps) = presses down ps"
| "presses down (Read touching now # ps) =
     (if touching \<and> \<not> down then [now] else []) @ presses touching ps"

text \<open>The presses left when those within the cooldown of the last accepted one are dropped.\<close>

fun accept :: "nat option \<Rightarrow> nat list \<Rightarrow> nat list" where
  "accept prev_tap [] = []"
| "accept prev_tap (t # ts) = (if in_cooldown prev_tap t then accept prev_tap ts else t # accept (Some t) ts)"

lemma touch_run_accept:
  "touch_run ps s = accept (last_tap s) (presses (was_touching s) ps)"
proof (induction ps arbitrary: s)
  case (Cons p ps)
  show ?case
  proof (cases p)
    case (Read touching now)
    then show ?thesis by (simp add: touch_step_def Cons Let_def)
  qed (simp add: touch_step_def Cons)
qed simp

lemma accept_spaced:
  "sorted_wrt (\<lambda>a b. a + TAP_COOLDOWN \<le> b) (accept prev_tap ts) \<and>
   (\<forall>previous. prev_tap = Some previous \<longrightarrow> sorted (previous # ts) \<longrightarrow>
      (\<forall>t \<in> set (accept prev_tap ts). previous + TAP_COOLDOWN \<le> t))"
  if "sorted ts"
  using that
proof (induction ts arbitrary: prev_tap)
  case (Cons t ts)
  have "sorted_wrt (\<lambda>a b. a + TAP_COOLDOWN \<le> b) (accept (Some t) ts)"
    and "\<forall>u \<in> set (accept (Some t) ts). t + TAP_COOLDOWN \<le> u"
    using Cons.IH [of "Some t"] Cons.prems by auto
  moreover have "sorted_wrt (\<lambda>a b. a + TAP_COOLDOWN \<le> b) (accept prev_tap ts)"
    and "\<And>previous. prev_tap = Some previous \<Longrightarrow> sorted (previous # ts) \<Longrightarrow>
      \<forall>u \<in> set (accept prev_tap ts). previous + TAP_COOLDOWN \<le> u"
    using Cons.IH [of prev_tap] Cons.prems by auto
  ultimately show ?case
    by (auto simp: in_cooldown_def split: option.splits)
qed simp

lemma accept_subset: "set (accept prev_tap ts) \<subseteq> set ts"
  by (induction prev_tap ts rule: accept.induct) auto

definition poll_times :: "poll list \<Rightarrow> nat list" where
  "poll_times ps = concat (map (\<lambda>p. case p of BadRead \<Rightarrow> [] | Read _ now \<Rightarrow> [now]) ps)"

lemma presses_times: "set (presses down ps) \<subseteq> set (poll_times ps)"
  by (induction down ps rule: presses.induct) (auto simp: poll_times_def)

lemma presses_sorted: "sorted (poll_times ps) \<Longrightarrow> sorted (presses down ps)"
proof (induction down ps rule: presses.induct)
  case (3 down touching now ps)
  then show ?case
    using presses_times [of touching ps] by (auto simp: poll_times_def)
qed (simp_all add: poll_times_def)

text \<open>
  C27: taps are presses, at least 600 ms apart: over any sequence of polls in time order the photo
  advances exactly at the presses (the finger going down, never while it rests on the glass) that
  remain when each accepted one silences the next 600 ms, so two taps are never closer, a failed
  read changes nothing, and the first press always counts.
\<close>

theorem taps_are_spaced_presses:
  assumes "sorted (poll_times ps)"
  shows "touch_run ps touch_init = accept None (presses False ps) \<and>
    sorted_wrt (\<lambda>a b. a + TAP_COOLDOWN \<le> b) (touch_run ps touch_init) \<and>
    set (touch_run ps touch_init) \<subseteq> set (presses False ps) \<and>
    (presses False ps \<noteq> [] \<longrightarrow> touch_run ps touch_init \<noteq> [] \<and>
       hd (touch_run ps touch_init) = hd (presses False ps))"
proof -
  have run: "touch_run ps touch_init = accept None (presses False ps)"
    by (simp add: touch_run_accept touch_init_def)
  have "hd (accept None ts) = hd ts \<and> accept None ts \<noteq> []" if "ts \<noteq> []" for ts
    using that by (cases ts) (simp_all add: in_cooldown_def)
  then show ?thesis
    unfolding run
    using accept_spaced [OF presses_sorted [OF assms], of None False] accept_subset by blast
qed

theorem taps_are_spaced_presses_witness:
  "touch_run [Read True 100, Read True 200, Read False 300, Read True 400, BadRead, Read False 500,
     Read True 700000000] touch_init = [100, 700000000] \<and>
   sorted_wrt (\<lambda>a b. a + TAP_COOLDOWN \<le> b) [100, 700000000]"
proof -
  let ?ps = "[Read True 100, Read True 200, Read False 300, Read True 400, BadRead, Read False 500,
     Read True 700000000]"
  have "sorted (poll_times ?ps)" by (simp add: poll_times_def)
  moreover have "accept None (presses False ?ps) = [100, 700000000]"
    by (simp add: in_cooldown_def TAP_COOLDOWN_def)
  ultimately show ?thesis using taps_are_spaced_presses [of ?ps] by metis
qed

end
