(* ===== verification/Wifi_Driver.thy ===== *)
theory Wifi_Driver
  imports Frame_Text
begin

text \<open>
  Wi-Fi: \<open>frame-net/src/wifi.rs\<close> on the device. What the code can see of the radio is a state: the
  configuration it runs with and whether it is on. The driver (\<open>BlockingWifi\<close>) is an argument: what each
  of its calls answers and does to the radio, on each attempt, and the capacities of its SSID and password
  strings. The global \<open>WIFI_MANAGER\<close> is a lock around the radio, absent before \<open>init_wifi_manager\<close>, and is
  threaded through the calls. Sleeps and log output (with the reads that are only logged) are not modelled.

  The lemmas show when a station connection succeeds, and that the setup access point is only ever
  reported up when the radio really serves the network asked for or the known open one.
\<close>

section \<open>Configurations\<close>

datatype AuthMethod = AuthNone | WPA2Personal | OtherAuth

record ClientConfiguration =
  client_ssid :: string
  client_password :: string
  client_auth :: AuthMethod

record AccessPointConfiguration =
  ap_ssid :: string
  ap_password :: string
  ap_auth :: AuthMethod

datatype Configuration =
    NoConfiguration
  | Client ClientConfiguration
  | AccessPoint AccessPointConfiguration
  | Mixed ClientConfiguration AccessPointConfiguration

record radio =
  configuration :: Configuration
  radio_on :: bool

text \<open>
  What the driver does on each attempt of a loop: its answer and the radio afterwards. \<open>start_ap\<close> sets
  its configuration twice per attempt. Attempt 0 is a read outside the loops.
\<close>

record wifi_driver =
  max_ssid :: nat
  max_password :: nat
  pre_stop :: "nat \<Rightarrow> radio \<Rightarrow> unit result \<times> radio"
  set_config :: "nat \<Rightarrow> Configuration \<Rightarrow> radio \<Rightarrow> unit result \<times> radio"
  set_config_again :: "nat \<Rightarrow> Configuration \<Rightarrow> radio \<Rightarrow> unit result \<times> radio"
  wifi_start :: "nat \<Rightarrow> radio \<Rightarrow> unit result \<times> radio"
  wifi_connect :: "nat \<Rightarrow> radio \<Rightarrow> unit result \<times> radio"
  wait_netif_up :: "nat \<Rightarrow> radio \<Rightarrow> unit result \<times> radio"
  get_config :: "nat \<Rightarrow> radio \<Rightarrow> Configuration result"
  wifi_stop :: "radio \<Rightarrow> unit result \<times> radio"
  wifi_scan :: "radio \<Rightarrow> string list result"
  sta_ip :: "radio \<Rightarrow> (u8 \<times> u8 \<times> u8 \<times> u8) result"

text \<open>A call followed by \<open>?\<close>: go on with the radio it left, or return its error.\<close>

definition then_do :: "unit result \<times> radio \<Rightarrow> (radio \<Rightarrow> unit result \<times> radio) \<Rightarrow> unit result \<times> radio" where
  "then_do out f = (case out of (Inl e, r) \<Rightarrow> (Inl e, r) | (Inr _, r) \<Rightarrow> f r)"

definition ALLOW_HOSTED_OPEN_AP_FALLBACK :: bool where
  "ALLOW_HOSTED_OPEN_AP_FALLBACK = True"

definition STA_CONNECT_RETRIES :: nat where
  "STA_CONNECT_RETRIES = 5"

definition ap_credentials_from_config :: "Configuration \<Rightarrow> (string \<times> string) option" where
  "ap_credentials_from_config config =
     (case config of
        AccessPoint ap \<Rightarrow> Some (ap_ssid ap, ap_password ap)
      | Mixed _ ap \<Rightarrow> Some (ap_ssid ap, ap_password ap)
      | _ \<Rightarrow> None)"

definition is_known_hosted_open_ap :: "string \<Rightarrow> string \<Rightarrow> bool \<Rightarrow> bool" where
  "is_known_hosted_open_ap ssid password auth_open \<longleftrightarrow>
     auth_open \<and> password = [] \<and> has_prefix ''ESP_'' ssid \<and> length ssid = 10 \<and>
     list_all is_ascii_hexdigit (drop 4 ssid)"

text \<open>\<open>WIFI_MANAGER\<close>, a \<open>OnceCell\<close> of a lock.\<close>

type_synonym wifi_static = "radio mutex option"

definition with_wifi_manager :: "(radio \<Rightarrow> 'a result \<times> radio) \<Rightarrow> wifi_static \<Rightarrow> 'a result \<times> wifi_static" where
  "with_wifi_manager f m =
     (case m of
        None \<Rightarrow> (Inl (Msg ''WifiManager is not initialized''), m)
      | Some Poisoned \<Rightarrow> (Inl (Msg ''WifiManager mutex poisoned''), m)
      | Some (Unpoisoned r) \<Rightarrow> (case f r of (out, r') \<Rightarrow> (out, Some (Unpoisoned r'))))"

text \<open>\<open>init_wifi_manager\<close>; \<open>created\<close> is the driver it wraps, or the error of creating it.\<close>

definition init_wifi_manager :: "radio result \<Rightarrow> wifi_static \<Rightarrow> unit result \<times> wifi_static" where
  "init_wifi_manager created m =
     (case created of
        Inl e \<Rightarrow> (Inl e, m)
      | Inr r \<Rightarrow> (case m of
                    None \<Rightarrow> (Inr (), Some (Unpoisoned r))
                  | Some _ \<Rightarrow> (Inl (Msg ''failed to set WIFI_MANAGER''), m)))"

definition client_config_from :: "wifi_driver \<Rightarrow> string \<Rightarrow> string \<Rightarrow> ClientConfiguration result" where
  "client_config_from d ssid password =
     (if max_ssid d < length ssid then Inl (Msg ''ssid too long for client configuration'')
      else if max_password d < length password then Inl (Msg ''password too long for client configuration'')
      else Inr \<lparr>client_ssid = ssid, client_password = password,
                client_auth = (if password = [] then AuthNone else WPA2Personal)\<rparr>)"

definition ap_config_from :: "wifi_driver \<Rightarrow> string \<Rightarrow> string \<Rightarrow> AccessPointConfiguration result" where
  "ap_config_from d ssid password =
     (if max_ssid d < length ssid then Inl (Msg ''ssid too long for AP configuration'')
      else if max_password d < length password then Inl (Msg ''password too long for AP configuration'')
      else Inr \<lparr>ap_ssid = ssid, ap_password = password,
                ap_auth = (if password = [] then AuthNone else WPA2Personal)\<rparr>)"

section \<open>Joining a network\<close>

definition attempts :: "nat list" where
  "attempts = [1..<Suc STA_CONNECT_RETRIES]"

definition sta_failed :: "string \<Rightarrow> string option \<Rightarrow> error" where
  "sta_failed ssid last_error =
     Msg (''failed to connect to ssid '' @ [CHR 0x27] @ ssid @ [CHR 0x27] @ '' after ''
          @ show_nat STA_CONNECT_RETRIES @ '' attempts: ''
          @ (case last_error of None \<Rightarrow> ''unknown station error'' | Some e \<Rightarrow> e))"

fun connect_loop ::
  "wifi_driver \<Rightarrow> string \<Rightarrow> string \<Rightarrow> nat list \<Rightarrow> string option \<Rightarrow> radio \<Rightarrow> unit result \<times> radio" where
  "connect_loop d ssid password [] last_error r = (Inl (sta_failed ssid last_error), r)"
| "connect_loop d ssid password (attempt # rest) last_error r =
     (let r0 = snd (pre_stop d attempt r) in
      case client_config_from d ssid password of
        Inl e \<Rightarrow> (Inl e, r0)
      | Inr config \<Rightarrow>
          then_do (set_config d attempt (Client config) r0) (\<lambda>r1.
          then_do (wifi_start d attempt r1) (\<lambda>r2.
            case wifi_connect d attempt r2 of
              (Inl e, r3) \<Rightarrow> connect_loop d ssid password rest (Some (fmt_error e)) r3
            | (Inr _, r3) \<Rightarrow>
                (case wait_netif_up d attempt r3 of
                   (Inr _, r4) \<Rightarrow> (Inr (), r4)
                 | (Inl e, r4) \<Rightarrow> connect_loop d ssid password rest (Some (fmt_error e)) r4))))"

definition connect :: "wifi_driver \<Rightarrow> string \<Rightarrow> string \<Rightarrow> wifi_static \<Rightarrow> unit result \<times> wifi_static" where
  "connect d ssid password = with_wifi_manager (connect_loop d ssid password attempts None)"

section \<open>The setup access point\<close>

definition auth_open_of :: "Configuration \<Rightarrow> bool" where
  "auth_open_of config =
     (case config of
        AccessPoint ap \<Rightarrow> ap_auth ap = AuthNone
      | Mixed _ ap \<Rightarrow> ap_auth ap = AuthNone
      | _ \<Rightarrow> False)"

definition ap_matches :: "string \<Rightarrow> string \<Rightarrow> string \<times> string \<Rightarrow> bool \<Rightarrow> bool" where
  "ap_matches ssid password eff auth_open \<longleftrightarrow>
     fst eff = ssid \<and> snd eff = password \<and> (password = []) = auth_open"

definition show_bool :: "bool \<Rightarrow> string" where
  "show_bool b = (if b then ''true'' else ''false'')"

definition observation :: "nat \<Rightarrow> string \<times> string \<Rightarrow> bool \<Rightarrow> string" where
  "observation attempt eff auth_open =
     ''attempt '' @ show_nat attempt @ '': active ssid='' @ [CHR 0x27] @ fst eff @ [CHR 0x27]
     @ '', password_len='' @ show_nat (length (snd eff)) @ '', protected='' @ show_bool (\<not> auth_open)"

text \<open>After the last attempt: the fallback on what was seen last, then the error.\<close>

definition ap_give_up :: "string \<Rightarrow> (string \<times> string \<times> bool) option \<Rightarrow> unit result" where
  "ap_give_up last_observation last_effective =
     (case last_effective of
        Some (s, p, auth_open) \<Rightarrow>
          if ALLOW_HOSTED_OPEN_AP_FALLBACK \<and> is_known_hosted_open_ap s p auth_open then Inr ()
          else Inl (Msg (''failed to apply AP credentials after retries; refusing to continue with unknown AP security; '' @ last_observation))
      | None \<Rightarrow> Inl (Msg (''failed to apply AP credentials after retries; refusing to continue with unknown AP security; '' @ last_observation)))"

fun start_ap_loop ::
  "wifi_driver \<Rightarrow> string \<Rightarrow> string \<Rightarrow> nat list \<Rightarrow> string \<Rightarrow> (string \<times> string \<times> bool) option \<Rightarrow> radio
   \<Rightarrow> unit result \<times> radio" where
  "start_ap_loop d ssid password [] last_obs last_eff r = (ap_give_up last_obs last_eff, r)"
| "start_ap_loop d ssid password (attempt # rest) last_obs last_eff r =
     (let r0 = snd (pre_stop d attempt r) in
      case ap_config_from d ssid password of
        Inl e \<Rightarrow> (Inl e, r0)
      | Inr config \<Rightarrow>
          then_do (set_config d attempt (AccessPoint config) r0) (\<lambda>r1.
          then_do (wifi_start d attempt r1) (\<lambda>r2.
          then_do (wait_netif_up d attempt r2) (\<lambda>r3.
          then_do (set_config_again d attempt (AccessPoint config) r3) (\<lambda>r4.
            case get_config d attempt r4 of
              Inr active \<Rightarrow>
                (case ap_credentials_from_config active of
                   Some eff \<Rightarrow>
                     (let auth_open = auth_open_of active in
                      if ap_matches ssid password eff auth_open then (Inr (), r4)
                      else if ALLOW_HOSTED_OPEN_AP_FALLBACK \<and>
                              is_known_hosted_open_ap (fst eff) (snd eff) auth_open then (Inr (), r4)
                      else start_ap_loop d ssid password rest (observation attempt eff auth_open)
                             (Some (fst eff, snd eff, auth_open)) r4)
                 | None \<Rightarrow> start_ap_loop d ssid password rest last_obs last_eff r4)
            | Inl _ \<Rightarrow>
                start_ap_loop d ssid password rest
                  (''attempt '' @ show_nat attempt @ '': unable to read active AP configuration'') last_eff r4)))))"

definition start_ap :: "wifi_driver \<Rightarrow> string \<Rightarrow> string \<Rightarrow> wifi_static \<Rightarrow> unit result \<times> wifi_static" where
  "start_ap d ssid password =
     with_wifi_manager (start_ap_loop d ssid password [1..<6] ''no AP configuration observed'' None)"

definition stop_ap :: "wifi_driver \<Rightarrow> wifi_static \<Rightarrow> unit result \<times> wifi_static" where
  "stop_ap d = with_wifi_manager (wifi_stop d)"

text \<open>The calls that only read.\<close>

definition current_ap_credentials :: "wifi_driver \<Rightarrow> wifi_static \<Rightarrow> (string \<times> string) option result" where
  "current_ap_credentials d m =
     fst (with_wifi_manager (\<lambda>r. (and_then (get_config d 0 r) (\<lambda>c. Inr (ap_credentials_from_config c)), r)) m)"

definition scan :: "wifi_driver \<Rightarrow> wifi_static \<Rightarrow> string list result" where
  "scan d m = fst (with_wifi_manager (\<lambda>r. (wifi_scan d r, r)) m)"

definition current_sta_ip :: "wifi_driver \<Rightarrow> wifi_static \<Rightarrow> string option result" where
  "current_sta_ip d m =
     fst (with_wifi_manager (\<lambda>r. (and_then (sta_ip d r) (\<lambda>(a, b, c, e).
       if (a, b, c, e) = (0, 0, 0, 0) then Inr None
       else Inr (Some (show_nat (unat a) @ ''.'' @ show_nat (unat b) @ ''.'' @ show_nat (unat c)
              @ ''.'' @ show_nat (unat e)))), r)) m)"

text \<open>The build for the host has no radio: everything succeeds at once and there is nothing to report.\<close>

definition host_scan :: "string list result" where
  "host_scan = Inr [''Mock WiFi 1'', ''Mock WiFi 2'', ''Mock WiFi 3'']"

definition host_connect :: "string \<Rightarrow> string \<Rightarrow> unit result" where
  "host_connect ssid password = Inr ()"

definition host_start_ap :: "string \<Rightarrow> string \<Rightarrow> unit result" where
  "host_start_ap ssid password = Inr ()"

definition host_stop_ap :: "unit result" where
  "host_stop_ap = Inr ()"

definition host_current_ap_credentials :: "(string \<times> string) option result" where
  "host_current_ap_credentials = Inr None"

definition host_current_sta_ip :: "string option result" where
  "host_current_sta_ip = Inr None"

section \<open>Joining: lemmas\<close>

lemma then_do_simps [simp]: "then_do (Inl e, r) f = (Inl e, r)" "then_do (Inr u, r) f = f r"
  by (simp_all add: then_do_def)

lemma then_do_Inr: "then_do out f = (Inr u, r') \<longleftrightarrow> (\<exists>r. out = (Inr (), r) \<and> f r = (Inr u, r'))"
  by (cases out) (auto simp: then_do_def split: sum.splits)

lemma with_wifi_manager_Inr:
  "with_wifi_manager f m = (Inr a, m') \<longleftrightarrow>
     (\<exists>r r'. m = Some (Unpoisoned r) \<and> f r = (Inr a, r') \<and> m' = Some (Unpoisoned r'))"
  by (auto simp: with_wifi_manager_def split: option.splits mutex.splits prod.splits)

text \<open>Credentials that fit, and a driver that accepts the configuration and starts.\<close>

definition station_usable :: "wifi_driver \<Rightarrow> string \<Rightarrow> string \<Rightarrow> bool" where
  "station_usable d ssid password \<longleftrightarrow>
     length ssid \<le> max_ssid d \<and> length password \<le> max_password d \<and>
     (\<forall>k c r. is_ok (fst (set_config d k c r))) \<and> (\<forall>k r. is_ok (fst (wifi_start d k r)))"

definition attempt_joins :: "wifi_driver \<Rightarrow> nat \<Rightarrow> bool" where
  "attempt_joins d k \<longleftrightarrow> (\<forall>r. is_ok (fst (wifi_connect d k r))) \<and> (\<forall>r. is_ok (fst (wait_netif_up d k r)))"

definition attempt_fails :: "wifi_driver \<Rightarrow> nat \<Rightarrow> bool" where
  "attempt_fails d k \<longleftrightarrow> (\<forall>r. \<not> is_ok (fst (wifi_connect d k r))) \<or> (\<forall>r. \<not> is_ok (fst (wait_netif_up d k r)))"

lemma set_attempts: "set attempts = {1..5}"
  by (auto simp: attempts_def STA_CONNECT_RETRIES_def)

lemma connect_attempt:
  assumes "station_usable d ssid password"
  obtains r2 e r3 where "wifi_connect d k r2 = (Inl e, r3)"
      "\<And>rest. connect_loop d ssid password (k # rest) l r = connect_loop d ssid password rest (Some (fmt_error e)) r3"
    | r2 r3 e r4 where "wifi_connect d k r2 = (Inr (), r3)" "wait_netif_up d k r3 = (Inl e, r4)"
      "\<And>rest. connect_loop d ssid password (k # rest) l r = connect_loop d ssid password rest (Some (fmt_error e)) r4"
    | r2 r3 r4 where "wifi_connect d k r2 = (Inr (), r3)" "wait_netif_up d k r3 = (Inr (), r4)"
      "\<And>rest. connect_loop d ssid password (k # rest) l r = (Inr (), r4)"
proof -
  obtain c where c: "client_config_from d ssid password = Inr c"
    using assms by (auto simp: client_config_from_def station_usable_def)
  have "\<exists>r1. set_config d k (Client c) (snd (pre_stop d k r)) = (Inr (), r1)"
    using assms by (metis is_ok_iff old.unit.exhaust prod.collapse station_usable_def)
  then obtain r1 where r1: "set_config d k (Client c) (snd (pre_stop d k r)) = (Inr (), r1)" ..
  have "\<exists>r2. wifi_start d k r1 = (Inr (), r2)"
    using assms by (metis is_ok_iff old.unit.exhaust prod.collapse station_usable_def)
  then obtain r2 where "wifi_start d k r1 = (Inr (), r2)" ..
  with c r1 that [of r2] show ?thesis
    by (cases "wifi_connect d k r2"; cases "fst (wifi_connect d k r2)"; cases "wait_netif_up d k (snd (wifi_connect d k r2))";
        cases "fst (wait_netif_up d k (snd (wifi_connect d k r2)))") (simp_all add: Let_def)
qed

lemma connect_loop_joins:
  assumes "station_usable d ssid password"
  shows "\<exists>k \<in> set ks. attempt_joins d k \<Longrightarrow> is_ok (fst (connect_loop d ssid password ks l r))"
proof (induction ks arbitrary: l r)
  case (Cons k ks)
  show ?case
    by (rule connect_attempt [OF assms, of k l r]) (use Cons in \<open>auto simp: attempt_joins_def simp del: connect_loop.simps(2), (metis fst_conv is_ok_simps(1))+\<close>)
qed simp

lemma connect_loop_fails:
  assumes "station_usable d ssid password"
  shows "\<forall>k \<in> set ks. attempt_fails d k \<Longrightarrow> \<not> is_ok (fst (connect_loop d ssid password ks l r))"
proof (induction ks arbitrary: l r)
  case (Cons k ks)
  show ?case
    by (rule connect_attempt [OF assms, of k l r]) (use Cons in \<open>auto simp: attempt_fails_def simp del: connect_loop.simps(2), (metis fst_conv is_ok_simps(2))+\<close>)
qed simp

lemma connect_outcome:
  "fst (connect d ssid password (Some (Unpoisoned r))) = fst (connect_loop d ssid password attempts None r)"
  by (simp add: connect_def with_wifi_manager_def split: prod.split)

text \<open>
  Joining a network takes one good attempt of five: with credentials that fit and a driver that accepts
  the configuration and starts, \<open>connect\<close> succeeds when in some attempt from 1 to 5 the driver
  connects and gets an address, and fails when in each of them one of the two is refused.
\<close>

theorem connect_takes_one_good_attempt:
  assumes "station_usable d ssid password"
  shows "((\<exists>k. 1 \<le> k \<and> k \<le> 5 \<and> attempt_joins d k) \<longrightarrow>
      is_ok (fst (connect d ssid password (Some (Unpoisoned r))))) \<and>
    ((\<forall>k. 1 \<le> k \<and> k \<le> 5 \<longrightarrow> attempt_fails d k) \<longrightarrow>
      \<not> is_ok (fst (connect d ssid password (Some (Unpoisoned r)))))"
  unfolding connect_outcome using connect_loop_joins [OF assms, of attempts] connect_loop_fails [OF assms, of attempts]
  unfolding set_attempts Bex_def Ball_def atLeastAtMost_iff by blast

text \<open>A radio whose coprocessor keeps its own open network, and joins on the third attempt.\<close>

definition hosted_ap :: AccessPointConfiguration where
  "hosted_ap = \<lparr>ap_ssid = ''ESP_0a1B2c'', ap_password = [], ap_auth = AuthNone\<rparr>"

definition sample_driver :: wifi_driver where
  "sample_driver = \<lparr>max_ssid = 32, max_password = 64,
     pre_stop = (\<lambda>_ r. (Inr (), r\<lparr>radio_on := False\<rparr>)),
     set_config = (\<lambda>_ c r. (Inr (), r\<lparr>configuration := c\<rparr>)),
     set_config_again = (\<lambda>_ _ r. (Inr (), r\<lparr>configuration := AccessPoint hosted_ap\<rparr>)),
     wifi_start = (\<lambda>_ r. (Inr (), r\<lparr>radio_on := True\<rparr>)),
     wifi_connect = (\<lambda>k r. (if k < 3 then Inl (Msg ''busy'') else Inr (), r)),
     wait_netif_up = (\<lambda>_ r. (Inr (), r)), get_config = (\<lambda>_ r. Inr (configuration r)),
     wifi_stop = (\<lambda>r. (Inr (), r\<lparr>radio_on := False\<rparr>)), wifi_scan = (\<lambda>_. Inr []), sta_ip = (\<lambda>_. Inr (0, 0, 0, 0))\<rparr>"

definition idle_radio :: radio where
  "idle_radio = \<lparr>configuration = NoConfiguration, radio_on = False\<rparr>"

lemma station_usable_sample:
  "length ssid \<le> 32 \<Longrightarrow> length password \<le> 64 \<Longrightarrow> station_usable sample_driver ssid password"
  by (simp add: station_usable_def sample_driver_def)

theorem connect_takes_one_good_attempt_witness:
  "is_ok (fst (connect sample_driver ''Home'' ''secret'' (Some (Unpoisoned idle_radio))))"
proof -
  have "attempt_joins sample_driver 3" by (simp add: attempt_joins_def sample_driver_def)
  moreover have "station_usable sample_driver ''Home'' ''secret''" by (simp add: station_usable_sample)
  ultimately show ?thesis
    by (intro connect_takes_one_good_attempt [THEN conjunct1, THEN mp]) (auto intro: exI [of _ 3])
qed

section \<open>The access point: what is really on the air\<close>

text \<open>
  Stated without the checks of the code: the access point a radio serves, a network exactly as it was asked
  for, and the open network of the coprocessor.
\<close>

definition active_ap :: "radio \<Rightarrow> AccessPointConfiguration option" where
  "active_ap r =
     (if radio_on r then (case configuration r of AccessPoint ap \<Rightarrow> Some ap | Mixed _ ap \<Rightarrow> Some ap | _ \<Rightarrow> None)
      else None)"

definition as_requested :: "string \<Rightarrow> string \<Rightarrow> AccessPointConfiguration \<Rightarrow> bool" where
  "as_requested ssid password ap \<longleftrightarrow>
     ap_ssid ap = ssid \<and> ap_password ap = password \<and> (ap_auth ap = AuthNone \<longleftrightarrow> password = [])"

definition hosted_fallback :: "AccessPointConfiguration \<Rightarrow> bool" where
  "hosted_fallback ap \<longleftrightarrow>
     (\<exists>digits. ap_ssid ap = ''ESP_'' @ digits \<and> length digits = 6 \<and> set digits \<subseteq> set ''0123456789abcdefABCDEF'') \<and>
     ap_password ap = [] \<and> ap_auth ap = AuthNone"

text \<open>
  What the code relies on: the configuration it reads back is the one the radio runs with, a start that
  succeeds turns the radio on, and waiting for the interface or setting the configuration leaves it on.
\<close>

definition truthful :: "wifi_driver \<Rightarrow> bool" where
  "truthful d \<longleftrightarrow>
     (\<forall>k r c. get_config d k r = Inr c \<longrightarrow> c = configuration r) \<and>
     (\<forall>k r r'. wifi_start d k r = (Inr (), r') \<longrightarrow> radio_on r') \<and>
     (\<forall>k r r'. wait_netif_up d k r = (Inr (), r') \<longrightarrow> radio_on r \<longrightarrow> radio_on r') \<and>
     (\<forall>k c r r'. set_config_again d k c r = (Inr (), r') \<longrightarrow> radio_on r \<longrightarrow> radio_on r')"

lemma hexdigit_iff: "is_ascii_hexdigit c \<longleftrightarrow> c \<in> set ''0123456789abcdefABCDEF''"
proof -
  let ?n = "of_char c :: nat"
  have eq: "c = d \<longleftrightarrow> ?n = of_char d" for d by simp
  have "c \<in> set ''0123456789abcdefABCDEF'' \<longleftrightarrow> ?n \<in> {48..57} \<union> {65..70} \<union> {97..102}"
    by (simp only: list.set insert_iff empty_iff eq) (simp del: of_char_eq_iff, presburger)
  then show ?thesis by (auto simp: is_ascii_hexdigit_def is_ascii_digit_def in_range_def)
qed

lemma known_hosted_iff:
  "is_known_hosted_open_ap (ap_ssid ap) (ap_password ap) (ap_auth ap = AuthNone) \<longleftrightarrow> hosted_fallback ap"
proof -
  have "has_prefix ''ESP_'' t \<and> length t = 10 \<and> list_all is_ascii_hexdigit (drop 4 t) \<longleftrightarrow>
      (\<exists>digits. t = ''ESP_'' @ digits \<and> length digits = 6 \<and> set digits \<subseteq> set ''0123456789abcdefABCDEF'')" for t
    unfolding has_prefix_iff list_all_iff subset_iff hexdigit_iff by (auto simp del: list.set)
  then show ?thesis by (auto simp: is_known_hosted_open_ap_def hosted_fallback_def)
qed

lemma ap_give_up_fails:
  assumes "\<And>s p a. eff = Some (s, p, a) \<Longrightarrow> \<not> is_known_hosted_open_ap s p a"
  shows "ap_give_up obs eff \<noteq> Inr u"
  using assms by (cases eff) (auto simp: ap_give_up_def)

lemma start_ap_loop_serves:
  assumes "truthful d" and "start_ap_loop d ssid password ks obs eff r = (Inr u, r')"
    and "\<And>s p a. eff = Some (s, p, a) \<Longrightarrow> \<not> is_known_hosted_open_ap s p a"
  shows "\<exists>ap. active_ap r' = Some ap \<and> (as_requested ssid password ap \<or> hosted_fallback ap)"
  using assms(2,3)
proof (induction ks arbitrary: obs eff r)
  case Nil
  then show ?case using ap_give_up_fails by (metis prod.inject start_ap_loop.simps(1))
next
  case (Cons k ks)
  let ?r0 = "snd (pre_stop d k r)"
  from Cons.prems(1) obtain config r1 r2 r3 r4 where config: "ap_config_from d ssid password = Inr config"
    "set_config d k (AccessPoint config) ?r0 = (Inr (), r1)" "wifi_start d k r1 = (Inr (), r2)"
    "wait_netif_up d k r2 = (Inr (), r3)" "set_config_again d k (AccessPoint config) r3 = (Inr (), r4)"
    by (cases "ap_config_from d ssid password") (auto simp: then_do_Inr Let_def)
  then have on: "radio_on r4" using assms(1) unfolding truthful_def by meson
  show ?case
  proof (cases "get_config d k r4")
    case (Inl e)
    show ?thesis
      using Cons.prems Inl config by (intro Cons.IH) (auto simp: Let_def)
  next
    case (Inr active)
    then have active: "active = configuration r4" using assms(1) by (auto simp: truthful_def)
    show ?thesis
    proof (cases "active_ap r4")
      case None
      then have "ap_credentials_from_config active = None"
        by (auto simp: active_ap_def on active ap_credentials_from_config_def split: Configuration.splits)
      then show ?thesis using Cons.prems Inr config by (intro Cons.IH) (auto simp: Let_def)
    next
      case (Some ap)
      then have eff: "ap_credentials_from_config active = Some (ap_ssid ap, ap_password ap)"
        "auth_open_of active \<longleftrightarrow> ap_auth ap = AuthNone"
        by (auto simp: active_ap_def on active ap_credentials_from_config_def auth_open_of_def split: Configuration.splits)
      show ?thesis
      proof (cases "as_requested ssid password ap \<or> hosted_fallback ap")
        case True
        then have "r' = r4"
          using Cons.prems(1) Inr config eff
          by (auto simp: Let_def ap_matches_def as_requested_def known_hosted_iff ALLOW_HOSTED_OPEN_AP_FALLBACK_def
              split: if_splits)
        with True Some show ?thesis by blast
      next
        case False
        then have "\<not> ap_matches ssid password (ap_ssid ap, ap_password ap) (ap_auth ap = AuthNone)"
          "\<not> is_known_hosted_open_ap (ap_ssid ap) (ap_password ap) (ap_auth ap = AuthNone)"
          by (auto simp: ap_matches_def as_requested_def known_hosted_iff)
        then show ?thesis using Cons.prems Inr config eff by (intro Cons.IH) (auto simp: Let_def)
      qed
    qed
  qed
qed

text \<open>
  C29: the setup access point is never reported up with unknown security: with a driver that reports its
  configuration truthfully, success means that the radio is on and the access point on the air is the one
  requested -- its name, its password, and open exactly when no password was asked for -- or the open
  network of the coprocessor, \<open>ESP_\<close> and six hexadecimal digits.
\<close>

theorem ap_up_means_known_credentials:
  assumes "truthful d" and "start_ap d ssid password m = (Inr (), m')"
  shows "\<exists>r ap. m' = Some (Unpoisoned r) \<and> active_ap r = Some ap \<and>
    (ap_ssid ap = ssid \<and> ap_password ap = password \<and> (ap_auth ap = AuthNone \<longleftrightarrow> password = []) \<or>
     (\<exists>digits. ap_ssid ap = ''ESP_'' @ digits \<and> length digits = 6 \<and> set digits \<subseteq> set ''0123456789abcdefABCDEF'') \<and>
       ap_password ap = [] \<and> ap_auth ap = AuthNone)"
  using assms(2) start_ap_loop_serves [OF assms(1)]
  unfolding start_ap_def with_wifi_manager_Inr as_requested_def hosted_fallback_def by blast

lemma start_ap_serves:
  assumes "truthful d" and "start_ap d ssid password m = (Inr u, m')"
  shows "\<exists>r ap. m' = Some (Unpoisoned r) \<and> active_ap r = Some ap \<and> (as_requested ssid password ap \<or> hosted_fallback ap)"
  using assms(2) start_ap_loop_serves [OF assms(1)] unfolding start_ap_def with_wifi_manager_Inr by blast

lemma truthful_sample: "truthful sample_driver"
  by (simp add: truthful_def sample_driver_def)

lemma sample_ap_starts:
  assumes "length ssid \<le> 32" and "length password \<le> 64"
  shows "start_ap sample_driver ssid password (Some (Unpoisoned r)) =
    (Inr (), Some (Unpoisoned \<lparr>configuration = AccessPoint hosted_ap, radio_on = True\<rparr>))"
proof -
  have "is_known_hosted_open_ap (ap_ssid hosted_ap) (ap_password hosted_ap) True" by code_simp
  with assms show ?thesis
    by (cases r) (simp add: start_ap_def with_wifi_manager_def upt_rec sample_driver_def ap_config_from_def
        ap_credentials_from_config_def auth_open_of_def hosted_ap_def ALLOW_HOSTED_OPEN_AP_FALLBACK_def Let_def)
qed

theorem ap_up_means_known_credentials_witness:
  "\<exists>r ap. snd (start_ap sample_driver ''Frame-0001'' [] (Some (Unpoisoned idle_radio))) = Some (Unpoisoned r) \<and>
     active_ap r = Some ap \<and> ap_auth ap = AuthNone"
  using ap_up_means_known_credentials [OF truthful_sample sample_ap_starts [of "''Frame-0001''" "[]" idle_radio]]
  by (auto simp: sample_ap_starts active_ap_def hosted_ap_def)

text \<open>The fallback after the loop is dead code: giving up always fails there.\<close>

lemma fallback_after_retries_is_dead:
  assumes "\<And>s p a. eff = Some (s, p, a) \<Longrightarrow> \<not> is_known_hosted_open_ap s p a"
  shows "\<not> is_ok (ap_give_up obs eff)"
  using ap_give_up_fails [OF assms] by (auto simp: is_ok_iff)

end
