(* ===== verification/Captive_Portal.thy ===== *)
theory Captive_Portal
  imports Frame_Text
begin

text \<open>
  The captive portal: \<open>frame-captive-portal/src/lib.rs\<close>. It holds the shared connect state, answers the
  HTTP requests of a phone that joined the setup network, and answers every DNS query with its own
  address.

  The HTTP server, the scan (a callback into the Wi-Fi driver), serde_json, the lossy UTF-8 decoder
  and the static pages are arguments, and so is whether a response can be sent; sockets and threads are not modelled. Text is UTF-8 bytes.

  The lemmas show that form decoding inverts the browser's encoding for ASCII text (and only for
  it), that \<open>/connect\<close> hands over what was typed, and that the DNS response is the right one for
  every query with a whole first question.
\<close>

section \<open>Portal state\<close>

datatype ConnectState = NotConnected | Joining string string | Joined

record WifiNetwork =
  network_ssid :: string

text \<open>The scan handler is what calling it gives at that moment.\<close>

record PortalState =
  connect_state :: ConnectState
  scan_handler :: "(unit \<Rightarrow> WifiNetwork list result) option"

record CaptivePortal =
  portal_state :: "PortalState mutex"
  server_running :: bool

definition create_captive_portal :: "CaptivePortal result" where
  "create_captive_portal =
     Inr \<lparr>portal_state = Unpoisoned \<lparr>connect_state = NotConnected, scan_handler = None\<rparr>, server_running = False\<rparr>"

definition portal_poisoned :: error where
  "portal_poisoned = Msg ''captive portal state lock poisoned''"

definition on_portal :: "(PortalState \<Rightarrow> PortalState) \<Rightarrow> CaptivePortal \<Rightarrow> unit result \<times> CaptivePortal" where
  "on_portal f p =
     (case with_lock portal_poisoned (portal_state p) (\<lambda>s. ((), f s)) of
        (r, m) \<Rightarrow> (r, p\<lparr>portal_state := m\<rparr>))"

definition set_scan_handler ::
  "(unit \<Rightarrow> WifiNetwork list result) \<Rightarrow> CaptivePortal \<Rightarrow> unit result \<times> CaptivePortal" where
  "set_scan_handler h p = on_portal (\<lambda>s. s\<lparr>scan_handler := Some h\<rparr>) p"

definition mark_connected :: "CaptivePortal \<Rightarrow> unit result \<times> CaptivePortal" where
  "mark_connected p = on_portal (\<lambda>s. s\<lparr>connect_state := Joined\<rparr>) p"

definition reset_connect_state :: "CaptivePortal \<Rightarrow> unit result \<times> CaptivePortal" where
  "reset_connect_state p = on_portal (\<lambda>s. s\<lparr>connect_state := NotConnected\<rparr>) p"

definition stop_portal :: "CaptivePortal \<Rightarrow> unit result \<times> CaptivePortal" where
  "stop_portal p = (Inr (), p\<lparr>server_running := False\<rparr>)"

text \<open>
  \<open>start\<close>: \<open>setup\<close> is the outcome of creating the server, registering the handlers and spawning the DNS
  task; a server that is not kept is dropped, which stops it.
\<close>

definition start_portal :: "unit result \<Rightarrow> CaptivePortal \<Rightarrow> unit result \<times> CaptivePortal" where
  "start_portal setup p =
     (if server_running p then (Inr (), p)
      else (case setup of
              Inl e \<Rightarrow> (Inl e, p)
            | Inr _ \<Rightarrow> (Inr (), p\<lparr>server_running := True\<rparr>)))"

definition get_connect_state :: "CaptivePortal \<Rightarrow> ConnectState" where
  "get_connect_state p =
     (case portal_state p of Unpoisoned s \<Rightarrow> connect_state s | Poisoned \<Rightarrow> NotConnected)"

section \<open>Forms\<close>

function percent_decode :: "string \<Rightarrow> string" where
  "percent_decode [] = []"
| "percent_decode (c # cs) =
     (if c = CHR ''+'' then '' '' @ percent_decode cs
      else if c = CHR ''%'' \<and> 2 \<le> length cs then
        (case (to_digit16 (cs ! 0), to_digit16 (cs ! 1)) of
           (Some a, Some b) \<Rightarrow> push_latin1 (word_of_nat (a * 16 + b)) @ percent_decode (drop 2 cs)
         | _ \<Rightarrow> ''%'' @ percent_decode cs)
      else push_latin1 (byte_of c) @ percent_decode cs)"
  by pat_completeness auto

termination by (relation "measure length") auto

declare percent_decode.simps(2) [simp del]

type_synonym form = "string \<rightharpoonup> string"

text \<open>\<open>splitn(2, '=')\<close>: the value is empty when there is no equals sign.\<close>

definition form_pair :: "string \<Rightarrow> string \<times> string" where
  "form_pair pair =
     (case split_once (CHR ''='') pair of None \<Rightarrow> (pair, []) | Some (k, v) \<Rightarrow> (k, v))"

definition insert_pair :: "string \<Rightarrow> form \<Rightarrow> form" where
  "insert_pair pair m =
     (if pair = [] then m
      else (case form_pair pair of (k, v) \<Rightarrow> m(percent_decode k \<mapsto> percent_decode v)))"

definition parse_form_encoded :: "string \<Rightarrow> form" where
  "parse_form_encoded input = fold insert_pair (split_on (CHR ''&'') input) Map.empty"

text \<open>\<open>str::replace\<close> of a character.\<close>

definition str_replace :: "char \<Rightarrow> string \<Rightarrow> string \<Rightarrow> string" where
  "str_replace c r s = concat (map (\<lambda>x. if x = c then r else [x]) s)"

definition escape_html :: "string \<Rightarrow> string" where
  "escape_html value =
     str_replace (CHR 0x27) ''&#39;'' (str_replace (CHR 0x22) ''&quot;'' (str_replace (CHR ''>'') ''&gt;''
       (str_replace (CHR ''<'') ''&lt;'' (str_replace (CHR ''&'') ''&amp;'' value))))"

section \<open>HTTP\<close>

record http_response =
  status :: nat
  headers :: "(string \<times> string) list"
  body :: string

datatype http_request = GET string | POST string "u8 list result"

text \<open>
  The static pages, the JSON encoder of the scan response, the lossy UTF-8 decoder, and what sending a
  response (\<open>into_response\<close> and \<open>write_all\<close>) comes to.
\<close>

record portal_assets =
  index_html :: string
  connecting_html :: string
  scan_json :: "WifiNetwork list \<times> string option \<Rightarrow> string result"
  from_utf8_lossy :: "u8 list \<Rightarrow> string"
  send_response :: "http_response \<Rightarrow> unit result"

text \<open>The end of every handler: the response it sent, or the error of sending it.\<close>

definition respond :: "portal_assets \<Rightarrow> http_response \<Rightarrow> http_response result" where
  "respond a r = and_then (send_response a r) (\<lambda>_. Inr r)"

definition probe_paths :: "string list" where
  "probe_paths =
     [''/generate_204'', ''/gen_204'', ''/hotspot-detect.html'', ''/library/test/success.html'',
      ''/success.txt'', ''/ncsi.txt'', ''/connecttest.txt'', ''/redirect'', ''/fwlink'',
      ''/canonical.html'']"

definition scan_response :: "(unit \<Rightarrow> WifiNetwork list result) option \<Rightarrow> WifiNetwork list \<times> string option" where
  "scan_response h =
     (case h of
        Some scan \<Rightarrow>
          (case scan () of
             Inr networks \<Rightarrow> (networks, None)
           | Inl _ \<Rightarrow> ([], Some (''Wi-Fi scan is unavailable while setup mode is active on this firmware. ''
                                @ ''Enter your network name manually.'')))
      | None \<Rightarrow> ([], Some ''Wi-Fi scan handler is not configured yet.''))"

definition nonblank :: "string option \<Rightarrow> string option" where
  "nonblank v =
     (case v of None \<Rightarrow> None | Some s \<Rightarrow> (let t = str_trim s in if t = [] then None else Some t))"

definition form_credentials :: "form \<Rightarrow> string \<times> string" where
  "form_credentials form =
     ((case nonblank (form ''manual_ssid'') of
         Some s \<Rightarrow> s
       | None \<Rightarrow> (case nonblank (form ''ssid'') of Some s \<Rightarrow> s | None \<Rightarrow> [])),
      (case form ''password'' of None \<Rightarrow> [] | Some p \<Rightarrow> p))"

text \<open>
  The \<open>/connect\<close> handler: one read of at most 2048 bytes; \<open>read\<close> is what the server hands over.
\<close>

definition connect_handler ::
  "portal_assets \<Rightarrow> u8 list result \<Rightarrow> PortalState mutex \<Rightarrow> http_response result \<times> PortalState mutex" where
  "connect_handler a read m =
     (case read of
        Inl e \<Rightarrow> (Inl e, m)
      | Inr bytes \<Rightarrow>
          (case form_credentials (parse_form_encoded (from_utf8_lossy a (take 2048 bytes))) of
             (ssid, password) \<Rightarrow>
               if ssid = [] then
                 (respond a \<lparr>status = 400, headers = [(''Content-Type'', ''text/plain'')],
                       body = ''Missing Wi-Fi network name. Enter the SSID manually or choose one from scan results.''\<rparr>, m)
               else
                 (case with_lock portal_poisoned m (\<lambda>s. ((), s\<lparr>connect_state := Joining ssid password\<rparr>)) of
                    (Inl e, m') \<Rightarrow> (Inl e, m')
                  | (Inr _, m') \<Rightarrow>
                      (respond a \<lparr>status = 200, headers = [(''Content-Type'', ''text/html'')], body = connecting_html a\<rparr>, m'))))"

definition page :: "string \<Rightarrow> http_response" where
  "page html = \<lparr>status = 200, headers = [(''Content-Type'', ''text/html'')], body = html\<rparr>"

text \<open>One request, while the server runs; \<open>None\<close> is a path with no handler.\<close>

definition handle_request ::
  "portal_assets \<Rightarrow> http_request \<Rightarrow> PortalState mutex \<Rightarrow> http_response result option \<times> PortalState mutex" where
  "handle_request a req m =
     (case req of
        GET path \<Rightarrow>
          if path = ''/'' \<or> path = ''/index.html'' then (Some (respond a (page (index_html a))), m)
          else if path \<in> set probe_paths then
            (Some (respond a \<lparr>status = 302, headers = [(''Location'', ''http://192.168.71.1/''),
                                (''Cache-Control'', ''no-store'')], body = []\<rparr>), m)
          else if path = ''/wifi-scan'' then
            (case m of
               Poisoned \<Rightarrow> (Some (Inl portal_poisoned), m)
             | Unpoisoned s \<Rightarrow>
                 (case scan_json a (scan_response (scan_handler s)) of
                    Inl e \<Rightarrow> (Some (Inl e), m)
                  | Inr json \<Rightarrow>
                      (Some (respond a \<lparr>status = 200, headers = [(''Content-Type'', ''application/json'')], body = json\<rparr>), m)))
          else (None, m)
      | POST path read \<Rightarrow>
          if path = ''/connect'' then (case connect_handler a read m of (r, m') \<Rightarrow> (Some r, m'))
          else (None, m))"

section \<open>DNS\<close>

definition u16_from_be_bytes :: "u8 \<Rightarrow> u8 \<Rightarrow> u16" where
  "u16_from_be_bytes hi lo = push_bit 8 (ucast hi) OR ucast lo"

definition CAPTIVE_PORTAL_IP :: "u8 list" where
  "CAPTIVE_PORTAL_IP = [192, 168, 71, 1]"

function skip_name :: "u8 list \<Rightarrow> nat \<Rightarrow> nat option" where
  "skip_name query cursor =
     (if cursor < length query then
        (let label_len = unat (query ! cursor) in
         if label_len = 0 then Some (cursor + 1)
         else (case usize_checked_add (cursor + 1) label_len of
                 None \<Rightarrow> None
               | Some next \<Rightarrow> skip_name query next))
      else Some cursor)"
  by pat_completeness auto

termination
  by (relation "measure (\<lambda>(q, c). length q - c)") (auto simp: usize_checked_add_Some)

declare skip_name.simps [simp del]

definition build_captive_dns_response :: "u8 list \<Rightarrow> u8 list \<Rightarrow> u8 list option" where
  "build_captive_dns_response query portal_ip =
     (if length query < 12 then None
      else if u16_from_be_bytes (query ! 4) (query ! 5) = 0 then None
      else (case skip_name query 12 of
              None \<Rightarrow> None
            | Some cursor \<Rightarrow>
                (case usize_checked_add cursor 4 of
                   None \<Rightarrow> None
                 | Some question_end \<Rightarrow>
                     if length query < question_end then None
                     else
                       (let qtype = u16_from_be_bytes (query ! cursor) (query ! (cursor + 1));
                            qclass = u16_from_be_bytes (query ! (cursor + 2)) (query ! (cursor + 3));
                            answer = (qtype = 1 \<and> qclass = 1)
                        in Some (take 2 query @ [0x81, 0x80] @ take 2 (drop 4 query)
                             @ (if answer then [0, 1] else [0, 0]) @ [0, 0, 0, 0]
                             @ take (question_end - 12) (drop 12 query)
                             @ (if answer
                                then [0xC0, 0x0C, 0, 1, 0, 1, 0, 0, 0, 60, 0, 4] @ portal_ip
                                else []))))))"

text \<open>
  The responder thread: the outcome of binding the socket, then what each \<open>recv_from\<close> into the buffer
  of 512 bytes yields, as a datagram and its peer. Its result is what it sends, in order; a failed
  send changes nothing.
\<close>

definition captive_dns_turn :: "(u8 list \<times> 'p) result \<Rightarrow> (u8 list \<times> 'p) list" where
  "captive_dns_turn received =
     (case received of
        Inl _ \<Rightarrow> []
      | Inr (datagram, peer) \<Rightarrow>
          (case build_captive_dns_response (take 512 datagram) CAPTIVE_PORTAL_IP of
             None \<Rightarrow> []
           | Some response \<Rightarrow> [(response, peer)]))"

definition captive_dns_task :: "unit result \<Rightarrow> (u8 list \<times> 'p) result list \<Rightarrow> (u8 list \<times> 'p) list" where
  "captive_dns_task bound received =
     (case bound of Inl _ \<Rightarrow> [] | Inr _ \<Rightarrow> concat (map captive_dns_turn received))"

section \<open>Form decoding\<close>

text \<open>
  What a browser may send for a text in \<open>application/x-www-form-urlencoded\<close>: a plus sign for a
  space, any byte as two hexadecimal digits of either case, and any other byte as itself, except
  the four that have a meaning.
\<close>

inductive encodes :: "string \<Rightarrow> string \<Rightarrow> bool" where
  enc_nil: "encodes [] []"
| enc_space: "encodes s e \<Longrightarrow> encodes (CHR 0x20 # s) (CHR ''+'' # e)"
| enc_plain: "encodes s e \<Longrightarrow> (of_char c :: nat) < 128 \<Longrightarrow>
    c \<notin> {CHR ''+'', CHR ''%'', CHR ''&'', CHR ''=''} \<Longrightarrow> encodes (c # s) (c # e)"
| enc_hex: "encodes s e \<Longrightarrow> to_digit16 h1 = Some a \<Longrightarrow> to_digit16 h2 = Some b \<Longrightarrow>
    encodes (char_of (a * 16 + b) # s) (CHR ''%'' # h1 # h2 # e)"

definition latin1 :: "string \<Rightarrow> string" where
  "latin1 s = concat (map (\<lambda>c. push_latin1 (byte_of c)) s)"

lemma latin1_simps [simp]:
  "latin1 [] = []" "latin1 (c # s) = push_latin1 (byte_of c) @ latin1 s"
  by (simp_all add: latin1_def)

lemma latin1_ascii: "is_ascii s \<Longrightarrow> latin1 s = s"
  by (induction s) (simp_all add: is_ascii_def push_latin1_ascii)

lemma length_push_latin1: "length (push_latin1 (byte_of c)) = (if (of_char c :: nat) < 128 then 1 else 2)"
  by (simp add: push_latin1_def)

lemma latin1_longer: "length s \<le> length (latin1 s) \<and> (\<not> is_ascii s \<longrightarrow> length s < length (latin1 s))"
  by (induction s) (auto simp: is_ascii_def length_push_latin1)

lemma latin1_eq_iff: "latin1 s = s \<longleftrightarrow> is_ascii s"
  using latin1_ascii latin1_longer by force

lemma byte_of_hex:
  "a < 16 \<Longrightarrow> b < 16 \<Longrightarrow> byte_of (char_of (a * 16 + b)) = word_of_nat (a * 16 + b)"
proof -
  assume "a < 16" "b < 16"
  then have "a * 16 + b < 256" by simp
  then have "(of_char (char_of (a * 16 + b) :: char) :: nat) = a * 16 + b" by simp
  then show ?thesis by (simp add: byte_of_def)
qed

lemma percent_decode_encodes: "encodes s e \<Longrightarrow> percent_decode e = latin1 s"
proof (induction rule: encodes.induct)
  case (enc_space s e)
  have "push_latin1 (byte_of (CHR 0x20)) = '' ''" by code_simp
  with enc_space show ?case by (simp add: percent_decode.simps)
next
  case (enc_plain s e c)
  then show ?case by (simp add: percent_decode.simps)
next
  case (enc_hex s e h1 a h2 b)
  then show ?case
    using to_digit16_less by (simp add: percent_decode.simps byte_of_hex)
qed simp

text \<open>
  C34: form decoding gives back what was typed exactly when it is ASCII. For every text and every way
  a browser may encode it, the decoded value is the text with each byte above 127 turned into the
  two bytes of a Latin-1 character, so an ASCII network name or password survives and any other
  one, even a correctly encoded UTF-8 name, does not.
\<close>

theorem form_decoding_exact_iff_ascii:
  assumes "encodes s e"
  shows "percent_decode e = latin1 s \<and> (percent_decode e = s \<longleftrightarrow> is_ascii s)"
  using percent_decode_encodes [OF assms] by (simp add: latin1_eq_iff)

lemma encodes_cafe: "encodes [CHR ''c'', CHR 0xC3, CHR 0xA9] ''c%C3%a9''"
proof -
  have "encodes (CHR ''c'' # char_of (12 * 16 + 3 :: nat) # char_of (10 * 16 + 9 :: nat) # []) ''c%C3%a9''"
    by (intro encodes.intros)
      (simp_all add: to_digit16_def is_ascii_digit_def in_range_def)
  moreover have "char_of (12 * 16 + 3 :: nat) = CHR 0xC3" "char_of (10 * 16 + 9 :: nat) = CHR 0xA9"
    by code_simp+
  ultimately show ?thesis by metis
qed

theorem form_decoding_exact_iff_ascii_witness:
  "percent_decode ''c%C3%a9'' = [CHR ''c'', CHR 0xC3, CHR 0x83, CHR 0xC2, CHR 0xA9] \<and>
   percent_decode ''c%C3%a9'' \<noteq> [CHR ''c'', CHR 0xC3, CHR 0xA9]"
proof -
  have "latin1 [CHR ''c'', CHR 0xC3, CHR 0xA9] = [CHR ''c'', CHR 0xC3, CHR 0x83, CHR 0xC2, CHR 0xA9]"
    by code_simp
  then show ?thesis
    using form_decoding_exact_iff_ascii [OF encodes_cafe] by (simp add: is_ascii_def)
qed

section \<open>Credentials survive the portal\<close>

text \<open>A form: keys as they are, values raw and as encoded by the browser.\<close>

fun form_body :: "(string \<times> string) list \<Rightarrow> string" where
  "form_body [] = []"
| "form_body [(k, e)] = k @ ''='' @ e"
| "form_body ((k, e) # f # fs) = (k @ ''='' @ e) @ ''&'' @ form_body (f # fs)"

definition plain_key :: "string \<Rightarrow> bool" where
  "plain_key k \<longleftrightarrow> encodes k k \<and> is_ascii k \<and> CHR ''&'' \<notin> set k \<and> CHR ''='' \<notin> set k"

lemma encodes_clean: "encodes s e \<Longrightarrow> CHR ''&'' \<notin> set e"
  by (induction rule: encodes.induct)
    (auto simp: to_digit16_def is_ascii_digit_def in_range_def split: if_splits)

lemma split_form_body:
  assumes "fs \<noteq> []" and "\<forall>(k, e) \<in> set fs. CHR ''&'' \<notin> set k \<and> CHR ''&'' \<notin> set e"
  shows "split_on (CHR ''&'') (form_body fs) = map (\<lambda>(k, e). k @ ''='' @ e) fs"
  using assms
proof (induction fs rule: form_body.induct)
  case (2 k e)
  then show ?case by (simp add: split_on_single)
next
  case (3 k e f fs)
  then show ?case using split_on_append [of "CHR ''&''" "k @ ''='' @ e" "form_body (f # fs)"] by simp
qed simp

lemma insert_pair_plain:
  assumes "plain_key k" "encodes v e" "is_ascii v"
  shows "insert_pair (k @ ''='' @ e) m = m(k \<mapsto> v)"
  using assms percent_decode_encodes [of k k] percent_decode_encodes [OF assms(2)]
    split_once_append [of "CHR ''=''" k e]
  by (simp add: insert_pair_def form_pair_def plain_key_def latin1_ascii)

lemma fold_insert_pair:
  assumes "\<forall>(k, v, e) \<in> set fs. plain_key k \<and> encodes v e \<and> is_ascii v"
  shows "fold insert_pair (map (\<lambda>(k, v, e). k @ ''='' @ e) fs) m = m ++ map_of (rev (map (\<lambda>(k, v, e). (k, v)) fs))"
  using assms
proof (induction fs arbitrary: m)
  case (Cons f fs)
  obtain k v e where f: "f = (k, v, e)" by (cases f)
  with Cons.prems have "insert_pair (k @ ''='' @ e) m = m(k \<mapsto> v)"
    by (intro insert_pair_plain) auto
  moreover have "fold insert_pair (map (\<lambda>(k, v, e). k @ ''='' @ e) fs) (m(k \<mapsto> v)) =
      m(k \<mapsto> v) ++ map_of (rev (map (\<lambda>(k, v, e). (k, v)) fs))"
    by (rule Cons.IH) (use Cons.prems in auto)
  ultimately show ?case by (simp add: f map_add_assoc)
qed simp

definition encoded_form :: "(string \<times> string \<times> string) list \<Rightarrow> string" where
  "encoded_form fs = form_body (map (\<lambda>(k, v, e). (k, e)) fs)"

lemma parse_encoded_form:
  assumes "fs \<noteq> []" and "\<forall>(k, v, e) \<in> set fs. plain_key k \<and> encodes v e \<and> is_ascii v"
  shows "parse_form_encoded (encoded_form fs) = map_of (rev (map (\<lambda>(k, v, e). (k, v)) fs))"
proof -
  have "\<forall>(k, e) \<in> set (map (\<lambda>(k, v, e). (k, e)) fs). CHR ''&'' \<notin> set k \<and> CHR ''&'' \<notin> set e"
    using assms(2) encodes_clean by (fastforce simp: plain_key_def)
  then have "split_on (CHR ''&'') (encoded_form fs) = map (\<lambda>(k, v, e). k @ ''='' @ e) fs"
    using split_form_body [of "map (\<lambda>(k, v, e). (k, e)) fs"] assms(1)
    by (simp add: encoded_form_def case_prod_unfold comp_def)
  with fold_insert_pair [OF assms(2)] show ?thesis by (simp add: parse_form_encoded_def)
qed

text \<open>
  The portal hands over the credentials that were typed. A form whose fields are ASCII and that
  fits in one read of 2048 bytes, however the browser encodes it, leaves the portal joining the
  network typed by hand, or the one picked from the list when that field is blank, with exactly
  the password typed (spaces included) and the network name trimmed -- also when the answer, a page
  with status 200, cannot be sent.
\<close>

theorem connect_hands_over_credentials:
  assumes "\<forall>(k, v, e) \<in> set fs. plain_key k \<and> encodes v e \<and> is_ascii v"
    and "fs \<noteq> []" and "length (encoded_form fs) \<le> 2048"
    and "from_utf8_lossy a (as_bytes (encoded_form fs)) = encoded_form fs"
    and "form_credentials (map_of (rev (map (\<lambda>(k, v, e). (k, v)) fs))) = (ssid, password)"
    and "ssid \<noteq> []"
  shows "\<exists>r s'. handle_request a (POST ''/connect'' (Inr (as_bytes (encoded_form fs)))) (Unpoisoned s) =
      (Some (respond a r), Unpoisoned s') \<and> status r = 200 \<and> connect_state s' = Joining ssid password"
  using assms(3-6) parse_encoded_form [OF assms(2,1)]
  by (auto simp: handle_request_def connect_handler_def page_def intro!: exI [of _ "page (connecting_html a)"])

lemma plain_keys: "plain_key ''ssid''" "plain_key ''manual_ssid''" "plain_key ''password''"
  unfolding plain_key_def by (intro conjI encodes.intros; simp add: is_ascii_def)+

lemma example_encodings: "encodes '' Home'' ''+Home''" "encodes [] []" "encodes ''p&w'' ''p%26w''"
proof -
  show "encodes '' Home'' ''+Home''" "encodes [] []" by (intro encodes.intros; simp)+
  have "encodes (CHR ''p'' # char_of (2 * 16 + 6 :: nat) # CHR ''w'' # []) ''p%26w''"
    by (intro encodes.intros) (simp_all add: to_digit16_def is_ascii_digit_def in_range_def)
  moreover have "char_of (2 * 16 + 6 :: nat) = CHR ''&''" by code_simp
  ultimately show "encodes ''p&w'' ''p%26w''" by simp
qed

definition example_assets :: portal_assets where
  "example_assets = \<lparr>index_html = [], connecting_html = ''joining'', scan_json = (\<lambda>_. Inr ''{}''),
     from_utf8_lossy = map (\<lambda>b. char_of (unat b)), send_response = (\<lambda>_. Inr ())\<rparr>"

definition example_form :: "(string \<times> string \<times> string) list" where
  "example_form = [(''ssid'', ''Other'', ''Other''), (''manual_ssid'', '' Home'', ''+Home''), (''password'', ''p&w'', ''p%26w'')]"

theorem connect_hands_over_credentials_witness:
  "\<exists>r s'. handle_request example_assets (POST ''/connect'' (Inr (as_bytes ''ssid=Other&manual_ssid=+Home&password=p%26w'')))
      (Unpoisoned \<lparr>connect_state = NotConnected, scan_handler = None\<rparr>) =
    (Some (Inr r), Unpoisoned s') \<and> status r = 200 \<and> connect_state s' = Joining ''Home'' ''p&w''"
proof -
  have form: "encoded_form example_form = ''ssid=Other&manual_ssid=+Home&password=p%26w''"
    by (simp add: encoded_form_def example_form_def)
  have "encodes ''Other'' ''Other''" by (intro encodes.intros; simp)
  then have fields: "\<forall>(k, v, e) \<in> set example_form. plain_key k \<and> encodes v e \<and> is_ascii v"
    using plain_keys example_encodings by (simp add: example_form_def is_ascii_def)
  have "from_utf8_lossy example_assets (as_bytes s) = s" for s
    by (induction s) (simp_all add: example_assets_def as_bytes_def)
  moreover have "form_credentials (map_of (rev (map (\<lambda>(k, v, e). (k, v)) example_form))) = (''Home'', ''p&w'')"
    by code_simp
  moreover have "length (encoded_form example_form) \<le> 2048" "example_form \<noteq> []"
    by (simp_all add: form) (simp add: example_form_def)
  ultimately show ?thesis
    using connect_hands_over_credentials [OF fields, of example_assets "''Home''" "''p&w''"]
    unfolding form by (auto simp: respond_def example_assets_def)
qed

section \<open>Every name resolves to the portal\<close>

text \<open>A DNS name as the query carries it: length-prefixed labels and the root.\<close>

definition encode_name :: "u8 list list \<Rightarrow> u8 list" where
  "encode_name labels = concat (map (\<lambda>l. word_of_nat (length l) # l) labels) @ [0]"

lemma skip_name_label:
  assumes "query = pre @ word_of_nat (length l) # l @ rest" "0 < length l" "length l < 256"
    and "length query < usize_limit"
  shows "skip_name query (length pre) = skip_name query (length pre + 1 + length l)"
proof -
  have "unat (query ! length pre) = length l"
    using assms(1,3) by (simp add: nth_append unat_of_nat)
  moreover have "usize_checked_add (length pre + 1) (length l) = Some (length pre + 1 + length l)"
    using assms(1,4) by (simp add: usize_checked_add_def)
  ultimately show ?thesis
    using assms(1,2) by (subst skip_name.simps) (simp add: Let_def)
qed

lemma skip_name_encoded:
  assumes "\<forall>l \<in> set labels. 0 < length l \<and> length l < 256"
    and "query = pre @ encode_name labels @ rest" and "length query < usize_limit"
  shows "skip_name query (length pre) = Some (length pre + length (encode_name labels))"
  using assms
proof (induction labels arbitrary: pre)
  case Nil
  then show ?case by (subst skip_name.simps) (simp add: encode_name_def nth_append)
next
  case (Cons l labels)
  let ?pre = "pre @ word_of_nat (length l) # l"
  have query: "query = ?pre @ encode_name labels @ rest"
    using Cons.prems(2) by (simp add: encode_name_def)
  have "skip_name query (length pre) = skip_name query (length ?pre)"
    using skip_name_label [of query pre l "encode_name labels @ rest"] Cons.prems query by simp
  also have "\<dots> = Some (length ?pre + length (encode_name labels))"
    by (rule Cons.IH) (use Cons.prems query in auto)
  finally show ?case by (simp add: encode_name_def)
qed

lemma take_drop_append: "length xs = n \<Longrightarrow> take (length ys) (drop n (xs @ ys @ zs)) = ys"
  by simp

text \<open>
  C28: every DNS question is answered, and every address question is answered with the portal: for a
  query with a 12-byte header announcing at least one question, any name made of labels of 1 to
  255 bytes, any type and class, and whatever follows, the response repeats the identifier, the
  question count and the question, and carries exactly one address record, with the portal's
  address, if the question is type A of class IN, and no record otherwise.
\<close>

theorem dns_answers_every_name:
  assumes "length header = 12" and "u16_from_be_bytes (header ! 4) (header ! 5) \<noteq> 0"
    and "\<forall>l \<in> set labels. 0 < length l \<and> length l < 256"
    and "length (header @ encode_name labels @ [t1, t0, c1, c0] @ rest) < usize_limit"
  shows "build_captive_dns_response (header @ encode_name labels @ [t1, t0, c1, c0] @ rest) ip =
    Some (take 2 header @ [0x81, 0x80] @ take 2 (drop 4 header)
      @ (if u16_from_be_bytes t1 t0 = 1 \<and> u16_from_be_bytes c1 c0 = 1 then [0, 1] else [0, 0])
      @ [0, 0, 0, 0] @ encode_name labels @ [t1, t0, c1, c0]
      @ (if u16_from_be_bytes t1 t0 = 1 \<and> u16_from_be_bytes c1 c0 = 1
         then [0xC0, 0x0C, 0, 1, 0, 1, 0, 0, 0, 60, 0, 4] @ ip else []))"
proof -
  let ?n = "encode_name labels" and ?tail = "[t1, t0, c1, c0]"
  let ?q = "header @ ?n @ ?tail @ rest"
  have skip: "skip_name ?q 12 = Some (12 + length ?n)"
    using skip_name_encoded [OF assms(3), of ?q header "?tail @ rest"] assms(1,4) by simp
  have add: "usize_checked_add (12 + length ?n) 4 = Some (12 + length ?n + 4)"
    using assms(1,4) by (simp add: usize_checked_add_def)
  have len: "\<not> length ?q < 12" "\<not> length ?q < 12 + length ?n + 4" using assms(1) by simp_all
  have count: "?q ! 4 = header ! 4" "?q ! 5 = header ! 5" using assms(1) by (simp_all add: nth_append)
  have "drop (12 + length ?n) ?q = ?tail @ rest" using assms(1) by simp
  then have tail: "?q ! (12 + length ?n + i) = (?tail @ rest) ! i" if "i < 4" for i
    using nth_drop [of "12 + length ?n" ?q i] assms(1) by simp
  have words: "?q ! (12 + length ?n) = t1" "?q ! (12 + length ?n + 1) = t0"
    "?q ! (12 + length ?n + 2) = c1" "?q ! (12 + length ?n + 3) = c0"
    using tail [of 0] tail [of 1] tail [of 2] tail [of 3] by simp_all
  have question: "take (12 + length ?n + 4 - 12) (drop 12 ?q) = ?n @ ?tail"
    using assms(1) take_drop_append [of header 12 "?n @ ?tail" rest] by simp
  have head: "take 2 ?q = take 2 header" "take 2 (drop 4 ?q) = take 2 (drop 4 header)"
    using assms(1) by simp_all
  show ?thesis
    unfolding build_captive_dns_response_def if_not_P [OF len(1)] count if_not_P [OF assms(2)]
      skip option.case add if_not_P [OF len(2)] Let_def words question head
    by simp
qed

theorem dns_answers_every_name_witness:
  "build_captive_dns_response
     ([0xAB, 0xCD, 1, 0, 0, 1, 0, 0, 0, 0, 0, 0] @ encode_name [[97, 98], [99]] @ [0, 1, 0, 1] @ []) CAPTIVE_PORTAL_IP =
   Some [0xAB, 0xCD, 0x81, 0x80, 0, 1, 0, 1, 0, 0, 0, 0, 2, 97, 98, 1, 99, 0, 0, 1, 0, 1,
     0xC0, 0x0C, 0, 1, 0, 1, 0, 0, 0, 60, 0, 4, 192, 168, 71, 1]"
proof -
  have "u16_from_be_bytes 0 1 = 1" by (simp add: u16_from_be_bytes_def)
  then have "build_captive_dns_response
     ([0xAB, 0xCD, 1, 0, 0, 1, 0, 0, 0, 0, 0, 0] @ encode_name [[97, 98], [99]] @ [0, 1, 0, 1] @ []) CAPTIVE_PORTAL_IP =
    Some (take 2 [0xAB, 0xCD, 1, 0, 0, 1, 0, 0, 0, 0, 0, 0] @ [0x81, 0x80]
      @ take 2 (drop 4 [0xAB, 0xCD, 1, 0, 0, 1, 0, 0, 0, 0, 0, 0])
      @ (if u16_from_be_bytes 0 1 = 1 \<and> u16_from_be_bytes 0 1 = 1 then [0, 1] else [0, 0])
      @ [0, 0, 0, 0] @ encode_name [[97, 98], [99]] @ [0, 1, 0, 1]
      @ (if u16_from_be_bytes 0 1 = 1 \<and> u16_from_be_bytes 0 1 = 1
         then [0xC0, 0x0C, 0, 1, 0, 1, 0, 0, 0, 60, 0, 4] @ CAPTIVE_PORTAL_IP else []))"
    by (intro dns_answers_every_name) (simp_all add: usize_limit_def encode_name_def)
  also have "\<dots> = Some [0xAB, 0xCD, 0x81, 0x80, 0, 1, 0, 1, 0, 0, 0, 0, 2, 97, 98, 1, 99, 0, 0, 1, 0, 1,
     0xC0, 0x0C, 0, 1, 0, 1, 0, 0, 0, 60, 0, 4, 192, 168, 71, 1]" by code_simp
  finally show ?thesis .
qed

text \<open>Any response is at most 16 bytes longer than the query, so it fits in a datagram.\<close>

lemma dns_response_length:
  assumes "build_captive_dns_response query ip = Some r" and "length ip = 4"
  shows "length r \<le> length query + 16"
  using assms
  by (auto simp: build_captive_dns_response_def Let_def usize_checked_add_Some split: if_splits option.splits)

text \<open>A datagram that cannot be received or answered costs no other client its answer.\<close>

lemma captive_dns_task_isolated:
  "captive_dns_turn bad = [] \<Longrightarrow>
   captive_dns_task (Inr ()) (before @ bad # after) = captive_dns_task (Inr ()) (before @ after)"
  by (simp add: captive_dns_task_def)

lemma captive_dns_answers_size:
  assumes "(response, peer) \<in> set (captive_dns_task bound received)"
  shows "length response \<le> 528 \<and> (\<exists>datagram. Inr (datagram, peer) \<in> set received)"
proof -
  obtain datagram where r: "Inr (datagram, peer) \<in> set received"
    "build_captive_dns_response (take 512 datagram) CAPTIVE_PORTAL_IP = Some response"
    using assms by (auto simp: captive_dns_task_def captive_dns_turn_def split: sum.splits option.splits)
  have "length response \<le> length (take 512 datagram) + 16"
    using dns_response_length [OF r(2)] by (simp add: CAPTIVE_PORTAL_IP_def)
  with r(1) show ?thesis by auto
qed

section \<open>Escaping\<close>

definition html_entity :: "char \<Rightarrow> string" where
  "html_entity c =
     (if c = CHR ''&'' then ''&amp;'' else if c = CHR ''<'' then ''&lt;''
      else if c = CHR ''>'' then ''&gt;'' else if c = CHR 0x22 then ''&quot;''
      else if c = CHR 0x27 then ''&#39;'' else [c])"

text \<open>The five successive replacements act as one substitution per character.\<close>

lemma str_replace_Cons:
  "str_replace c r [] = []" "str_replace c r (x # s) = (if x = c then r else [x]) @ str_replace c r s"
  by (simp_all add: str_replace_def)

lemma str_replace_append: "str_replace c r (s @ t) = str_replace c r s @ str_replace c r t"
  by (simp add: str_replace_def)

lemma escape_html_one: "escape_html [c] = html_entity c"
  by (simp add: escape_html_def html_entity_def str_replace_Cons)

lemma escape_html_entities: "escape_html s = concat (map html_entity s)"
proof (induction s)
  case Nil
  then show ?case by (simp add: escape_html_def str_replace_Cons)
next
  case (Cons c s)
  have "escape_html (c # s) = escape_html [c] @ escape_html s"
    using str_replace_append [of _ _ "[c]" s] unfolding escape_html_def by (simp add: str_replace_append)
  then show ?case by (simp only: Cons escape_html_one list.map concat.simps)
qed

lemma escape_html_safe: "CHR ''<'' \<notin> set (escape_html s) \<and> CHR ''>'' \<notin> set (escape_html s) \<and>
    CHR 0x22 \<notin> set (escape_html s) \<and> CHR 0x27 \<notin> set (escape_html s)"
  by (induction s) (auto simp: escape_html_entities html_entity_def)

end
