(* ===== verification/Provisioning.thy ===== *)
theory Provisioning
  imports Wifi_Driver Captive_Portal Frame_State
begin

text \<open>
  Provisioning: \<open>frame-net/src/provisioning.rs\<close>. One call of \<open>ensure_network\<close> is one tick of the boot
  loop. Its state is the manager and the global \<open>WIFI_MANAGER\<close>; what it meets is an argument: the
  environment variables and the credentials baked in at build time, the random suffix, the driver while
  it joins and while it serves the access point, the outcome of starting the portal, and what the phone's
  HTTP requests do to the portal since the last tick and while the driver is busy connecting.

  The trait \<open>ProvisioningManager\<close> is the locale \<open>provisioning_manager\<close>, interpreted for both
  implementations.
\<close>

section \<open>The managers\<close>

datatype ProvisioningState = ProvNotStarted | Started string string | Finished string string

record EspProvisioningManager =
  prov_state :: ProvisioningState
  captive_portal :: CaptivePortal

text \<open>The manager with the global it works on.\<close>

record provisioning = EspProvisioningManager +
  WIFI_MANAGER :: wifi_static

text \<open>
  \<open>requests_before\<close>: the requests served between the last tick and this one; \<open>portal_requests\<close>: those
  served while the driver connects.
\<close>

record prov_env =
  env_var :: "string \<Rightarrow> string option"
  baked :: "string \<Rightarrow> string option"
  ap_suffix :: u16
  join_driver :: wifi_driver
  ap_driver :: wifi_driver
  portal_setup :: "unit result"
  requests_before :: "PortalState mutex \<Rightarrow> PortalState mutex"
  portal_requests :: "PortalState mutex \<Rightarrow> PortalState mutex"

definition esp_manager_default :: EspProvisioningManager where
  "esp_manager_default =
     \<lparr>prov_state = ProvNotStarted,
      captive_portal = \<lparr>portal_state = Unpoisoned \<lparr>connect_state = NotConnected, scan_handler = None\<rparr>,
                        server_running = False\<rparr>\<rparr>"

definition create_provisioning_manager :: "wifi_static \<Rightarrow> provisioning" where
  "create_provisioning_manager w =
     \<lparr>prov_state = prov_state esp_manager_default, captive_portal = captive_portal esp_manager_default,
      WIFI_MANAGER = w\<rparr>"

lemma create_provisioning_manager_simps [simp]:
  "prov_state (create_provisioning_manager w) = ProvNotStarted"
  "WIFI_MANAGER (create_provisioning_manager w) = w"
  by (simp_all add: create_provisioning_manager_def esp_manager_default_def)

text \<open>A runtime value is used as it is, a baked one trimmed; a blank one is no value.\<close>

definition embedded_or_runtime_env :: "prov_env \<Rightarrow> string \<Rightarrow> string option" where
  "embedded_or_runtime_env env key =
     (case env_var env key of
        Some v \<Rightarrow> if str_trim v \<noteq> [] then Some v else nonblank (baked env key)
      | None \<Rightarrow> nonblank (baked env key))"

definition configured_station_credentials :: "prov_env \<Rightarrow> (string \<times> string) option" where
  "configured_station_credentials env =
     (case embedded_or_runtime_env env ''WIFI_SSID'' of
        None \<Rightarrow> None
      | Some ssid \<Rightarrow>
          Some (ssid, (case embedded_or_runtime_env env ''WIFI_PASSWORD'' of None \<Rightarrow> [] | Some p \<Rightarrow> p)))"

definition show_hex4 :: "nat \<Rightarrow> string" where
  "show_hex4 n = show_hex True 4 n"

definition generate_ap_ssid :: "prov_env \<Rightarrow> string" where
  "generate_ap_ssid env = ''Frame-'' @ show_hex4 (unat (ap_suffix env))"

definition generate_ap_password :: string where
  "generate_ap_password = []"

text \<open>The scan handler the portal is given calls the driver.\<close>

definition scan_networks :: "prov_env \<Rightarrow> wifi_static \<Rightarrow> unit \<Rightarrow> WifiNetwork list result" where
  "scan_networks env w u =
     and_then (scan (ap_driver env) w) (\<lambda>aps. Inr (map (\<lambda>ssid. \<lparr>network_ssid = ssid\<rparr>) aps))"

definition start_setup :: "prov_env \<Rightarrow> provisioning \<Rightarrow> NetworkPhase result \<times> provisioning" where
  "start_setup env m =
     (let ap_name = generate_ap_ssid env; ap_key = generate_ap_password in
      case set_scan_handler (scan_networks env (WIFI_MANAGER m)) (captive_portal m) of
        (Inl e, p) \<Rightarrow> (Inl e, m\<lparr>captive_portal := p\<rparr>)
      | (Inr _, p) \<Rightarrow>
          (let m1 = m\<lparr>captive_portal := p\<rparr> in
           case start_ap (ap_driver env) ap_name ap_key (WIFI_MANAGER m1) of
             (Inl e, w) \<Rightarrow> (Inl e, m1\<lparr>WIFI_MANAGER := w\<rparr>)
           | (Inr _, w) \<Rightarrow>
               (let m2 = m1\<lparr>WIFI_MANAGER := w\<rparr> in
                case start_portal (portal_setup env) (captive_portal m2) of
                  (Inl e, p') \<Rightarrow> (Inl e, m2\<lparr>captive_portal := p'\<rparr>)
                | (Inr _, p') \<Rightarrow>
                    (let m3 = m2\<lparr>captive_portal := p'\<rparr> in
                     case current_ap_credentials (ap_driver env) (WIFI_MANAGER m3) of
                       Inl e \<Rightarrow> (Inl e, m3)
                     | Inr None \<Rightarrow> (Inl (Msg ''ap started but effective credentials are unavailable''), m3)
                     | Inr (Some (ssid, password)) \<Rightarrow>
                         (Inr Provisioning, m3\<lparr>prov_state := Started ssid password\<rparr>)))))"

text \<open>Requests change the portal's state only.\<close>

definition serve ::
  "(PortalState mutex \<Rightarrow> PortalState mutex) \<Rightarrow> provisioning \<Rightarrow> provisioning" where
  "serve requests m =
     m\<lparr>captive_portal := (captive_portal m)\<lparr>portal_state := requests (portal_state (captive_portal m))\<rparr>\<rparr>"

definition try_join ::
  "prov_env \<Rightarrow> string \<Rightarrow> string \<Rightarrow> string \<Rightarrow> string \<Rightarrow> provisioning \<Rightarrow> NetworkPhase result \<times> provisioning" where
  "try_join env ap_name ap_key ssid password m =
     (case stop_ap (join_driver env) (WIFI_MANAGER m) of
        (Inl e, w) \<Rightarrow> (Inl e, m\<lparr>WIFI_MANAGER := w\<rparr>)
      | (Inr _, w) \<Rightarrow>
          (let m1 = serve (portal_requests env) m in
           case connect (join_driver env) ssid password w of
             (Inr _, w1) \<Rightarrow>
               (let m2 = m1\<lparr>WIFI_MANAGER := w1\<rparr> in
                case mark_connected (captive_portal m2) of
                  (Inl e, p) \<Rightarrow> (Inl e, m2\<lparr>captive_portal := p\<rparr>)
                | (Inr _, p) \<Rightarrow>
                    (case stop_portal p of
                       (Inl e, p') \<Rightarrow> (Inl e, m2\<lparr>captive_portal := p'\<rparr>)
                     | (Inr _, p') \<Rightarrow>
                         (Inr NetConnected, m2\<lparr>captive_portal := p', prov_state := Finished ssid password\<rparr>)))
           | (Inl _, w1) \<Rightarrow>
               (case start_ap (ap_driver env) ap_name ap_key w1 of
                  (Inl e, w2) \<Rightarrow> (Inl e, m1\<lparr>WIFI_MANAGER := w2\<rparr>)
                | (Inr _, w2) \<Rightarrow>
                    (let m2 = m1\<lparr>WIFI_MANAGER := w2\<rparr> in
                     case reset_connect_state (captive_portal m2) of
                       (Inl e, p) \<Rightarrow> (Inl e, m2\<lparr>captive_portal := p\<rparr>)
                     | (Inr _, p) \<Rightarrow>
                         (Inr Provisioning, m2\<lparr>captive_portal := p, prov_state := Started ap_name ap_key\<rparr>)))))"

definition ensure_network :: "prov_env \<Rightarrow> provisioning \<Rightarrow> NetworkPhase result \<times> provisioning" where
  "ensure_network env m =
     (case prov_state m of
        ProvNotStarted \<Rightarrow>
          (case configured_station_credentials env of
             Some (ssid, password) \<Rightarrow>
               (case connect (join_driver env) ssid password (WIFI_MANAGER m) of
                  (Inr _, w) \<Rightarrow> (Inr NetConnected, m\<lparr>WIFI_MANAGER := w, prov_state := Finished ssid password\<rparr>)
                | (Inl _, w) \<Rightarrow> start_setup env (m\<lparr>WIFI_MANAGER := w\<rparr>))
           | None \<Rightarrow> start_setup env m)
      | Started ap_name ap_key \<Rightarrow>
          (let m0 = serve (requests_before env) m in
           case get_connect_state (captive_portal m0) of
             Joining ssid password \<Rightarrow> try_join env ap_name ap_key ssid password m0
           | _ \<Rightarrow> (Inr Provisioning, m0))
      | Finished ssid password \<Rightarrow> (Inr NetConnected, m))"

definition get_provisioning_ap_details :: "'a EspProvisioningManager_scheme \<Rightarrow> (string \<times> string) option" where
  "get_provisioning_ap_details m =
     (case prov_state m of Started ssid password \<Rightarrow> Some (ssid, password) | _ \<Rightarrow> None)"

definition host_ensure_network :: "prov_env \<Rightarrow> unit \<Rightarrow> NetworkPhase result \<times> unit" where
  "host_ensure_network env m = (Inr NetConnected, m)"

definition host_ap_details :: "unit \<Rightarrow> (string \<times> string) option" where
  "host_ap_details m = None"

section \<open>The contract of a provisioning manager\<close>

text \<open>
  What the boot loop relies on: provisioning comes with setup details, being connected comes without,
  and connected is final.
\<close>

locale provisioning_manager =
  fixes tick :: "'e \<Rightarrow> 's \<Rightarrow> NetworkPhase result \<times> 's"
    and details :: "'s \<Rightarrow> (string \<times> string) option"
  assumes provisioning_details: "fst (tick env s) = Inr Provisioning \<Longrightarrow> details (snd (tick env s)) \<noteq> None"
    and connected_details: "fst (tick env s) = Inr NetConnected \<Longrightarrow> details (snd (tick env s)) = None"
    and connected_final: "fst (tick env s) = Inr NetConnected \<Longrightarrow>
      tick env' (snd (tick env s)) = (Inr NetConnected, snd (tick env s))"
    and never_unprovisioned: "fst (tick env s) \<noteq> Inr Unprovisioned"
begin

definition ticks :: "'e list \<Rightarrow> 's \<Rightarrow> 's" where
  "ticks envs s = fold (\<lambda>env s. snd (tick env s)) envs s"

lemma stays_connected:
  assumes "fst (tick env s) = Inr NetConnected"
  shows "ticks envs (snd (tick env s)) = snd (tick env s) \<and>
    fst (tick env' (ticks envs (snd (tick env s)))) = Inr NetConnected"
proof -
  have "fold (\<lambda>env s. snd (tick env s)) envs (snd (tick env s)) = snd (tick env s)"
    using connected_final [OF assms] by (induction envs) simp_all
  then show ?thesis using connected_final [OF assms] by (simp add: ticks_def)
qed

end

lemma start_setup_cases:
  "start_setup env m = (r, m') \<Longrightarrow>
   (\<exists>e. r = Inl e) \<or> (r = Inr Provisioning \<and> (\<exists>s p. prov_state m' = Started s p))"
  by (auto simp: start_setup_def Let_def split: prod.splits sum.splits option.splits)

lemma try_join_cases:
  "try_join env a b s p m = (r, m') \<Longrightarrow>
   (\<exists>e. r = Inl e) \<or> (r = Inr Provisioning \<and> prov_state m' = Started a b) \<or>
   (r = Inr NetConnected \<and> prov_state m' = Finished s p)"
  by (auto simp: try_join_def Let_def split: prod.splits sum.splits)

lemma ensure_network_cases:
  "ensure_network env m = (r, m') \<Longrightarrow>
   (\<exists>e. r = Inl e) \<or> (r = Inr Provisioning \<and> (\<exists>s p. prov_state m' = Started s p)) \<or>
   (r = Inr NetConnected \<and> (\<exists>s p. prov_state m' = Finished s p))"
  by (auto simp: ensure_network_def Let_def serve_def dest!: start_setup_cases try_join_cases
      split: ProvisioningState.splits option.splits prod.splits sum.splits ConnectState.splits)

interpretation esp: provisioning_manager ensure_network get_provisioning_ap_details
proof unfold_locales
  fix env env' :: prov_env and m :: provisioning
  obtain r m' where tick: "ensure_network env m = (r, m')" by (cases "ensure_network env m")
  note cases = ensure_network_cases [OF tick]
  show "fst (ensure_network env m) = Inr Provisioning \<Longrightarrow>
      get_provisioning_ap_details (snd (ensure_network env m)) \<noteq> None"
    using cases by (auto simp: tick get_provisioning_ap_details_def)
  show "fst (ensure_network env m) = Inr NetConnected \<Longrightarrow>
      get_provisioning_ap_details (snd (ensure_network env m)) = None"
    using cases by (auto simp: tick get_provisioning_ap_details_def)
  show "fst (ensure_network env m) = Inr NetConnected \<Longrightarrow>
      ensure_network env' (snd (ensure_network env m)) = (Inr NetConnected, snd (ensure_network env m))"
    using cases by (auto simp: tick) (simp add: ensure_network_def)
  show "fst (ensure_network env m) \<noteq> Inr Unprovisioned" using cases by (auto simp: tick)
qed

interpretation host: provisioning_manager host_ensure_network host_ap_details
  by unfold_locales (simp_all add: host_ensure_network_def host_ap_details_def)

text \<open>
  Provisioning tells the truth about the network: when a tick reports \<open>Provisioning\<close> there are
  setup details to show, when it reports \<open>Connected\<close> there are none and every later tick, in
  whatever environment, reports \<open>Connected\<close> again and changes nothing, and no tick ever reports
  \<open>Unprovisioned\<close>.
\<close>

theorem provisioning_phases_are_consistent:
  "(fst (ensure_network env m) = Inr Provisioning \<longrightarrow>
      get_provisioning_ap_details (snd (ensure_network env m)) \<noteq> None) \<and>
   (fst (ensure_network env m) = Inr NetConnected \<longrightarrow>
      get_provisioning_ap_details (snd (ensure_network env m)) = None \<and>
      fold (\<lambda>env s. snd (ensure_network env s)) later (snd (ensure_network env m)) = snd (ensure_network env m) \<and>
      fst (ensure_network env' (snd (ensure_network env m))) = Inr NetConnected) \<and>
   fst (ensure_network env m) \<noteq> Inr Unprovisioned"
  using esp.provisioning_details [of env m] esp.connected_details [of env m]
    esp.stays_connected [of env m later env'] esp.connected_final [of env m env'] esp.never_unprovisioned [of env m]
  by (simp add: esp.ticks_def)

section \<open>A sample home\<close>

definition home_env :: prov_env where
  "home_env = \<lparr>env_var = (\<lambda>_. None), baked = (\<lambda>k. if k = ''WIFI_SSID'' then Some '' Home '' else None),
     ap_suffix = 0x1A2B, join_driver = sample_driver, ap_driver = sample_driver,
     portal_setup = Inr (), requests_before = id, portal_requests = id\<rparr>"

definition new_manager :: provisioning where
  "new_manager = create_provisioning_manager (Some (Unpoisoned idle_radio))"

lemma sample_join:
  assumes "length ssid \<le> 32" and "length password \<le> 64"
  obtains w where "connect sample_driver ssid password (Some (Unpoisoned r)) = (Inr (), w)"
proof -
  have "is_ok (fst (connect sample_driver ssid password (Some (Unpoisoned r))))"
    unfolding connect_outcome using station_usable_sample [OF assms]
    by (rule connect_loop_joins) (auto simp: set_attempts attempt_joins_def sample_driver_def intro: bexI [of _ 3])
  then show ?thesis using that by (metis is_ok_iff old.unit.exhaust prod.collapse)
qed

lemma home_env_connects: "\<exists>m'. ensure_network home_env new_manager = (Inr NetConnected, m')"
proof -
  have "str_trim '' Home '' = ''Home''" by code_simp
  then have "configured_station_credentials home_env = Some (''Home'', [])"
    by (simp add: configured_station_credentials_def embedded_or_runtime_env_def home_env_def nonblank_def)
  moreover obtain w where "connect (join_driver home_env) ''Home'' [] (WIFI_MANAGER new_manager) = (Inr (), w)"
    using sample_join [of "''Home''" "[]" idle_radio]
    by (auto simp: home_env_def new_manager_def)
  ultimately show ?thesis by (simp add: ensure_network_def new_manager_def)
qed

theorem provisioning_phases_are_consistent_witness:
  "get_provisioning_ap_details (snd (ensure_network home_env new_manager)) = None \<and>
   fst (ensure_network (home_env\<lparr>ap_suffix := 0\<rparr>) (snd (ensure_network home_env new_manager))) =
     Inr NetConnected"
  using provisioning_phases_are_consistent [of home_env new_manager "[]" "home_env\<lparr>ap_suffix := 0\<rparr>"]
    home_env_connects by auto

section \<open>What the radio serves\<close>

lemma current_ap_credentials_active:
  assumes "truthful d" and "active_ap r = Some ap"
    and "current_ap_credentials d (Some (Unpoisoned r)) = Inr (Some (ssid, password))"
  shows "ap_ssid ap = ssid \<and> ap_password ap = password"
proof -
  have "get_config d 0 r = Inr (configuration r)"
    using assms(1,3) by (cases "get_config d 0 r") (auto simp: truthful_def current_ap_credentials_def with_wifi_manager_def)
  then show ?thesis
    using assms(2,3)
    by (auto simp: current_ap_credentials_def with_wifi_manager_def active_ap_def ap_credentials_from_config_def
        split: Configuration.splits if_splits)
qed

text \<open>The manager's setup network is on the air, or the coprocessor's open network is.\<close>

definition names_its_network :: "provisioning \<Rightarrow> bool" where
  "names_its_network m \<longleftrightarrow>
     (\<exists>ssid password r ap. prov_state m = Started ssid password \<and> WIFI_MANAGER m = Some (Unpoisoned r) \<and>
        active_ap r = Some ap \<and> ap_ssid ap = ssid \<and> ap_password ap = password)"

definition serves_its_network :: "provisioning \<Rightarrow> bool" where
  "serves_its_network m \<longleftrightarrow>
     (\<exists>ssid password r ap. prov_state m = Started ssid password \<and> WIFI_MANAGER m = Some (Unpoisoned r) \<and>
        active_ap r = Some ap \<and> (ap_ssid ap = ssid \<and> ap_password ap = password \<or> hosted_fallback ap))"

lemma start_setup_names:
  assumes "truthful (ap_driver env)" and "start_setup env m = (Inr p, m')"
  shows "names_its_network m'"
proof -
  obtain w where up: "start_ap (ap_driver env) (generate_ap_ssid env) generate_ap_password (WIFI_MANAGER m) = (Inr (), w)"
    "WIFI_MANAGER m' = w" and
    details: "\<exists>ssid password. current_ap_credentials (ap_driver env) w = Inr (Some (ssid, password)) \<and>
       prov_state m' = Started ssid password"
    using assms(2) by (auto simp: start_setup_def Let_def split: prod.splits sum.splits option.splits)
  from start_ap_serves [OF assms(1) up(1)] details up(2) current_ap_credentials_active [OF assms(1)]
  show ?thesis by (fastforce simp: names_its_network_def)
qed

text \<open>A tick whose join is refused by the driver.\<close>

definition join_fails :: "prov_env \<Rightarrow> provisioning \<Rightarrow> bool" where
  "join_fails env m \<longleftrightarrow>
     (\<exists>a k ssid password w. prov_state m = Started a k \<and>
        get_connect_state (captive_portal (serve (requests_before env) m)) = Joining ssid password \<and>
        stop_ap (join_driver env) (WIFI_MANAGER m) = (Inr (), w) \<and>
        \<not> is_ok (fst (connect (join_driver env) ssid password w)))"

lemma serve_simps [simp]: "prov_state (serve f m) = prov_state m" "WIFI_MANAGER (serve f m) = WIFI_MANAGER m"
  "portal_state (captive_portal (serve f m)) = f (portal_state (captive_portal m))"
  by (simp_all add: serve_def)

lemma tick_serves:
  assumes "truthful (ap_driver env)" and "ensure_network env m = (Inr Provisioning, m')"
  shows "prov_state m = ProvNotStarted \<and> names_its_network m' \<or>
    join_fails env m \<and> prov_state m' = prov_state m \<and> serves_its_network m' \<or>
    (\<exists>a k. prov_state m = Started a k) \<and> prov_state m' = prov_state m \<and> WIFI_MANAGER m' = WIFI_MANAGER m"
proof (cases "prov_state m")
  case ProvNotStarted
  then have "\<exists>m0. start_setup env m0 = (Inr Provisioning, m')"
    using assms(2) by (auto simp: ensure_network_def split: option.splits prod.splits sum.splits)
  with start_setup_names [OF assms(1)] ProvNotStarted show ?thesis by blast
next
  case (Started a k)
  let ?m = "serve (requests_before env) m"
  show ?thesis
  proof (cases "get_connect_state (captive_portal ?m)")
    case (Joining ssid password)
    then have "try_join env a k ssid password ?m = (Inr Provisioning, m')"
      using assms(2) Started by (simp add: ensure_network_def)
    then obtain w e w1 w2 where tried: "stop_ap (join_driver env) (WIFI_MANAGER m) = (Inr (), w)"
        "connect (join_driver env) ssid password w = (Inl e, w1)" "start_ap (ap_driver env) a k w1 = (Inr (), w2)"
        "prov_state m' = Started a k" "WIFI_MANAGER m' = w2"
      by (auto simp: try_join_def Let_def split: prod.splits sum.splits)
    from start_ap_serves [OF assms(1) tried(3)] tried Joining Started show ?thesis
      by (auto simp: serves_its_network_def join_fails_def as_requested_def)
  qed (use assms(2) Started in \<open>auto simp: ensure_network_def\<close>)
next
  case Finished
  with assms(2) show ?thesis by (simp add: ensure_network_def)
qed

section \<open>A failed join\<close>

text \<open>
  C35: a failed join always goes back to setup: when the driver cannot join the submitted network and
  the access point can be started again, the tick reports provisioning, the manager keeps naming its
  setup network, the access point is really back on the air -- with that name and password, open exactly
  when the password is empty, or as the open network of the coprocessor, which the manager then does not
  name -- and the portal waits for the owner again. Credentials that a phone submitted while
  the driver was busy are lost: with no further request the next tick joins nothing.
\<close>

theorem failed_join_returns_to_setup:
  assumes "prov_state m = Started a k"
    and "get_connect_state (captive_portal (serve (requests_before env) m)) = Joining ssid password"
    and "stop_ap (join_driver env) (WIFI_MANAGER m) = (Inr (), w)"
    and "connect (join_driver env) ssid password w = (Inl e, w1)"
    and "truthful (ap_driver env)" and "start_ap (ap_driver env) a k w1 = (Inr (), w2)"
    and "portal_requests env (requests_before env (portal_state (captive_portal m))) = Unpoisoned (s\<lparr>connect_state := c\<rparr>)"
    and "requests_before env' = id"
  shows "\<exists>m' r ap. ensure_network env m = (Inr Provisioning, m') \<and>
    get_provisioning_ap_details m' = Some (a, k) \<and>
    WIFI_MANAGER m' = w2 \<and> w2 = Some (Unpoisoned r) \<and> active_ap r = Some ap \<and>
    (ap_ssid ap = a \<and> ap_password ap = k \<and> (ap_auth ap = AuthNone \<longleftrightarrow> k = []) \<or> hosted_fallback ap) \<and>
    portal_state (captive_portal m') = Unpoisoned (s\<lparr>connect_state := NotConnected\<rparr>) \<and>
    ensure_network env' m' = (Inr Provisioning, m')"
proof -
  let ?m = "serve (portal_requests env) (serve (requests_before env) m)"
  let ?m' = "?m\<lparr>WIFI_MANAGER := w2, captive_portal := (captive_portal ?m)\<lparr>portal_state := Unpoisoned (s\<lparr>connect_state := NotConnected\<rparr>)\<rparr>,
    prov_state := Started a k\<rparr>"
  have "ensure_network env m = (Inr Provisioning, ?m')"
    using assms(1-4,6,7) by (simp add: ensure_network_def try_join_def reset_connect_state_def on_portal_def Let_def)
  moreover have "ensure_network env' ?m' = (Inr Provisioning, ?m')"
    using assms(8) by (simp add: ensure_network_def get_connect_state_def serve_def)
  moreover obtain r ap where "w2 = Some (Unpoisoned r)" "active_ap r = Some ap"
      "as_requested a k ap \<or> hosted_fallback ap"
    using start_ap_serves [OF assms(5,6)] by blast
  ultimately show ?thesis
    by (intro exI [of _ ?m'] exI [of _ r] exI [of _ ap]) (simp add: get_provisioning_ap_details_def as_requested_def)
qed

definition joining_manager :: provisioning where
  "joining_manager = new_manager\<lparr>prov_state := Started ''Frame-1A2B'' [],
     captive_portal := \<lparr>portal_state = Unpoisoned \<lparr>connect_state = NotConnected, scan_handler = None\<rparr>,
                        server_running = True\<rparr>\<rparr>"

definition typing_phone :: "string \<Rightarrow> PortalState mutex \<Rightarrow> PortalState mutex" where
  "typing_phone key p = Unpoisoned \<lparr>connect_state = Joining ''Home'' key, scan_handler = None\<rparr>"

definition wrong_password_env :: prov_env where
  "wrong_password_env = home_env\<lparr>join_driver := sample_driver\<lparr>wait_netif_up := (\<lambda>_ r. (Inl (Msg ''no address''), r))\<rparr>,
     requests_before := typing_phone ''typo'', portal_requests := typing_phone ''right''\<rparr>"

lemma wrong_password_join:
  obtains e w1 where "connect (join_driver wrong_password_env) ''Home'' ''typo'' (Some (Unpoisoned r)) = (Inl e, Some (Unpoisoned w1))"
proof -
  let ?d = "join_driver wrong_password_env"
  have usable: "station_usable ?d ''Home'' ''typo''"
    by (simp add: station_usable_def wrong_password_env_def sample_driver_def)
  have "\<not> is_ok (fst (connect_loop ?d ''Home'' ''typo'' attempts None r))"
    by (rule connect_loop_fails [OF usable]) (simp add: attempt_fails_def wrong_password_env_def)
  then obtain e w1 where "connect_loop ?d ''Home'' ''typo'' attempts None r = (Inl e, w1)"
    by (metis is_ok_iff prod.collapse sum.exhaust)
  then show ?thesis by (intro that) (simp add: connect_def with_wifi_manager_def)
qed

lemma wrong_password_back:
  obtains w e w1 where "stop_ap (join_driver wrong_password_env) (Some (Unpoisoned r)) = (Inr (), w)"
    "connect (join_driver wrong_password_env) ''Home'' ''typo'' w = (Inl e, w1)"
    "start_ap (ap_driver wrong_password_env) ''Frame-1A2B'' [] w1 =
      (Inr (), Some (Unpoisoned \<lparr>configuration = AccessPoint hosted_ap, radio_on = True\<rparr>))"
proof -
  have stop: "stop_ap (join_driver wrong_password_env) (Some (Unpoisoned r)) = (Inr (), Some (Unpoisoned (r\<lparr>radio_on := False\<rparr>)))"
    by (simp add: stop_ap_def with_wifi_manager_def wrong_password_env_def sample_driver_def)
  obtain e w1 where fail: "connect (join_driver wrong_password_env) ''Home'' ''typo'' (Some (Unpoisoned (r\<lparr>radio_on := False\<rparr>))) =
      (Inl e, Some (Unpoisoned w1))" by (rule wrong_password_join)
  have "start_ap (ap_driver wrong_password_env) ''Frame-1A2B'' [] (Some (Unpoisoned w1)) =
      (Inr (), Some (Unpoisoned \<lparr>configuration = AccessPoint hosted_ap, radio_on = True\<rparr>))"
    by (simp add: wrong_password_env_def home_env_def sample_ap_starts)
  with stop fail show ?thesis by (rule that)
qed

lemma wrong_password_tick:
  assumes "prov_state m = Started ''Frame-1A2B'' []" and "WIFI_MANAGER m = Some (Unpoisoned r)"
  obtains m' where "ensure_network wrong_password_env m = (Inr Provisioning, m')" "prov_state m' = Started ''Frame-1A2B'' []"
    "WIFI_MANAGER m' = Some (Unpoisoned \<lparr>configuration = AccessPoint hosted_ap, radio_on = True\<rparr>)"
proof -
  obtain w e w1 where "stop_ap (join_driver wrong_password_env) (Some (Unpoisoned r)) = (Inr (), w)"
    "connect (join_driver wrong_password_env) ''Home'' ''typo'' w = (Inl e, w1)"
    "start_ap (ap_driver wrong_password_env) ''Frame-1A2B'' [] w1 =
      (Inr (), Some (Unpoisoned \<lparr>configuration = AccessPoint hosted_ap, radio_on = True\<rparr>))"
    by (rule wrong_password_back)
  moreover have "requests_before wrong_password_env = typing_phone ''typo''" "portal_requests wrong_password_env = typing_phone ''right''"
    by (simp_all add: wrong_password_env_def)
  ultimately show ?thesis using assms that
    by (simp add: ensure_network_def try_join_def get_connect_state_def typing_phone_def reset_connect_state_def
        on_portal_def Let_def)
qed

text \<open>The station gets no address, and the access point comes back as the coprocessor's own.\<close>

theorem failed_join_returns_to_setup_witness:
  "\<exists>m' r ap. ensure_network wrong_password_env joining_manager = (Inr Provisioning, m') \<and>
     get_provisioning_ap_details m' = Some (''Frame-1A2B'', []) \<and>
     WIFI_MANAGER m' = Some (Unpoisoned r) \<and> active_ap r = Some ap \<and> ap_ssid ap = ''ESP_0a1B2c'' \<and>
     get_connect_state (captive_portal m') = NotConnected"
proof -
  have static: "WIFI_MANAGER joining_manager = Some (Unpoisoned idle_radio)"
    by (simp add: joining_manager_def new_manager_def)
  obtain w e w1 where tried: "stop_ap (join_driver wrong_password_env) (WIFI_MANAGER joining_manager) = (Inr (), w)"
    "connect (join_driver wrong_password_env) ''Home'' ''typo'' w = (Inl e, w1)"
    "start_ap (ap_driver wrong_password_env) ''Frame-1A2B'' [] w1 =
      (Inr (), Some (Unpoisoned \<lparr>configuration = AccessPoint hosted_ap, radio_on = True\<rparr>))"
    unfolding static by (rule wrong_password_back)
  have honest: "truthful (ap_driver wrong_password_env)"
    by (simp add: wrong_password_env_def home_env_def truthful_sample)
  have on_air: "active_ap \<lparr>configuration = AccessPoint hosted_ap, radio_on = True\<rparr> = Some hosted_ap"
    "ap_ssid hosted_ap = ''ESP_0a1B2c''"
    by (simp_all add: active_ap_def hosted_ap_def)
  have typed: "prov_state joining_manager = Started ''Frame-1A2B'' []"
    "get_connect_state (captive_portal (serve (requests_before wrong_password_env) joining_manager)) = Joining ''Home'' ''typo''"
    "portal_requests wrong_password_env (requests_before wrong_password_env (portal_state (captive_portal joining_manager))) =
       Unpoisoned (\<lparr>connect_state = NotConnected, scan_handler = None\<rparr>\<lparr>connect_state := Joining ''Home'' ''right''\<rparr>)"
    by (simp_all add: joining_manager_def wrong_password_env_def typing_phone_def get_connect_state_def)
  have quiet: "requests_before home_env = id" by (simp add: home_env_def)
  show ?thesis
    using failed_join_returns_to_setup [OF typed(1,2) tried(1,2) honest tried(3) typed(3) quiet] on_air
    by (auto simp: get_connect_state_def)
qed

end
