(* ===== verification/Setup_Store.thy ===== *)
theory Setup_Store
  imports Frame_State
begin

text \<open>
  The persisted setup checkpoint: \<open>frame-firmware/src/setup_state_store.rs\<close>. A nine-byte record in
  flash: magic, version, checkpoint, two phases, flags. The key-value storage is an argument: what it
  holds, and the outcome of each access.

  Each one-byte field is a partial code (\<open>byte_codec\<close>); the record round-trips because they do.
\<close>

section \<open>One-byte codes\<close>

locale byte_codec =
  fixes enc :: "'a \<Rightarrow> u8" and dec :: "u8 \<Rightarrow> 'a option"
  assumes dec_enc: "dec (enc a) = Some a"
    and enc_dec: "dec b = Some a \<Longrightarrow> enc a = b"
begin

lemma dec_iff: "dec b = Some a \<longleftrightarrow> b = enc a"
  using dec_enc enc_dec by auto

lemma enc_inject: "enc a = enc b \<longleftrightarrow> a = b"
  by (metis dec_enc option.inject)

end

datatype SetupCheckpoint =
    BootStarted | SplashRendered | SetupRendered | CheckpointProvisioning | NetworkConnected | CheckpointReady

fun checkpoint_as_str :: "SetupCheckpoint \<Rightarrow> string" where
  "checkpoint_as_str BootStarted = ''boot-started''"
| "checkpoint_as_str SplashRendered = ''splash-rendered''"
| "checkpoint_as_str SetupRendered = ''setup-rendered''"
| "checkpoint_as_str CheckpointProvisioning = ''provisioning''"
| "checkpoint_as_str NetworkConnected = ''network-connected''"
| "checkpoint_as_str CheckpointReady = ''ready''"

fun checkpoint_byte :: "SetupCheckpoint \<Rightarrow> u8" where
  "checkpoint_byte BootStarted = 1"
| "checkpoint_byte SplashRendered = 2"
| "checkpoint_byte SetupRendered = 3"
| "checkpoint_byte CheckpointProvisioning = 5"
| "checkpoint_byte NetworkConnected = 6"
| "checkpoint_byte CheckpointReady = 14"

definition checkpoint_from_byte :: "u8 \<Rightarrow> SetupCheckpoint option" where
  "checkpoint_from_byte v =
     (if v = 1 then Some BootStarted else if v = 2 then Some SplashRendered
      else if v = 3 then Some SetupRendered else if v = 5 then Some CheckpointProvisioning
      else if v = 6 then Some NetworkConnected else if v = 14 then Some CheckpointReady else None)"

fun encode_app_phase :: "AppPhase \<Rightarrow> u8" where
  "encode_app_phase Splash = 1"
| "encode_app_phase Setup = 2"
| "encode_app_phase AppReady = 3"

definition decode_app_phase :: "u8 \<Rightarrow> AppPhase option" where
  "decode_app_phase v =
     (if v = 1 then Some Splash else if v = 2 then Some Setup else if v = 3 then Some AppReady else None)"

fun encode_network_phase :: "NetworkPhase \<Rightarrow> u8" where
  "encode_network_phase Unprovisioned = 1"
| "encode_network_phase Provisioning = 2"
| "encode_network_phase NetConnected = 4"

definition decode_network_phase :: "u8 \<Rightarrow> NetworkPhase option" where
  "decode_network_phase v =
     (if v = 1 then Some Unprovisioned else if v = 2 then Some Provisioning
      else if v = 4 then Some NetConnected else None)"

interpretation checkpoint: byte_codec checkpoint_byte checkpoint_from_byte
proof unfold_locales
  show "checkpoint_from_byte (checkpoint_byte a) = Some a" for a
    by (cases a) (simp_all add: checkpoint_from_byte_def)
qed (auto simp: checkpoint_from_byte_def split: if_splits)

interpretation app_phase: byte_codec encode_app_phase decode_app_phase
proof unfold_locales
  show "decode_app_phase (encode_app_phase a) = Some a" for a
    by (cases a) (simp_all add: decode_app_phase_def)
qed (auto simp: decode_app_phase_def split: if_splits)

interpretation network_phase: byte_codec encode_network_phase decode_network_phase
proof unfold_locales
  show "decode_network_phase (encode_network_phase a) = Some a" for a
    by (cases a) (simp_all add: decode_network_phase_def)
qed (auto simp: decode_network_phase_def split: if_splits)

section \<open>The record\<close>

definition STATE_MAGIC :: "u8 list" where
  "STATE_MAGIC = as_bytes ''FSTS''"

definition STATE_VERSION :: u8 where "STATE_VERSION = 2"
definition STATE_RECORD_LEN :: nat where "STATE_RECORD_LEN = 9"
definition FLAG_NETWORK_CREDENTIAL_PRESENT :: u8 where
  "FLAG_NETWORK_CREDENTIAL_PRESENT = push_bit 0 1"
definition FLAG_DEVICE_IDENTITY_PRESENT :: u8 where
  "FLAG_DEVICE_IDENTITY_PRESENT = push_bit 1 1"

record PersistedSetupState =
  checkpoint :: SetupCheckpoint
  saved_app_phase :: AppPhase
  saved_network_phase :: NetworkPhase
  flags :: u8

definition nonempty :: "string option \<Rightarrow> bool" where
  "nonempty v = (case v of None \<Rightarrow> False | Some s \<Rightarrow> s \<noteq> [])"

definition from_app_state :: "SetupCheckpoint \<Rightarrow> AppState \<Rightarrow> PersistedSetupState" where
  "from_app_state c st =
     (let f0 = (0 :: u8);
          f1 = (if nonempty (provisioning_ssid st) then f0 OR FLAG_NETWORK_CREDENTIAL_PRESENT else f0);
          f2 = (if nonempty (device_id st) then f1 OR FLAG_DEVICE_IDENTITY_PRESENT else f1)
      in \<lparr>checkpoint = c, saved_app_phase = phase st, saved_network_phase = network_phase st, flags = f2\<rparr>)"

definition flags_summary :: "PersistedSetupState \<Rightarrow> string" where
  "flags_summary s =
     (let net = flags s AND FLAG_NETWORK_CREDENTIAL_PRESENT \<noteq> 0;
          dev = flags s AND FLAG_DEVICE_IDENTITY_PRESENT \<noteq> 0
      in if net \<and> dev then ''network-credential'' @ '','' @ ''device-identity''
         else if net then ''network-credential''
         else if dev then ''device-identity''
         else ''none'')"

definition encode_state :: "PersistedSetupState \<Rightarrow> u8 list" where
  "encode_state s =
     [STATE_MAGIC ! 0, STATE_MAGIC ! 1, STATE_MAGIC ! 2, STATE_MAGIC ! 3, STATE_VERSION,
      checkpoint_byte (checkpoint s), encode_app_phase (saved_app_phase s),
      encode_network_phase (saved_network_phase s), flags s]"

definition ok_or :: "'a option \<Rightarrow> error \<Rightarrow> 'a result" where
  "ok_or v e = (case v of None \<Rightarrow> Inl e | Some a \<Rightarrow> Inr a)"

definition show_byte :: "u8 \<Rightarrow> string" where
  "show_byte b = show_nat (unat b)"

definition decode_state :: "u8 list \<Rightarrow> PersistedSetupState result" where
  "decode_state bytes =
     (if length bytes \<noteq> STATE_RECORD_LEN then
        Inl (Msg (''unexpected setup state length: '' @ show_nat (length bytes)))
      else if take 4 bytes \<noteq> STATE_MAGIC then Inl (Msg ''unexpected setup state magic'')
      else if bytes ! 4 \<noteq> STATE_VERSION then
        Inl (Msg (''unsupported setup state version: '' @ show_byte (bytes ! 4)))
      else
        and_then (ok_or (checkpoint_from_byte (bytes ! 5))
                   (Msg (''invalid setup checkpoint byte: '' @ show_byte (bytes ! 5)))) (\<lambda>c.
        and_then (ok_or (decode_app_phase (bytes ! 6))
                   (Msg (''invalid app phase byte: '' @ show_byte (bytes ! 6)))) (\<lambda>a.
        and_then (ok_or (decode_network_phase (bytes ! 7))
                   (Msg (''invalid network phase byte: '' @ show_byte (bytes ! 7)))) (\<lambda>n.
          Inr \<lparr>checkpoint = c, saved_app_phase = a, saved_network_phase = n, flags = bytes ! 8\<rparr>))))"

section \<open>The store\<close>

text \<open>The blob under the one key, if any; \<open>got\<close> and \<open>wrote\<close> are what the storage answers.\<close>

definition load :: "unit result \<Rightarrow> u8 list option \<Rightarrow> PersistedSetupState option result" where
  "load got blob =
     and_then (with_context ''failed to load setup checkpoint blob'' got) (\<lambda>_.
       case blob of
         None \<Rightarrow> Inr None
       | Some raw \<Rightarrow> and_then (decode_state raw) (\<lambda>s. Inr (Some s)))"

definition save_checkpoint ::
  "unit result \<Rightarrow> SetupCheckpoint \<Rightarrow> AppState \<Rightarrow> u8 list option
   \<Rightarrow> PersistedSetupState result \<times> u8 list option" where
  "save_checkpoint wrote c st blob =
     (let snapshot = from_app_state c st in
      case with_context ''failed to persist setup checkpoint blob'' wrote of
        Inl e \<Rightarrow> (Inl e, blob)
      | Inr _ \<Rightarrow> (Inr snapshot, Some (encode_state snapshot)))"

definition open_store :: "unit result \<Rightarrow> unit result" where
  "open_store opened = with_context ''failed to open setup state namespace'' opened"

section \<open>Round trip\<close>

lemma STATE_MAGIC_bytes: "STATE_MAGIC = [0x46, 0x53, 0x54, 0x53]"
  unfolding STATE_MAGIC_def by code_simp

lemma ok_or_Inr [simp]: "ok_or v e = Inr a \<longleftrightarrow> v = Some a"
  by (simp add: ok_or_def split: option.split)

lemma nine_bytes: "length bytes = 9 \<longleftrightarrow>
    (\<exists>a b c d e f g h i. bytes = [a, b, c, d, e, f, g, h, i])"
  by (auto simp: numeral_eq_Suc length_Suc_conv)

text \<open>
  C30: the checkpoint record is read back exactly: a byte string decodes to a state if and only if it is
  that state's encoding, for every checkpoint, phases and flags. So any other record -- of another
  length, version or magic, or with an unknown byte in any field -- is refused.
\<close>

theorem setup_state_roundtrip:
  "decode_state bytes = Inr s \<longleftrightarrow> bytes = encode_state s"
proof -
  have len: "length (encode_state s) = 9" by (simp add: encode_state_def)
  show ?thesis
  proof (cases "length bytes = 9")
    case False
    with len have "bytes \<noteq> encode_state s" by auto
    with False show ?thesis by (simp add: decode_state_def STATE_RECORD_LEN_def)
  next
    case True
    then obtain a b c d e f g h i where bytes: "bytes = [a, b, c, d, e, f, g, h, i]"
      unfolding nine_bytes by blast
    show ?thesis
      unfolding bytes
      by (cases s) (auto simp: decode_state_def encode_state_def STATE_RECORD_LEN_def STATE_MAGIC_bytes
          and_then_Inr checkpoint.dec_iff app_phase.dec_iff network_phase.dec_iff)
  qed
qed

text \<open>What was saved is what the next boot loads.\<close>

lemma load_after_save:
  "fst (save_checkpoint (Inr ()) c st blob) = Inr snapshot \<Longrightarrow>
   load (Inr ()) (snd (save_checkpoint (Inr ()) c st blob)) = Inr (Some snapshot)"
proof -
  have "decode_state (encode_state s) = Inr s" for s
    by (cases s) (simp add: decode_state_def encode_state_def STATE_RECORD_LEN_def STATE_MAGIC_bytes
        checkpoint.dec_enc app_phase.dec_enc network_phase.dec_enc ok_or_def)
  then show "fst (save_checkpoint (Inr ()) c st blob) = Inr snapshot \<Longrightarrow>
      load (Inr ()) (snd (save_checkpoint (Inr ()) c st blob)) = Inr (Some snapshot)"
    by (auto simp: save_checkpoint_def load_def Let_def)
qed

lemma flags_of_state:
  "flags (from_app_state c st) AND FLAG_NETWORK_CREDENTIAL_PRESENT \<noteq> 0 \<longleftrightarrow> nonempty (provisioning_ssid st)"
  "flags (from_app_state c st) AND FLAG_DEVICE_IDENTITY_PRESENT \<noteq> 0 \<longleftrightarrow> nonempty (device_id st)"
  by (simp_all add: from_app_state_def Let_def FLAG_NETWORK_CREDENTIAL_PRESENT_def FLAG_DEVICE_IDENTITY_PRESENT_def)

lemma connected_has_no_credential_flag:
  "flags (from_app_state c (set_network_phase NetConnected st)) AND FLAG_NETWORK_CREDENTIAL_PRESENT = 0"
  using flags_of_state(1) [of c "set_network_phase NetConnected st"]
  by (simp add: set_network_phase_def clear_provisioning_details_def nonempty_def)

end
