(* ===== verification/Firmware_Boot.thy ===== *)
theory Firmware_Boot
  imports Provisioning Setup_Store Ui_Sync
begin

text \<open>
  The first half of \<open>run()\<close> in \<open>frame-firmware/src/main.rs\<close>: the device identity, start-up to the setup
  screen, and the boot loop that ticks the provisioning manager until the network is up. The other
  threads start later, so the photo store and the controller state are fixed here.

  The boot loop is written over any provisioning manager, as the trait object of the code is; the
  theorems instantiate it with the manager of the frame.
\<close>

section \<open>The process\<close>

text \<open>
  \<open>main\<close> joins the thread of \<open>run\<close>: its result, or \<open>None\<close> when it panicked. After an error it prints
  the message and sleeps for ever, without restarting the frame.
\<close>

datatype process_end = Exited | Asleep string

definition firmware_main :: "unit result option \<Rightarrow> process_end" where
  "firmware_main joined =
     (let run_result = (case joined of Some r \<Rightarrow> r | None \<Rightarrow> Inl (Msg ''frame-app thread panicked''))
      in case run_result of
           Inr _ \<Rightarrow> Exited
         | Inl e \<Rightarrow> Asleep (''fatal firmware startup error: '' @ fmt_error_alt e))"

section \<open>Identity\<close>

definition hex_byte :: "bool \<Rightarrow> u8 \<Rightarrow> string" where
  "hex_byte upper b = show_hex upper 2 (unat b)"

definition device_identity :: "int \<Rightarrow> int \<Rightarrow> u8 list \<Rightarrow> (string \<times> string) result" where
  "device_identity esp_ok result mac =
     (if result \<noteq> esp_ok then
        Inl (Msg (''failed to read base MAC address for device identity: ''
                  @ (if result < 0 then ''-'' else []) @ show_nat (nat \<bar>result\<bar>)))
      else
        (let device_id = ''esp32p4-'' @ hex_byte False (mac ! 0) @ hex_byte False (mac ! 1) @ hex_byte False (mac ! 2)
               @ hex_byte False (mac ! 3) @ hex_byte False (mac ! 4) @ hex_byte False (mac ! 5);
             device_name = ''Photo Frame '' @ hex_byte True (mac ! 4) @ hex_byte True (mac ! 5)
         in Inr (device_id, device_name)))"

text \<open>
  The Bluetooth name: the last four characters of the part after the last dash, in upper case. Device
  identities are ASCII, where \<open>to_uppercase\<close> is the ASCII mapping and every index is a boundary.
\<close>

definition advert_name :: "string option \<Rightarrow> string" where
  "advert_name ident =
     (case ident of
        None \<Rightarrow> ''PhotoFrame''
      | Some i \<Rightarrow>
          (let suffix = rev (takeWhile (\<lambda>c. c \<noteq> CHR ''-'') (rev i));
               tail = (if 4 \<le> length suffix then drop (length suffix - 4) suffix else suffix)
           in ''PhotoFrame-'' @ map ascii_upper tail))"

section \<open>Start-up\<close>

record 's boot =
  app :: AppState
  ui :: FrameUi
  prov :: 's
  blob :: "u8 list option"

definition persist_setup_checkpoint ::
  "unit result \<Rightarrow> SetupCheckpoint \<Rightarrow> AppState \<Rightarrow> u8 list option \<Rightarrow> u8 list option" where
  "persist_setup_checkpoint wrote c st b = snd (save_checkpoint wrote c st b)"

text \<open>
  What start-up meets: the outcome of each call that may end it, the drawings and the writes. The setup
  state loaded from flash is only logged, so its read is left out.
\<close>

record startup_env =
  tracing_ready :: "unit result"
  peripherals_taken :: "unit result"
  event_loop_taken :: "unit result"
  wifi_created :: "radio result"
  identity :: "(string \<times> string) result"
  nvs_taken :: "unit result"
  namespace_opened :: "unit result"
  panel_made :: panel_io
  splash_drawn :: "unit result"
  setup_drawn :: "unit result"
  boot_wrote :: "unit result"
  splash_wrote :: "unit result"
  setup_wrote :: "unit result"

definition start_up ::
  "font \<Rightarrow> startup_env \<Rightarrow> (wifi_static \<Rightarrow> 's) \<Rightarrow> store mutex \<Rightarrow> ControllerState mutex \<Rightarrow> u8 list option \<Rightarrow> 's boot result" where
  "start_up font env create_manager photos ctl b0 =
     and_then (tracing_ready env) (\<lambda>_. and_then (peripherals_taken env) (\<lambda>_.
     and_then (event_loop_taken env) (\<lambda>_.
     (case init_wifi_manager (wifi_created env) None of (wifi_ready, wifi) \<Rightarrow>
     and_then wifi_ready (\<lambda>_.
     and_then (identity env) (\<lambda>(i, n).
     let st = set_device_identity i n app_state_new in
     and_then (with_context ''failed to open default NVS partition'' (nvs_taken env)) (\<lambda>_.
     and_then (open_store (namespace_opened env)) (\<lambda>_.
     and_then (create_ui_on (panel_made env)) (\<lambda>ui0.
     let b1 = persist_setup_checkpoint (boot_wrote env) BootStarted st b0 in
     case sync font (splash_drawn env) st photos ctl ui0 of
       (Inl e, _) \<Rightarrow> Inl e
     | (Inr _, ui1) \<Rightarrow>
         (let b2 = persist_setup_checkpoint (splash_wrote env) SplashRendered st b1;
              st2 = begin_setup st
          in case sync font (setup_drawn env) st2 photos ctl ui1 of
               (Inl e, _) \<Rightarrow> Inl e
             | (Inr _, ui2) \<Rightarrow>
                 Inr \<lparr>app = st2, ui = ui2, prov = create_manager wifi,
                      blob = persist_setup_checkpoint (setup_wrote env) SetupRendered st2 b2\<rparr>))))))))))"

section \<open>The boot loop\<close>

record 'e boot_env =
  tick_env :: 'e
  phase_drawn :: "unit result"
  details_drawn :: "unit result"
  phase_wrote :: "unit result"

definition network_checkpoint :: "NetworkPhase \<Rightarrow> SetupCheckpoint" where
  "network_checkpoint p =
     (case p of
        Provisioning \<Rightarrow> CheckpointProvisioning
      | NetConnected \<Rightarrow> NetworkConnected
      | Unprovisioned \<Rightarrow> SetupRendered)"

text \<open>One turn: an error ends \<open>run()\<close>, \<open>True\<close> leaves the loop, \<open>False\<close> goes round again.\<close>

definition boot_step ::
  "('e \<Rightarrow> 's \<Rightarrow> NetworkPhase result \<times> 's) \<Rightarrow> ('s \<Rightarrow> (string \<times> string) option) \<Rightarrow> font
   \<Rightarrow> store mutex \<Rightarrow> ControllerState mutex \<Rightarrow> 'e boot_env \<Rightarrow> 's boot \<Rightarrow> bool result \<times> 's boot" where
  "boot_step tick details font photos ctl env b =
     (case tick (tick_env env) (prov b) of
        (Inl e, s) \<Rightarrow> (Inl e, b\<lparr>prov := s\<rparr>)
      | (Inr p, s) \<Rightarrow>
          (let st = set_network_phase p (app b) in
           case sync font (phase_drawn env) st photos ctl (ui b) of
             (Inl e, ui1) \<Rightarrow> (Inl e, b\<lparr>prov := s, app := st, ui := ui1\<rparr>)
           | (Inr _, ui1) \<Rightarrow>
               (let b1 = b\<lparr>prov := s, app := st, ui := ui1,
                          blob := persist_setup_checkpoint (phase_wrote env)
                                    (network_checkpoint (network_phase st)) st (blob b)\<rparr>
                in if network_phase st = Provisioning then
                     (let st1 = (case details s of
                                   Some (ssid, password) \<Rightarrow> set_provisioning_details ssid password st
                                 | None \<Rightarrow> st)
                      in case sync font (details_drawn env) st1 photos ctl (ui b1) of
                           (Inl e, ui2) \<Rightarrow> (Inl e, b1\<lparr>app := st1, ui := ui2\<rparr>)
                         | (Inr _, ui2) \<Rightarrow> (Inr False, b1\<lparr>app := st1, ui := ui2\<rparr>))
                   else (Inr (network_phase st = NetConnected), b1))))"

text \<open>The loop over the turns to come; \<open>Inr False\<close> is a loop still going when they run out.\<close>

fun boot_loop ::
  "('e \<Rightarrow> 's \<Rightarrow> NetworkPhase result \<times> 's) \<Rightarrow> ('s \<Rightarrow> (string \<times> string) option) \<Rightarrow> font
   \<Rightarrow> store mutex \<Rightarrow> ControllerState mutex \<Rightarrow> 'e boot_env list \<Rightarrow> 's boot \<Rightarrow> bool result \<times> 's boot" where
  "boot_loop tick details font photos ctl [] b = (Inr False, b)"
| "boot_loop tick details font photos ctl (env # envs) b =
     (case boot_step tick details font photos ctl env b of
        (Inl e, b') \<Rightarrow> (Inl e, b')
      | (Inr True, b') \<Rightarrow> (Inr True, b')
      | (Inr False, b') \<Rightarrow> boot_loop tick details font photos ctl envs b')"

section \<open>Names are the frame's own\<close>

lemma hex_char_facts:
  assumes "d < 16"
  shows "to_digit16 (hex_char u d) = Some d" "ascii_upper (hex_char False d) = hex_char True d"
  using assms by (auto simp: hex_char_def to_digit16_def ascii_upper_def in_range_def is_ascii_digit_def
      is_ascii_lower_def)

lemma hex_char_no_dash: "d < 16 \<Longrightarrow> hex_char u d \<noteq> CHR ''-''"
proof
  assume "d < 16" "hex_char u d = CHR ''-''"
  moreover have "to_digit16 CHR ''-'' = None" by code_simp
  ultimately show False using hex_char_facts(1) [of d u] by simp
qed

lemma show_hex_chars: "CHR ''-'' \<notin> set (show_hex u k n)" "length (show_hex u k n) = k"
  "map ascii_upper (show_hex False k n) = show_hex True k n"
  by (induction k arbitrary: n) (simp_all add: hex_char_facts(2) hex_char_no_dash [symmetric])

lemma show_hex_inject:
  "n < 16 ^ k \<Longrightarrow> m < 16 ^ k \<Longrightarrow> show_hex u k n = show_hex u k m \<longleftrightarrow> n = m"
proof (induction k arbitrary: n m)
  case (Suc k)
  have "hex_char u a = hex_char u b \<longleftrightarrow> a = b" if "a < 16" "b < 16" for a b
    using that hex_char_facts(1) [of a u] hex_char_facts(1) [of b u] by (metis option.inject)
  moreover have "n div 16 < 16 ^ k" "m div 16 < 16 ^ k" using Suc.prems by (simp_all add: less_mult_imp_div_less)
  ultimately show ?case
    using Suc.IH [of "n div 16" "m div 16"] by simp (metis div_mult_mod_eq)
qed simp

lemma hex_byte_inject: "hex_byte u a = hex_byte u b \<longleftrightarrow> a = b"
proof -
  have lt: "unat w < 16 ^ 2" for w :: u8 by (rule order_less_le_trans [OF unsigned_less]) simp
  show ?thesis by (auto simp: hex_byte_def show_hex_inject [OF lt lt] intro: unsigned_word_eqI)
qed

lemma hex_byte_chars [simp]: "length (hex_byte u b) = 2" "CHR ''-'' \<notin> set (hex_byte u b)"
  "map ascii_upper (hex_byte False b) = hex_byte True b"
  by (simp_all add: hex_byte_def show_hex_chars)

lemma suffix_after_dash:
  "CHR ''-'' \<notin> set t \<Longrightarrow> rev (takeWhile (\<lambda>c. c \<noteq> CHR ''-'') (rev (p @ CHR ''-'' # t))) = t"
  by (simp add: takeWhile_append)

lemma six_bytes: "length mac = 6 \<longleftrightarrow> (\<exists>a b c d e f. mac = [a, b, c, d, e, f])"
  by (auto simp: numeral_eq_Suc length_Suc_conv)

text \<open>
  A frame is known by its hardware address, and by the same four digits everywhere: two frames with
  different addresses have different device ids, and the Bluetooth name ends in the very digits the
  frame's display name ends in, so the owner can tell which frame is which.
\<close>

theorem frame_names_identify_the_frame:
  assumes "length mac = 6" and "device_identity esp_ok esp_ok mac = Inr (i, n)"
  shows "(length mac' = 6 \<and> device_identity esp_ok esp_ok mac' = Inr (i, n') \<longrightarrow> mac' = mac) \<and>
    (\<exists>digits. length digits = 4 \<and> n = ''Photo Frame '' @ digits \<and> advert_name (Some i) = ''PhotoFrame-'' @ digits)"
proof -
  obtain a b c d e f where mac: "mac = [a, b, c, d, e, f]" using assms(1) unfolding six_bytes by blast
  let ?h = "hex_byte False a @ hex_byte False b @ hex_byte False c @ hex_byte False d @ hex_byte False e @ hex_byte False f"
  have i: "i = ''esp32p4'' @ CHR ''-'' # ?h" and n: "n = ''Photo Frame '' @ hex_byte True e @ hex_byte True f"
    using assms(2) by (simp_all add: device_identity_def mac)
  have "mac' = mac" if len: "length mac' = 6" and same: "device_identity esp_ok esp_ok mac' = Inr (i, n')"
  proof -
    obtain a' b' c' d' e' f' where mac': "mac' = [a', b', c', d', e', f']" using len by (auto simp: six_bytes)
    from same show ?thesis
      by (simp add: i mac mac' device_identity_def append_eq_append_conv hex_byte_inject)
  qed
  moreover have "advert_name (Some i) = ''PhotoFrame-'' @ hex_byte True e @ hex_byte True f"
  proof -
    have "rev (takeWhile (\<lambda>c. c \<noteq> CHR ''-'') (rev i)) = ?h"
      unfolding i by (rule suffix_after_dash) simp
    then show ?thesis by (simp add: advert_name_def Let_def)
  qed
  ultimately show ?thesis using n by auto
qed

definition sample_mac :: "u8 list" where
  "sample_mac = [0x60, 0x55, 0xF9, 0, 0x0A, 0xFF]"

theorem frame_names_identify_the_frame_witness:
  "\<exists>i n digits. device_identity 0 0 sample_mac = Inr (i, n) \<and> device_identity 0 0 (rev sample_mac) \<noteq> Inr (i, n) \<and>
     length digits = 4 \<and> n = ''Photo Frame '' @ digits \<and> advert_name (Some i) = ''PhotoFrame-'' @ digits"
proof -
  have six: "length sample_mac = 6" "length (rev sample_mac) = 6" "rev sample_mac \<noteq> sample_mac"
    by (simp_all add: sample_mac_def)
  obtain i n where own: "device_identity 0 0 sample_mac = Inr (i, n)" by (auto simp: device_identity_def Let_def)
  from frame_names_identify_the_frame [OF six(1) own, of "rev sample_mac" n] six own show ?thesis by blast
qed

section \<open>The setup screen\<close>

lemma boot_step_Inr:
  assumes "boot_step tick details font photos ctl env b = (Inr done', b')"
  obtains p where "fst (tick (tick_env env) (prov b)) = Inr p"
    and "prov b' = snd (tick (tick_env env) (prov b))"
    and "network_phase (app b') = p" and "done' \<longleftrightarrow> p = NetConnected"
  using assms
  by (auto simp: boot_step_def set_network_phase_def clear_provisioning_details_def set_provisioning_details_def
      Let_def split: prod.splits sum.splits option.splits if_splits)

text \<open>
  A turn that goes round again is a turn of provisioning, and unless a photo or a connected controller claims
  the panel it leaves the setup screen with the name the manager holds.
\<close>

lemma setup_turn:
  assumes "boot_step ensure_network get_provisioning_ap_details font (Unpoisoned s) (Unpoisoned c) env b = (Inr False, b')"
    and "front s = None" and "ctl_phase c \<noteq> CtlConnected"
  shows "ensure_network (tick_env env) (prov b) = (Inr Provisioning, prov b') \<and>
    (\<exists>ssid password. get_provisioning_ap_details (prov b') = Some (ssid, password) \<and>
      showing (ui b') = WifiSetup ssid \<and> network_phase (app b') = Provisioning \<and>
      provisioning_ssid (app b') = Some ssid \<and> provisioning_password (app b') = Some password)"
proof -
  obtain p m where tick: "ensure_network (tick_env env) (prov b) = (Inr p, m)"
    using assms(1) by (auto simp: boot_step_def split: prod.splits sum.splits)
  have "p \<noteq> NetConnected"
    using assms(1) tick by (auto elim!: boot_step_Inr)
  moreover have "p \<noteq> Unprovisioned"
    using esp.never_unprovisioned [of "tick_env env" "prov b"] tick by simp
  ultimately have p: "p = Provisioning" by (cases p) simp_all
  then obtain ssid password where det: "get_provisioning_ap_details m = Some (ssid, password)"
    using esp.provisioning_details [of "tick_env env" "prov b"] tick by auto
  let ?st = "set_provisioning_details ssid password (set_network_phase Provisioning (app b))"
  have phase: "network_phase ?st = Provisioning" "provisioning_ssid ?st = Some ssid" "provisioning_password ?st = Some password"
    by (simp_all add: set_provisioning_details_def set_network_phase_def)
  obtain drawn ui1 where b': "prov b' = m" "app b' = ?st" "sync font drawn ?st (Unpoisoned s) (Unpoisoned c) ui1 = (Inr (), ui b')"
    using assms(1) tick p det
    by (auto simp: boot_step_def Let_def set_network_phase_def set_provisioning_details_def split: prod.splits sum.splits)
  from sync_front_None [OF assms(2) b'(3)] have "showing (ui b') = WifiSetup ssid"
    using phase assms(3) by (auto simp: wanted_screen_def unwrap_or_def split: ControllerPhase.splits)
  with det phase b'(1,2) tick p show ?thesis by auto
qed

lemma boot_loop_still_going:
  "boot_loop tick details font photos ctl (env # envs) b = (Inr False, b') \<longleftrightarrow>
   (\<exists>b1. boot_step tick details font photos ctl env b = (Inr False, b1) \<and>
      boot_loop tick details font photos ctl envs b1 = (Inr False, b'))"
  by (auto split: prod.splits sum.splits bool.splits)

lemma boot_loop_last_setup:
  "boot_loop tick details font photos ctl envs b = (Inr False, b') \<Longrightarrow> envs \<noteq> [] \<Longrightarrow>
   \<exists>env \<in> set envs. \<exists>b0. boot_step tick details font photos ctl env b0 = (Inr False, b')"
proof (induction envs arbitrary: b)
  case (Cons env envs)
  then show ?case unfolding boot_loop_still_going by (cases "envs = []") fastforce+
qed simp

lemma boot_loop_serves:
  assumes "\<forall>env \<in> set envs. truthful (ap_driver (tick_env env))"
    and "boot_loop ensure_network get_provisioning_ap_details font (Unpoisoned s) (Unpoisoned c) envs b = (Inr False, b')"
    and "front s = None" and "ctl_phase c \<noteq> CtlConnected"
    and "prov_state (prov b) = ProvNotStarted \<and> envs \<noteq> [] \<or> names_its_network (prov b) \<or>
      failed \<and> serves_its_network (prov b)"
  shows "names_its_network (prov b') \<or>
    (failed \<or> (\<exists>i < length envs. join_fails (tick_env (envs ! i))
       (prov (snd (boot_loop ensure_network get_provisioning_ap_details font (Unpoisoned s) (Unpoisoned c) (take i envs) b))))) \<and>
    serves_its_network (prov b')"
  using assms(1,2,5)
proof (induction envs arbitrary: b failed)
  case (Cons env envs)
  let ?loop = "boot_loop ensure_network get_provisioning_ap_details font (Unpoisoned s) (Unpoisoned c)"
  obtain b1 where step: "boot_step ensure_network get_provisioning_ap_details font (Unpoisoned s) (Unpoisoned c) env b = (Inr False, b1)"
    and rest: "?loop envs b1 = (Inr False, b')"
    using Cons.prems(2) unfolding boot_loop_still_going by blast
  have tick: "ensure_network (tick_env env) (prov b) = (Inr Provisioning, prov b1)"
    using setup_turn [OF step assms(3,4)] by blast
  let ?now = "join_fails (tick_env env) (prov b)"
  have "names_its_network (prov b1) \<or> (failed \<or> ?now) \<and> serves_its_network (prov b1)"
    using tick_serves [OF _ tick] Cons.prems(1,3)
    by (auto simp: names_its_network_def serves_its_network_def)
  with Cons.IH [of b1 "failed \<or> ?now"] Cons.prems(1) rest
  have "names_its_network (prov b') \<or>
      ((failed \<or> ?now) \<or> (\<exists>i < length envs. join_fails (tick_env (envs ! i)) (prov (snd (?loop (take i envs) b1))))) \<and>
      serves_its_network (prov b')" by auto
  moreover have "?loop (take (Suc i) (env # envs)) b = ?loop (take i envs) b1" for i using step by simp
  moreover have "?loop (take 0 (env # envs)) b = (Inr False, b)" by simp
  ultimately show ?case by (metis Suc_less_eq length_Cons nth_Cons_0 nth_Cons_Suc snd_conv zero_less_Suc)
qed auto

text \<open>
  C21: while setup goes on, the setup screen names the access point that is on the air. From a fresh manager,
  with a driver that reports its configuration truthfully, after any number of turns of the boot loop that
  have not ended it: provisioning is under way, the radio is on and serving an access point, and unless a photo
  or a connected controller claims the panel, the panel shows the setup screen with the network name the
  manager holds, which with its password is also in the application state. That name and password are the
  ones on the air -- except after a failed join, when the access point may have come back as the open network
  of the coprocessor, while manager and panel keep the old name.
\<close>

theorem setup_screen_names_the_access_point:
  assumes "prov b = create_provisioning_manager wifi"
    and "boot_loop ensure_network get_provisioning_ap_details font (Unpoisoned s) (Unpoisoned c) envs b = (Inr False, b')"
    and "envs \<noteq> []" and "\<forall>env \<in> set envs. truthful (ap_driver (tick_env env))"
    and "front s = None" and "ctl_phase c \<noteq> CtlConnected"
  shows "\<exists>ssid password r ap. get_provisioning_ap_details (prov b') = Some (ssid, password) \<and>
    showing (ui b') = WifiSetup ssid \<and> network_phase (app b') = Provisioning \<and>
    provisioning_ssid (app b') = Some ssid \<and> provisioning_password (app b') = Some password \<and>
    WIFI_MANAGER (prov b') = Some (Unpoisoned r) \<and> active_ap r = Some ap \<and>
    (ap_ssid ap = ssid \<and> ap_password ap = password \<or>
     hosted_fallback ap \<and> (\<exists>i < length envs. join_fails (tick_env (envs ! i))
       (prov (snd (boot_loop ensure_network get_provisioning_ap_details font (Unpoisoned s) (Unpoisoned c) (take i envs) b)))))"
proof -
  obtain env b0 where "boot_step ensure_network get_provisioning_ap_details font (Unpoisoned s) (Unpoisoned c) env b0 = (Inr False, b')"
    using boot_loop_last_setup [OF assms(2,3)] by blast
  from setup_turn [OF this assms(5,6)] obtain ssid password where shown: "get_provisioning_ap_details (prov b') = Some (ssid, password)"
    "showing (ui b') = WifiSetup ssid" "network_phase (app b') = Provisioning"
    "provisioning_ssid (app b') = Some ssid" "provisioning_password (app b') = Some password" by blast
  then have "prov_state (prov b') = Started ssid password"
    by (simp add: get_provisioning_ap_details_def split: ProvisioningState.splits)
  moreover have "prov_state (prov b) = ProvNotStarted" using assms(1) by simp
  ultimately show ?thesis
    using boot_loop_serves [OF assms(4,2,5,6), of False] assms(3) shown
    by (auto simp: names_its_network_def serves_its_network_def)
qed

section \<open>Leaving the boot loop\<close>

lemma boot_loop_last:
  "boot_loop tick details font photos ctl envs b = (Inr True, b') \<Longrightarrow>
   \<exists>env \<in> set envs. \<exists>b0. boot_step tick details font photos ctl env b0 = (Inr True, b')"
  by (induction envs arbitrary: b) (auto split: prod.splits sum.splits bool.splits)

lemma boot_step_identity:
  "boot_step tick details font photos ctl env b = (r, b') \<Longrightarrow>
   device_id (app b') = device_id (app b) \<and> device_name (app b') = device_name (app b) \<and> phase (app b') = phase (app b)"
  by (auto simp: boot_step_def set_network_phase_def clear_provisioning_details_def set_provisioning_details_def
      Let_def split: prod.splits sum.splits option.splits if_splits)

lemma boot_loop_identity:
  "boot_loop tick details font photos ctl envs b = (r, b') \<Longrightarrow>
   device_id (app b') = device_id (app b) \<and> device_name (app b') = device_name (app b) \<and> phase (app b') = phase (app b)"
proof (induction envs arbitrary: b)
  case (Cons env envs)
  obtain r1 b1 where one: "boot_step tick details font photos ctl env b = (r1, b1)" by (metis prod.exhaust)
  show ?case
    using Cons.prems one boot_step_identity [OF one] Cons.IH [of b1] by (auto split: sum.splits bool.splits)
qed simp

text \<open>The checkpoint written again once the loop is left.\<close>

definition leave_boot_loop :: "unit result \<Rightarrow> 's boot \<Rightarrow> 's boot" where
  "leave_boot_loop wrote b = b\<lparr>blob := persist_setup_checkpoint wrote NetworkConnected (app b) (blob b)\<rparr>"

lemma saved_checkpoint_loads:
  "load (Inr ()) (persist_setup_checkpoint (Inr ()) c st b) = Inr (Some (from_app_state c st))"
  unfolding persist_setup_checkpoint_def
  by (rule load_after_save) (simp add: save_checkpoint_def Let_def)

text \<open>
  C20: when the boot loop is left the network is up and setup is over: the manager is connected and stays
  so in every environment, the application state says connected and no longer holds the setup network's
  name or password, the device identity is the one it booted with, and the checkpoint that the next boot
  loads is \<open>network-connected\<close> with the credential flag clear.
\<close>

theorem leaving_boot_means_connected:
  assumes "boot_loop ensure_network get_provisioning_ap_details font photos ctl envs b = (Inr True, b')"
  shows "network_phase (app b') = NetConnected \<and>
    provisioning_ssid (app b') = None \<and> provisioning_password (app b') = None \<and>
    get_provisioning_ap_details (prov b') = None \<and>
    ensure_network env' (prov b') = (Inr NetConnected, prov b') \<and>
    device_id (app b') = device_id (app b) \<and>
    (\<exists>saved. load (Inr ()) (blob (leave_boot_loop (Inr ()) b')) = Inr (Some saved) \<and>
       checkpoint saved = NetworkConnected \<and> saved_network_phase saved = NetConnected \<and>
       flags saved AND FLAG_NETWORK_CREDENTIAL_PRESENT = 0)"
proof -
  obtain env b0 where last: "boot_step ensure_network get_provisioning_ap_details font photos ctl env b0 = (Inr True, b')"
    using boot_loop_last [OF assms] by blast
  have tick: "fst (ensure_network (tick_env env) (prov b0)) = Inr NetConnected"
    "prov b' = snd (ensure_network (tick_env env) (prov b0))" and phase: "network_phase (app b') = NetConnected"
    using last by (auto elim!: boot_step_Inr)
  have app: "app b' = set_network_phase NetConnected (app b0)"
    using last tick(1) phase by (auto simp: boot_step_def Let_def split: prod.splits sum.splits if_splits)
  then have clear: "provisioning_ssid (app b') = None" "provisioning_password (app b') = None"
    by (simp_all add: set_network_phase_def clear_provisioning_details_def)
  moreover have "load (Inr ()) (blob (leave_boot_loop (Inr ()) b')) =
      Inr (Some (from_app_state NetworkConnected (app b')))"
    by (simp add: leave_boot_loop_def saved_checkpoint_loads)
  moreover have "flags (from_app_state NetworkConnected (app b')) AND FLAG_NETWORK_CREDENTIAL_PRESENT = 0"
    unfolding app by (rule connected_has_no_credential_flag)
  moreover have "checkpoint (from_app_state NetworkConnected (app b')) = NetworkConnected"
    "saved_network_phase (from_app_state NetworkConnected (app b')) = NetConnected"
    using phase by (simp_all add: from_app_state_def Let_def)
  moreover have "get_provisioning_ap_details (prov b') = None"
    "ensure_network env' (prov b') = (Inr NetConnected, prov b')"
    using tick esp.connected_details esp.connected_final by simp_all
  moreover have "device_id (app b') = device_id (app b)" using boot_loop_identity [OF assms] by simp
  ultimately show ?thesis using phase by blast
qed

section \<open>From the phone to the network\<close>

lemma draw_screen_succeeds: "fst (draw_screen font (Inr ()) w p) = Inr ()"
  by (simp add: draw_screen_def screen_defs flush_def blit_def split: Showing.split)

lemma sync_screen_ok:
  assumes "front s = None"
  shows "fst (sync font (Inr ()) st (Unpoisoned s) (Unpoisoned c) u0) = Inr ()"
proof -
  have "fst (show_as w u0 out) = Inr ()" if "fst out = Inr ()" for w out
    using that by (cases out) (simp add: show_as_def)
  then show ?thesis using assms draw_screen_succeeds by (simp add: sync_def Let_def)
qed


section \<open>Sample runs\<close>

definition booted :: "'s \<Rightarrow> 's boot" where
  "booted m = \<lparr>app = begin_setup (set_device_identity ''esp32p4-1'' ''Photo Frame 1'' app_state_new),
     ui = create_ui, prov = m, blob = None\<rparr>"

definition good_turn :: "'e \<Rightarrow> 'e boot_env" where
  "good_turn e = \<lparr>tick_env = e, phase_drawn = Inr (), details_drawn = Inr (), phase_wrote = Inr ()\<rparr>"


lemma sample_facts [simp]: "prov (booted m) = m" "tick_env (good_turn e) = e"
  "phase_drawn (good_turn e) = Inr ()" "details_drawn (good_turn e) = Inr ()" "front store_init = None"
  "ctl_phase controller_state_default \<noteq> CtlConnected"
  by (simp_all add: booted_def good_turn_def store_init_def front_def controller_state_default_def)

lemma good_sync:
  obtains u1 where "sync font (Inr ()) st (Unpoisoned store_init) (Unpoisoned c) u0 = (Inr (), u1)"
  using sync_screen_ok [of store_init font st c u0] by (metis prod.collapse sample_facts(5))

lemma good_setup_turn:
  assumes "ensure_network e (prov b) = (Inr Provisioning, m)"
  obtains b' where "boot_step ensure_network get_provisioning_ap_details font (Unpoisoned store_init)
     (Unpoisoned controller_state_default) (good_turn e) b = (Inr False, b')" "prov b' = m"
proof -
  let ?st = "set_network_phase Provisioning (app b)"
  obtain u1 where one: "sync font (Inr ()) ?st (Unpoisoned store_init) (Unpoisoned controller_state_default) (ui b) = (Inr (), u1)"
    by (rule good_sync)
  obtain ssid password where det: "get_provisioning_ap_details m = Some (ssid, password)"
    using esp.provisioning_details [of e "prov b"] assms by auto
  obtain u2 where two: "sync font (Inr ()) (set_provisioning_details ssid password ?st) (Unpoisoned store_init)
      (Unpoisoned controller_state_default) u1 = (Inr (), u2)" by (rule good_sync)
  have "network_phase ?st = Provisioning" by (simp add: set_network_phase_def)
  with one two det assms have "\<exists>b'. boot_step ensure_network get_provisioning_ap_details font (Unpoisoned store_init)
     (Unpoisoned controller_state_default) (good_turn e) b = (Inr False, b')"
    by (simp add: boot_step_def Let_def)
  then obtain b' where step: "boot_step ensure_network get_provisioning_ap_details font (Unpoisoned store_init)
     (Unpoisoned controller_state_default) (good_turn e) b = (Inr False, b')" ..
  then have "prov b' = m" using setup_turn [OF step] assms by simp
  with step show ?thesis by (rule that)
qed

text \<open>
  The first turn sets up a network of the frame's own, in the second the station gets no address and the
  coprocessor brings back its open network: the screen goes on naming the frame's own.
\<close>

definition own_ap :: AccessPointConfiguration where
  "own_ap = \<lparr>ap_ssid = ''Frame-1A2B'', ap_password = [], ap_auth = AuthNone\<rparr>"

definition obedient_driver :: wifi_driver where
  "obedient_driver = sample_driver\<lparr>set_config_again := (\<lambda>_ c r. (Inr (), r\<lparr>configuration := c\<rparr>))\<rparr>"

definition setup_env :: prov_env where
  "setup_env = home_env\<lparr>baked := (\<lambda>_. None), ap_driver := obedient_driver\<rparr>"

lemma setup_tick:
  obtains m where "ensure_network setup_env new_manager = (Inr Provisioning, m)" "prov_state m = Started ''Frame-1A2B'' []"
    "WIFI_MANAGER m = Some (Unpoisoned \<lparr>configuration = AccessPoint own_ap, radio_on = True\<rparr>)"
    "portal_state (captive_portal m) \<noteq> Poisoned"
proof -
  have name: "generate_ap_ssid setup_env = ''Frame-1A2B''" by code_simp
  have creds: "configured_station_credentials setup_env = None"
    by (simp add: configured_station_credentials_def embedded_or_runtime_env_def setup_env_def home_env_def nonblank_def)
  have ap: "start_ap obedient_driver ''Frame-1A2B'' [] (Some (Unpoisoned idle_radio)) =
      (Inr (), Some (Unpoisoned \<lparr>configuration = AccessPoint own_ap, radio_on = True\<rparr>))"
    by (simp add: start_ap_def with_wifi_manager_def upt_rec obedient_driver_def sample_driver_def ap_config_from_def
        ap_credentials_from_config_def auth_open_of_def own_ap_def ap_matches_def idle_radio_def Let_def)
  have env: "ap_driver setup_env = obedient_driver" "portal_setup setup_env = Inr ()"
    by (simp_all add: setup_env_def home_env_def)
  show ?thesis
    using that creds ap name
    by (simp add: ensure_network_def new_manager_def start_setup_def env generate_ap_password_def set_scan_handler_def
        on_portal_def start_portal_def current_ap_credentials_def with_wifi_manager_def obedient_driver_def sample_driver_def
        ap_credentials_from_config_def own_ap_def create_provisioning_manager_def esp_manager_default_def Let_def)
qed

theorem setup_screen_names_the_access_point_witness:
  "\<exists>b' r. boot_loop ensure_network get_provisioning_ap_details blank_font (Unpoisoned store_init)
     (Unpoisoned controller_state_default) [good_turn setup_env, good_turn wrong_password_env] (booted new_manager) = (Inr False, b') \<and>
     showing (ui b') = WifiSetup ''Frame-1A2B'' \<and> WIFI_MANAGER (prov b') = Some (Unpoisoned r) \<and> active_ap r = Some hosted_ap"
proof -
  let ?step = "boot_step ensure_network get_provisioning_ap_details blank_font (Unpoisoned store_init) (Unpoisoned controller_state_default)"
  obtain m where one: "ensure_network setup_env (prov (booted new_manager)) = (Inr Provisioning, m)"
    "prov_state m = Started ''Frame-1A2B'' []"
    "WIFI_MANAGER m = Some (Unpoisoned \<lparr>configuration = AccessPoint own_ap, radio_on = True\<rparr>)"
    using setup_tick by auto
  obtain b1 where b1: "?step (good_turn setup_env) (booted new_manager) = (Inr False, b1)" "prov b1 = m"
    using good_setup_turn [OF one(1)] by blast
  obtain m' where two: "ensure_network wrong_password_env (prov b1) = (Inr Provisioning, m')"
    "prov_state m' = Started ''Frame-1A2B'' []"
    "WIFI_MANAGER m' = Some (Unpoisoned \<lparr>configuration = AccessPoint hosted_ap, radio_on = True\<rparr>)"
    using wrong_password_tick one(2,3) b1(2) by blast
  obtain b2 where b2: "?step (good_turn wrong_password_env) b1 = (Inr False, b2)" "prov b2 = m'"
    using good_setup_turn [OF two(1)] by blast
  have run: "boot_loop ensure_network get_provisioning_ap_details blank_font (Unpoisoned store_init)
     (Unpoisoned controller_state_default) [good_turn setup_env, good_turn wrong_password_env] (booted new_manager) = (Inr False, b2)"
    using b1(1) b2(1) by simp
  have "prov (booted new_manager) = create_provisioning_manager (Some (Unpoisoned idle_radio))"
    by (simp add: new_manager_def)
  moreover have "truthful obedient_driver" by (simp add: truthful_def obedient_driver_def sample_driver_def)
  then have "\<forall>env \<in> set [good_turn setup_env, good_turn wrong_password_env]. truthful (ap_driver (tick_env env))"
    by (simp add: setup_env_def wrong_password_env_def home_env_def truthful_sample)
  ultimately have "showing (ui b2) = WifiSetup ''Frame-1A2B''"
    using setup_screen_names_the_access_point [OF _ run, of "Some (Unpoisoned idle_radio)"] two(2) b2(2)
    by (auto simp: get_provisioning_ap_details_def)
  with run two(3) b2(2) show ?thesis by (auto simp: active_ap_def)
qed

lemma home_turn:
  "\<exists>b'. boot_loop ensure_network get_provisioning_ap_details font (Unpoisoned store_init)
     (Unpoisoned controller_state_default) [good_turn home_env] (booted new_manager) = (Inr True, b')"
proof -
  obtain m where tick: "ensure_network home_env new_manager = (Inr NetConnected, m)"
    using home_env_connects by blast
  obtain u1 where "sync font (Inr ()) (set_network_phase NetConnected (app (booted new_manager)))
      (Unpoisoned store_init) (Unpoisoned controller_state_default) (ui (booted new_manager)) = (Inr (), u1)"
    by (rule good_sync)
  moreover have "network_phase (set_network_phase NetConnected st) = NetConnected" for st
    by (simp add: set_network_phase_def clear_provisioning_details_def Let_def)
  ultimately show ?thesis using tick by (simp add: boot_step_def Let_def)
qed

theorem leaving_boot_means_connected_witness:
  "\<exists>b'. boot_loop ensure_network get_provisioning_ap_details blank_font (Unpoisoned store_init)
     (Unpoisoned controller_state_default) [good_turn home_env] (booted new_manager) = (Inr True, b') \<and>
     network_phase (app b') = NetConnected \<and> device_id (app b') = Some ''esp32p4-1''"
proof -
  obtain b' where run: "boot_loop ensure_network get_provisioning_ap_details blank_font (Unpoisoned store_init)
     (Unpoisoned controller_state_default) [good_turn home_env] (booted new_manager) = (Inr True, b')"
    using home_turn by blast
  have "device_id (app (booted new_manager)) = Some ''esp32p4-1''"
    by (simp add: booted_def begin_setup_def set_device_identity_def)
  with leaving_boot_means_connected [OF run, of home_env] run show ?thesis by auto
qed



end
