(* ===== verification/Frame_System.thy ===== *)
theory Frame_System
  imports Control_Plane Firmware_Loop Touch_Input Firmware_Boot
begin

text \<open>
  The running frame: the threads that \<open>run()\<close> of \<open>frame-firmware/src/main.rs\<close> starts once the network is up,
  on the state they share, and the channels of \<open>ThinClientRuntime\<close> in \<open>frame-firmware/src/runtime.rs\<close>
  that connect them. A run of the system is any list of turns of its threads.

  A turn is one pass of a thread's loop, as the component theories define it. The channel from the
  control plane to the render thread is the list of forwarded events and a count of those taken;
  the channel back is the plane's queue. The controller phase and the download token are kept once, in the
  control plane, and lent to the others.
\<close>

section \<open>The runtime's channels\<close>

definition closed_channel :: error where
  "closed_channel = Msg ''sending on a closed channel''"

text \<open>The receiving end of the status queue lives as long as the control-plane loop.\<close>

definition send_command :: "TransportCommand \<Rightarrow> plane \<Rightarrow> unit result \<times> plane" where
  "send_command c p =
     (if mode p = Stopped then (Inl closed_channel, p) else (Inr (), p\<lparr>pending := pending p @ [c]\<rparr>))"

definition send_status :: "OutboundStatusMessage \<Rightarrow> plane \<Rightarrow> unit result \<times> plane" where
  "send_status m p =
     (let (r, p') = send_command (SendStatus m) p
      in (with_context ''failed to queue outbound status message'' r, p'))"

text \<open>The render thread's sends, which ignore a closed channel; the other threads ignore it too.\<close>

definition send_transport_status :: "OutboundStatusMessage \<Rightarrow> plane \<Rightarrow> plane" where
  "send_transport_status m p = snd (send_command (SendStatus m) p)"

definition drop_runtime :: "plane \<Rightarrow> plane" where
  "drop_runtime p = snd (send_command Shutdown p)"

definition send_all :: "OutboundStatusMessage list \<Rightarrow> plane \<Rightarrow> plane" where
  "send_all ms p = fold send_transport_status ms p"

section \<open>The running frame\<close>

text \<open>What is fixed once the threads run.\<close>

record firmware =
  transport :: WebSocketControlPlaneTransport
  read_json :: "string \<Rightarrow> string + IncomingControlMessage"
  glyphs :: font
  booted_state :: AppState
  library :: LocalLibrary
  sd_text :: string

text \<open>The frame introduces itself under the identity it booted with.\<close>

definition controller_transport :: "string option \<Rightarrow> AppState \<Rightarrow> WebSocketControlPlaneTransport" where
  "controller_transport baked_url st =
     with_device_name (device_name st) (transport_new (control_plane_url baked_url) (unwrap_or_default (device_id st)))"

definition load_firmware ::
  "string option \<Rightarrow> (string \<Rightarrow> string + IncomingControlMessage) \<Rightarrow> font \<Rightarrow> (string \<Rightarrow> dir_entry list result)
   \<Rightarrow> SdStatus \<Rightarrow> AppState \<Rightarrow> firmware" where
  "load_firmware baked_url json font read_dir sd st =
     \<lparr>transport = controller_transport baked_url st, read_json = json, glyphs = font, booted_state = st,
      library = choose_library read_dir sd, sd_text = sd_summary sd\<rparr>"

text \<open>Where the main thread is: about to say that it searches, in its loop, or returned with an error.\<close>

datatype main_at = Announcing | Looping | Returned

record system =
  net :: plane
  taken :: nat
  device :: main_state
  last_asked :: last_request
  slides :: slideshow
  finger :: touch_state
  main_thread :: main_at
  reporting :: bool
  powered :: bool

text \<open>A turn of one thread, with everything it meets outside the program.\<close>

datatype 'h turn =
    ConnectTurn ws_io
  | ExchangeTurn "OutboundStatusMessage \<Rightarrow> unit result" "string option result"
  | WaitTurn nat
  | RenderTurn media_io
  | HealthTurn request_env
  | TouchTurn poll request_env
  | SlideTurn "'h image_reader"
  | MainTurn main_env

definition runtime_spawn :: "plane" where
  "runtime_spawn = plane_init"

text \<open>The threads start on an empty photo store; \<open>u\<close> is the display as the boot loop left it.\<close>

definition system_start :: "firmware \<Rightarrow> files \<Rightarrow> FrameUi \<Rightarrow> system" where
  "system_start fw kept u =
     \<lparr>net = runtime_spawn, taken = 0,
      device = \<lparr>glass_ui = u,
        shared = snd (start_photo_source (library fw)
          \<lparr>memory = Unpoisoned store_init, cached = kept, frame_token_slot = Unpoisoned None, local_active = False\<rparr>),
        last_offline_rotation = 0\<rparr>,
      last_asked = Unpoisoned None, slides = slideshow_init, finger = touch_init,
      main_thread = Announcing, reporting = False, powered = True\<rparr>"

text \<open>The state shared with the photo threads, with the token the control plane holds.\<close>

definition set_shared :: "frame \<Rightarrow> system \<Rightarrow> system" where
  "set_shared f s = s\<lparr>device := (device s)\<lparr>shared := f\<rparr>\<rparr>"

definition lend_token :: "system \<Rightarrow> system" where
  "lend_token s = set_shared ((shared (device s))\<lparr>frame_token_slot := token_slot (net s)\<rparr>) s"

definition net_turn :: "firmware \<Rightarrow> plane_input \<Rightarrow> system \<Rightarrow> system" where
  "net_turn fw i s = lend_token (s\<lparr>net := plane_step (transport fw) (read_json fw) (net s) i\<rparr>)"

text \<open>The render thread takes the next event off the channel, or goes on waiting for one.\<close>

definition render_turn :: "media_io \<Rightarrow> system \<Rightarrow> system" where
  "render_turn io s =
     (if taken s < length (forwarded (net s)) then
        (case handle_event (media_executor True) io (forwarded (net s) ! taken s) (shared (device s)) of
           (sent, f, alive) \<Rightarrow>
             set_shared f (s\<lparr>net := send_all sent (net s), taken := taken s + 1, powered := alive\<rparr>))
      else s)"

text \<open>A turn that may ask for photos: it works on the shared state and the time of the last request.\<close>

definition asking_turn ::
  "(frame \<times> last_request \<Rightarrow> OutboundStatusMessage list \<times> frame \<times> last_request) \<Rightarrow> system \<Rightarrow> system" where
  "asking_turn ask s =
     (case ask (shared (device s), last_asked s) of
        (sent, f, slot) \<Rightarrow> set_shared f (s\<lparr>net := send_all sent (net s), last_asked := slot\<rparr>))"

definition touch_turn :: "poll \<Rightarrow> request_env \<Rightarrow> system \<Rightarrow> system" where
  "touch_turn p env s =
     (case touch_step p (finger s) of
        (None, t) \<Rightarrow> s\<lparr>finger := t\<rparr>
      | (Some _, t) \<Rightarrow> asking_turn (on_tap env) (s\<lparr>finger := t\<rparr>))"

definition slide_turn :: "firmware \<Rightarrow> 'h image_reader \<Rightarrow> system \<Rightarrow> system" where
  "slide_turn fw rd s =
     (if lib_is_empty (library fw) then s
      else (case slideshow_step (library fw) rd (slides s, memory (shared (device s))) of
              (_, sl, m) \<Rightarrow> set_shared ((shared (device s))\<lparr>memory := m\<rparr>) (s\<lparr>slides := sl\<rparr>)))"

definition loop_state :: "firmware \<Rightarrow> AppState" where
  "loop_state fw = app_set_controller_phase Searching (booted_state fw)"

text \<open>\<open>run()\<close> returns: the runtime is dropped, which asks the control plane to shut down.\<close>

definition give_up :: "system \<Rightarrow> system" where
  "give_up s = s\<lparr>main_thread := Returned, net := drop_runtime (net s)\<rparr>"

definition announce :: "firmware \<Rightarrow> main_env \<Rightarrow> system \<Rightarrow> system" where
  "announce fw env s =
     (let s1 = s\<lparr>net := set_phase Searching (net s)\<rparr>
      in case fst (set_controller_phase Searching (plane.controller (net s))) of
           Inl _ \<Rightarrow> give_up s1
         | Inr _ \<Rightarrow>
             (case sync (glyphs fw) (drawn env) (loop_state fw) (memory (shared (device s1)))
                     (plane.controller (net s1)) (glass_ui (device s1)) of
                (Inl _, u) \<Rightarrow> give_up (s1\<lparr>device := (device s1)\<lparr>glass_ui := u\<rparr>\<rparr>)
              | (Inr _, u) \<Rightarrow>
                  s1\<lparr>device := (device s1)\<lparr>glass_ui := u, last_offline_rotation := rotated_at env\<rparr>,
                     main_thread := Looping, reporting := True\<rparr>))"

definition loop_turn :: "firmware \<Rightarrow> main_env \<Rightarrow> system \<Rightarrow> system" where
  "loop_turn fw env s =
     (case main_turn (glyphs fw) (loop_state fw)
             (main_env.controller_update (\<lambda>_. plane.controller (net s)) env) (device s) of
        (Inl _, d) \<Rightarrow> give_up (s\<lparr>device := d\<rparr>)
      | (Inr _, d) \<Rightarrow> s\<lparr>device := d\<rparr>)"

definition main_step :: "firmware \<Rightarrow> main_env \<Rightarrow> system \<Rightarrow> system" where
  "main_step fw env s =
     (case main_thread s of
        Announcing \<Rightarrow> announce fw env s
      | Looping \<Rightarrow> loop_turn fw env s
      | Returned \<Rightarrow> s)"

definition system_step :: "firmware \<Rightarrow> system \<Rightarrow> 'h turn \<Rightarrow> system" where
  "system_step fw s t =
     (if \<not> powered s then s
      else (case t of
              ConnectTurn io \<Rightarrow> net_turn fw (Connect io) s
            | ExchangeTurn send r \<Rightarrow> net_turn fw (Exchange send r) s
            | WaitTurn n \<Rightarrow> net_turn fw (Waited n) s
            | RenderTurn io \<Rightarrow> render_turn io s
            | HealthTurn env \<Rightarrow>
                if reporting s then asking_turn (health_turn (sd_text fw) (photo_source_of (library fw)) env) s else s
            | TouchTurn p env \<Rightarrow> if reporting s then touch_turn p env s else s
            | SlideTurn rd \<Rightarrow> slide_turn fw rd s
            | MainTurn env \<Rightarrow> main_step fw env s))"

definition system_run :: "firmware \<Rightarrow> system \<Rightarrow> 'h turn list \<Rightarrow> system" where
  "system_run fw = foldl (system_step fw)"

section \<open>Every thread goes through the store's operations\<close>

text \<open>\<open>moves k m m'\<close>: at most \<open>k\<close> operations of the photo store lead from \<open>m\<close> to \<open>m'\<close>.\<close>

definition moves :: "nat \<Rightarrow> store mutex \<Rightarrow> store mutex \<Rightarrow> bool" where
  "moves k m m' \<longleftrightarrow>
     (\<forall>s. m = Unpoisoned s \<longrightarrow> (\<exists>ops. length ops \<le> k \<and> m' = Unpoisoned (store_run s ops)))"

lemma moves_refl [simp, intro]: "moves k m m"
  unfolding moves_def store_run_def by (metis foldl_Nil le0 list.size(3))

lemma moves_trans: "moves a m m1 \<Longrightarrow> moves b m1 m2 \<Longrightarrow> moves (a + b) m m2"
  unfolding moves_def store_run_def by (metis add_mono foldl_append length_append)

lemma moves_mono: "moves a m m' \<Longrightarrow> a \<le> b \<Longrightarrow> moves b m m'"
  unfolding moves_def by (blast intro: order.trans)

lemma moves_cat: "moves a m m1 \<Longrightarrow> moves b m1 m2 \<Longrightarrow> a + b \<le> k \<Longrightarrow> moves k m m2"
  by (rule moves_mono [OF moves_trans])

lemma moves_one:
  assumes "\<And>s. m = Unpoisoned s \<Longrightarrow> m' = Unpoisoned (store_step s e)"
  shows "moves 1 m m'"
  unfolding moves_def
proof (intro allI impI exI conjI)
  fix s assume "m = Unpoisoned s"
  then show "m' = Unpoisoned (store_run s [e])" using assms by (simp add: store_run_def)
qed simp

lemma moves_ops:
  "moves 1 m (snd (show_rendered_image img m))" "moves 1 m (snd (push_rendered_image img m))"
  "moves 1 m (snd (advance_rendered_image m))" "moves 1 m (snd (clear_rendered_image m))"
proof -
  show "moves 1 m (snd (show_rendered_image img m))" by (rule moves_one [of _ _ "OpShow img"]) (simp add: show_rendered_image_def)
  show "moves 1 m (snd (push_rendered_image img m))" by (rule moves_one [of _ _ "OpPush img"]) (simp add: push_rendered_image_def)
  show "moves 1 m (snd (advance_rendered_image m))" by (rule moves_one [of _ _ OpAdvance]) (simp add: advance_rendered_image_def)
  show "moves 1 m (snd (clear_rendered_image m))" by (rule moves_one [of _ _ OpClear]) (simp add: clear_rendered_image_def)
qed

lemma moves_top_up: "moves 2 m (fst (top_up_from_cache envs n m fs))"
proof -
  have "moves (MEMORY_BUFFER_TARGET - buffered_or_max m) m (fst (top_up_from_cache envs n m fs))"
  proof (induction "MEMORY_BUFFER_TARGET - buffered_or_max m" arbitrary: n m fs)
    case 0
    then show ?case by (subst top_up_from_cache.simps) simp
  next
    case (Suc k)
    obtain r fs1 where take: "take_oldest (envs n) fs = (r, fs1)" by force
    show ?case
    proof (cases r)
      case None
      with take show ?thesis by (subst top_up_from_cache.simps) auto
    next
      case (Some pixels)
      with take obtain img where img: "image_from_rgb565_bytes pixels = Inr img" using take_oldest_image by blast
      obtain pushed m1 where push: "push_rendered_image img m = (pushed, m1)" by force
      have one: "moves 1 m m1" using moves_ops(2) [of m img] push by simp
      show ?thesis
      proof (cases pushed)
        case (Inl e)
        with take Some img push one Suc.hyps(2) show ?thesis
          by (subst top_up_from_cache.simps) (auto intro: moves_mono)
      next
        case (Inr u)
        have low: "buffered_or_max m < MEMORY_BUFFER_TARGET" using Suc.hyps(2) by simp
        have "buffered_or_max m1 = Suc (buffered_or_max m)" using push_grows [OF _ low] push Inr by simp
        then have "k = MEMORY_BUFFER_TARGET - buffered_or_max m1" using Suc.hyps(2) by simp
        from Suc.hyps(1) [OF this, of "Suc n" fs1]
        have "moves (1 + (MEMORY_BUFFER_TARGET - buffered_or_max m1)) m (fst (top_up_from_cache envs (Suc n) m1 fs1))"
          by (rule moves_trans [OF one])
        moreover have "top_up_from_cache envs n m fs = top_up_from_cache envs (Suc n) m1 fs1"
          using take Some img push Inr low by (subst top_up_from_cache.simps) simp
        ultimately show ?thesis
          using \<open>k = MEMORY_BUFFER_TARGET - buffered_or_max m1\<close> Suc.hyps(2) by simp
      qed
    qed
  qed
  then show ?thesis by (rule moves_mono) (simp add: MEMORY_BUFFER_TARGET_def)
qed

lemma moves_frame_top_up: "moves 2 (memory f) (memory (top_up envs f))"
  using moves_top_up [of "memory f" envs 0 "cached f"]
  by (cases "top_up_from_cache envs 0 (memory f) (cached f)") (simp add: top_up_def)

lemma moves_queue_photo: "moves 3 (memory f) (memory (snd (queue_photo io i bytes img f)))"
proof -
  obtain stored fs where st: "store_photo (debug_str io) (store_env io) i bytes (cached f) = (stored, fs)" by force
  obtain pushed m where pm: "(case stored of Inr _ \<Rightarrow> (Inr (), memory f)
      | Inl _ \<Rightarrow> push_rendered_image img (memory f)) = (pushed, m)"
    by (cases "case stored of Inr _ \<Rightarrow> (Inr (), memory f) | Inl _ \<Rightarrow> push_rendered_image img (memory f)")
  have one: "moves 1 (memory f) m"
    using pm moves_ops(2) [of "memory f" img] by (cases stored) auto
  show ?thesis
  proof (cases pushed)
    case (Inl e)
    with st pm one show ?thesis by (auto simp: queue_photo_def intro: moves_mono)
  next
    case (Inr u)
    obtain m2 fs2 where top: "top_up_from_cache (top_up_envs io) 0 m fs = (m2, fs2)" by force
    then have "moves 3 (memory f) m2"
      using moves_cat [OF one moves_top_up, of 3 "top_up_envs io" 0 fs] by simp
    with top st pm Inr show ?thesis by (simp add: queue_photo_def)
  qed
qed

lemma moves_media_render: "moves 3 (memory f) (memory (snd (media_render io r f)))"
proof -
  have "moves 3 (memory f) (snd (show_rendered_image img (memory f)))" for img
    by (rule moves_mono [OF moves_ops(1)]) simp
  then have "moves 3 (memory f) m" if "show_rendered_image img (memory f) = (shown, m)" for img shown m
    using that by (metis snd_conv)
  then show ?thesis
    by (auto simp: media_render_def Let_def moves_queue_photo split: sum.split prod.split)
qed

lemma moves_handle_event:
  assumes "handle_event (media_executor embedded) io event f = (sent, f', alive)"
  shows "moves 3 (memory f) (memory f')"
proof -
  have reload: "moves 3 (memory f) (memory (snd (media_reload_ui f)))"
    using moves_ops(4) [of "memory f"] by (auto simp: media_reload_ui_def split: prod.split intro: moves_mono)
  show ?thesis
    using assms moves_media_render [of f io] reload
    by (auto simp: handle_event_def media_executor_def media_reboot_def split: ControlEvent.splits
        DeviceCommand.splits prod.splits option.splits if_splits; metis snd_conv)
qed

lemma moves_request: "moves 2 (memory f) (memory (fst (snd (request_more_photos env (f, slot)))))"
  using moves_frame_top_up [of f "refill_envs env"]
  by (simp add: request_more_photos_def Let_def split: mutex.split)

lemma moves_health: "moves 5 (memory f) (memory (fst (snd (health_turn sd source env (f, slot)))))"
  using moves_request [of f env slot] by (auto simp: health_turn_def Let_def intro: moves_mono split: prod.split)

lemma moves_tap: "moves 5 (memory f) (memory (fst (snd (on_tap env (f, slot)))))"
proof -
  obtain advanced m where adv: "advance_rendered_image (memory f) = (advanced, m)" by force
  have one: "moves 1 (memory f) m" using moves_ops(3) [of "memory f"] adv by simp
  have "moves 5 (memory f) (memory (fst (snd (request_more_photos env (f\<lparr>memory := m\<rparr>, slot)))))"
    by (rule moves_cat [OF one, where b = 2]) (use moves_request [of "f\<lparr>memory := m\<rparr>" env slot] in simp_all)
  with one adv show ?thesis
    by (auto simp: on_tap_def Let_def intro: moves_mono split: sum.split)
qed

lemma moves_rotation: "moves 5 (memory f) (memory (rotate_offline env f))"
proof -
  let ?f1 = "top_up (first_refill env) f"
  obtain advanced m where adv: "advance_rendered_image (memory ?f1) = (advanced, m)" by force
  have three: "moves (2 + 1) (memory f) m"
    using moves_trans [OF moves_frame_top_up moves_ops(3)] adv by (metis snd_conv)
  then have "moves 5 (memory f) (memory (top_up (second_refill env) (?f1\<lparr>memory := m\<rparr>)))"
    by (rule moves_cat [where b = 2]) (use moves_frame_top_up [of "?f1\<lparr>memory := m\<rparr>" "second_refill env"] in simp_all)
  with three adv show ?thesis
    by (auto simp: rotate_offline_def Let_def intro: moves_mono split: sum.split bool.split)
qed

lemma moves_slideshow:
  "slideshow_step lib rd (sl, m) = (did, sl', m') \<Longrightarrow> moves 1 m m'"
  using moves_ops(2) by (auto simp: slideshow_step_def Let_def split: sum.splits if_splits)

text \<open>Sends touch neither the phase nor anything the photo threads see.\<close>

lemma send_all_keeps:
  "mode (send_all ms p) = mode p \<and> plane.controller (send_all ms p) = plane.controller p \<and>
   token_slot (send_all ms p) = token_slot p \<and> forwarded (send_all ms p) = forwarded p \<and>
   wires (send_all ms p) = wires p \<and> retry (send_all ms p) = retry p \<and>
   senders_alive (send_all ms p) = senders_alive p \<and> renderer_alive (send_all ms p) = renderer_alive p \<and>
   pending (send_all ms p) = pending p @ (if mode p = Stopped then [] else map SendStatus ms)"
  by (induction ms arbitrary: p) (simp_all add: send_all_def send_transport_status_def send_command_def)

section \<open>What one turn does\<close>

abbreviation photos_in :: "system \<Rightarrow> store mutex" where
  "photos_in s \<equiv> memory (shared (device s))"

abbreviation display :: "system \<Rightarrow> FrameUi" where
  "display s \<equiv> glass_ui (device s)"

lemma set_shared_simps [simp]:
  "shared (device (set_shared f s)) = f" "display (set_shared f s) = display s"
  "net (set_shared f s) = net s" "main_thread (set_shared f s) = main_thread s"
  "taken (set_shared f s) = taken s" "powered (set_shared f s) = powered s"
  "reporting (set_shared f s) = reporting s"
  by (simp_all add: set_shared_def)

lemma lend_token_simps [simp]:
  "shared (device (lend_token s)) = (shared (device s))\<lparr>frame_token_slot := token_slot (net s)\<rparr>"
  "display (lend_token s) = display s" "net (lend_token s) = net s" "main_thread (lend_token s) = main_thread s"
  "taken (lend_token s) = taken s" "powered (lend_token s) = powered s" "reporting (lend_token s) = reporting s"
  by (simp_all add: lend_token_def)

lemma give_up_simps [simp]:
  "device (give_up s) = device s" "main_thread (give_up s) = Returned" "taken (give_up s) = taken s"
  "powered (give_up s) = powered s" "net (give_up s) = drop_runtime (net s)"
  by (simp_all add: give_up_def)

lemma net_turn_simps [simp]:
  "photos_in (net_turn fw i s) = photos_in s" "display (net_turn fw i s) = display s"
  "main_thread (net_turn fw i s) = main_thread s"
  by (simp_all add: net_turn_def)

lemma render_turn_photos:
  "moves 5 (photos_in s) (photos_in (render_turn io s)) \<and> display (render_turn io s) = display s \<and>
   main_thread (render_turn io s) = main_thread s"
proof -
  have "moves 5 (photos_in s) (memory f)" if "handle_event (media_executor True) io e (shared (device s)) = (sent, f, alive)"
    for e sent f alive
    by (rule moves_mono [OF moves_handle_event [OF that]]) simp
  then show ?thesis by (auto simp: render_turn_def split: prod.split)
qed

lemma asking_turn_photos:
  assumes "moves 5 (photos_in s) (memory (fst (snd (ask (shared (device s), last_asked s)))))"
  shows "moves 5 (photos_in s) (photos_in (asking_turn ask s)) \<and> display (asking_turn ask s) = display s \<and>
    main_thread (asking_turn ask s) = main_thread s"
proof -
  obtain sent f slot where "ask (shared (device s), last_asked s) = (sent, f, slot)" by (metis prod_cases3)
  with assms show ?thesis by (simp add: asking_turn_def)
qed

lemma touch_turn_photos:
  "moves 5 (photos_in s) (photos_in (touch_turn p env s)) \<and> display (touch_turn p env s) = display s \<and>
   main_thread (touch_turn p env s) = main_thread s"
proof -
  have "moves 5 (photos_in s) (photos_in (asking_turn (on_tap env) (s\<lparr>finger := t\<rparr>))) \<and>
      display (asking_turn (on_tap env) (s\<lparr>finger := t\<rparr>)) = display s \<and>
      main_thread (asking_turn (on_tap env) (s\<lparr>finger := t\<rparr>)) = main_thread s" for t
    using asking_turn_photos [of "s\<lparr>finger := t\<rparr>" "on_tap env"] moves_tap by simp
  then show ?thesis by (simp add: touch_turn_def split: prod.split option.split)
qed

lemma slide_turn_photos:
  "moves 5 (photos_in s) (photos_in (slide_turn fw rd s)) \<and> display (slide_turn fw rd s) = display s \<and>
   main_thread (slide_turn fw rd s) = main_thread s"
proof -
  have "moves 5 (photos_in s) m" if "slideshow_step lib rd (slides s, photos_in s) = (did, sl, m)" for lib did sl m
    by (rule moves_mono [OF moves_slideshow [OF that]]) simp
  then show ?thesis by (auto simp: slide_turn_def split: prod.split)
qed

lemma other_turn:
  assumes "\<And>env. t \<noteq> MainTurn env"
  shows "moves 5 (photos_in s) (photos_in (system_step fw s t)) \<and> display (system_step fw s t) = display s \<and>
    main_thread (system_step fw s t) = main_thread s"
  using assms
  by (cases t) (auto simp: system_step_def render_turn_photos asking_turn_photos moves_health touch_turn_photos
      slide_turn_photos)

text \<open>A turn of the main loop that goes on has reconciled the display with the photos it found.\<close>

lemma loop_turn_cases:
  assumes "main_thread s = Looping"
  obtains (failed) e u where "main_thread (loop_turn fw env s) = Returned" "photos_in (loop_turn fw env s) = photos_in s"
      "sync (glyphs fw) (drawn env) (loop_state fw) (photos_in s) (plane.controller (net s)) (display s) = (Inl e, u)"
  | (went_on) "main_thread (loop_turn fw env s) = Looping"
      "sync (glyphs fw) (drawn env) (loop_state fw) (photos_in s) (plane.controller (net s)) (display s) =
         (Inr (), display (loop_turn fw env s))"
      "moves 5 (photos_in s) (photos_in (loop_turn fw env s))"
      "net (loop_turn fw env s) = net s"
proof (cases "sync (glyphs fw) (drawn env) (loop_state fw) (photos_in s) (plane.controller (net s)) (display s)")
  case (Pair r u)
  show ?thesis
  proof (cases r)
    case (Inl e)
    with Pair show ?thesis by (intro failed) (simp_all add: loop_turn_def main_turn_def)
  next
    case (Inr v)
    with Pair assms moves_rotation [of "shared (device s)"] show ?thesis
      by (intro went_on) (auto simp: loop_turn_def main_turn_def Let_def)
  qed
qed

section \<open>The glass follows the photos\<close>

text \<open>
  While the main thread runs, the display is one that reconciliations have kept, and the photos are at most
  \<open>k\<close> operations past those it last reconciled with.
\<close>

definition tracks :: "nat \<Rightarrow> system \<Rightarrow> bool" where
  "tracks k s \<longleftrightarrow>
     (\<exists>p ops. photos_in s = Unpoisoned (store_run p ops) \<and> bounded (store_run p ops) \<and> length ops \<le> k \<and>
        (main_thread s \<noteq> Returned \<longrightarrow> ui_run p (display s)))"

lemma tracks_moved:
  assumes "tracks k s" and "moves 5 (photos_in s) (photos_in s')"
    and "main_thread s' \<noteq> Returned \<Longrightarrow> main_thread s \<noteq> Returned \<and> display s' = display s"
  shows "tracks (k + 5) s'"
proof -
  obtain p ops where p: "photos_in s = Unpoisoned (store_run p ops)" "bounded (store_run p ops)" "length ops \<le> k"
    "main_thread s \<noteq> Returned \<longrightarrow> ui_run p (display s)" using assms(1) by (auto simp: tracks_def)
  then obtain more where more: "length more \<le> 5" "photos_in s' = Unpoisoned (store_run (store_run p ops) more)"
    using assms(2) by (auto simp: moves_def)
  moreover have "store_run (store_run p ops) more = store_run p (ops @ more)" by (simp add: store_run_def)
  moreover have "length (ops @ more) \<le> k + 5" using more(1) p(3) by simp
  ultimately show ?thesis
    unfolding tracks_def using p(2,4) assms(3) bounded_run [OF p(2), of more] by metis
qed

lemma tracks_reconciled:
  assumes "tracks k s" and "k < 2 ^ 64" and "main_thread s \<noteq> Returned"
    and "sync font shown st (photos_in s) ctl (display s) = (Inr (), display s')"
    and "moves 5 (photos_in s) (photos_in s')"
  shows "tracks (k + 5) s'"
proof -
  obtain p ops where p: "photos_in s = Unpoisoned (store_run p ops)" "bounded (store_run p ops)" "length ops \<le> k"
    "ui_run p (display s)" using assms(1,3) by (auto simp: tracks_def)
  then have "ui_run (store_run p ops) (display s')"
    using ui_run.pass [OF p(4)] assms(2,4) by (metis le_less_trans)
  moreover obtain more where "length more \<le> 5" "photos_in s' = Unpoisoned (store_run (store_run p ops) more)"
    using assms(5) p(1) by (auto simp: moves_def)
  ultimately show ?thesis
    unfolding tracks_def using bounded_run [OF p(2), of more] by (metis le_add2 le_trans)
qed

lemma announce_cases:
  obtains (failed) "main_thread (announce fw env s) = Returned" "photos_in (announce fw env s) = photos_in s"
  | (went_on) "main_thread (announce fw env s) = Looping"
      "sync (glyphs fw) (drawn env) (loop_state fw) (photos_in s) (plane.controller (set_phase Searching (net s))) (display s) =
         (Inr (), display (announce fw env s))"
      "photos_in (announce fw env s) = photos_in s"
      "net (announce fw env s) = set_phase Searching (net s)"
proof (cases "fst (set_controller_phase Searching (plane.controller (net s)))")
  case (Inl e)
  then show ?thesis by (intro failed) (simp_all add: announce_def)
next
  case (Inr v)
  show ?thesis
  proof (cases "sync (glyphs fw) (drawn env) (loop_state fw) (photos_in s)
      (plane.controller (set_phase Searching (net s))) (display s)")
    case (Pair r u)
    with Inr show ?thesis by (cases r; intro failed went_on) (simp_all add: announce_def)
  qed
qed

lemma tracks_step:
  assumes "tracks k s" and "k < 2 ^ 64"
  shows "tracks (k + 5) (system_step fw s t)"
proof (cases "\<exists>env. t = MainTurn env")
  case False
  then show ?thesis using other_turn [of t s fw] by (intro tracks_moved [OF assms(1)]) auto
next
  case True
  then obtain env where t: "t = MainTurn env" by blast
  have same: "tracks (k + 5) s" by (rule tracks_moved [OF assms(1)]) simp_all
  have stopped: "tracks (k + 5) s'" if "main_thread s' = Returned" "photos_in s' = photos_in s" for s'
    by (rule tracks_moved [OF assms(1)]) (use that in simp_all)
  have "tracks (k + 5) (main_step fw env s)"
  proof (cases "main_thread s")
    case Announcing
    have "tracks (k + 5) (announce fw env s)"
    proof (cases rule: announce_cases [of fw env s])
      case failed
      then show ?thesis by (rule stopped)
    next
      case went_on
      then show ?thesis by (intro tracks_reconciled [OF assms _ went_on(2)]) (simp_all add: Announcing)
    qed
    with Announcing show ?thesis by (simp add: main_step_def)
  next
    case Looping
    have "tracks (k + 5) (loop_turn fw env s)"
    proof (cases rule: loop_turn_cases [OF Looping, of fw env])
      case (1 e u)
      from this(1,2) show ?thesis by (rule stopped)
    next
      case 2
      then show ?thesis by (intro tracks_reconciled [OF assms _ 2(2)]) (simp_all add: Looping)
    qed
    with Looping show ?thesis by (simp add: main_step_def)
  next
    case Returned
    with same show ?thesis by (simp add: main_step_def)
  qed
  with same t show ?thesis by (simp add: system_step_def)
qed

lemma system_run_snoc: "system_run fw s (ts @ [t]) = system_step fw (system_run fw s ts) t"
  by (simp add: system_run_def)

lemma system_run_one: "system_run fw s [t] = system_step fw s t"
  by (simp add: system_run_def)

lemma system_start_simps [simp]:
  "photos_in (system_start fw kept u) = Unpoisoned store_init" "display (system_start fw kept u) = u"
  "main_thread (system_start fw kept u) = Announcing" "net (system_start fw kept u) = plane_init"
  "taken (system_start fw kept u) = 0" "powered (system_start fw kept u)" "\<not> reporting (system_start fw kept u)"
  "local_active (shared (device (system_start fw kept u))) = (\<not> lib_is_empty (library fw))"
  "frame_token_slot (shared (device (system_start fw kept u))) = Unpoisoned None"
  by (simp_all add: system_start_def start_photo_source_def set_local_photos_active_def runtime_spawn_def Let_def)

lemma tracks_run:
  assumes "ui_run store_init u" and "length ts < 2 ^ 60"
  shows "tracks (5 * length ts) (system_run fw (system_start fw kept u) ts)"
  using assms(2)
proof (induction ts rule: rev_induct)
  case Nil
  have "store_init = store_run store_init []" by (simp add: store_run_def)
  then have "tracks 0 (system_start fw kept u)"
    unfolding tracks_def using assms(1) bounded_init by (intro exI [of _ store_init] exI [of _ "[]"]) simp
  then show ?case by (simp add: system_run_def)
next
  case (snoc t ts)
  then have "tracks (5 * length ts) (system_run fw (system_start fw kept u) ts)" "5 * length ts < 2 ^ 64" by simp_all
  from tracks_step [OF this, of fw t] show ?case by (simp add: system_run_snoc add.commute)
qed

section \<open>The threads stay linked\<close>

text \<open>No thread but the control plane touches the token, and none the flag for local photos.\<close>

definition keeps :: "frame \<Rightarrow> frame \<Rightarrow> bool" where
  "keeps f f' \<longleftrightarrow> frame_token_slot f' = frame_token_slot f \<and> local_active f' = local_active f"

lemma keeps_simps [simp]:
  "keeps f f" "keeps f (f'\<lparr>memory := m\<rparr>) = keeps f f'" "keeps f (f'\<lparr>cached := c\<rparr>) = keeps f f'"
  "keeps (f\<lparr>memory := m\<rparr>) f' = keeps f f'"
  by (simp_all add: keeps_def)

lemma keeps_trans: "keeps f f' \<Longrightarrow> keeps f' f'' \<Longrightarrow> keeps f f''"
  by (simp add: keeps_def)

lemma keeps_top_up [simp]: "keeps f (top_up envs f)"
  by (simp add: top_up_def split: prod.split)

lemma keeps_media_render: "keeps f (snd (media_render io r f))"
  by (simp add: media_render_def queue_photo_def Let_def split: sum.split prod.split)

lemma keeps_handle_event: "handle_event (media_executor embedded) io event f = (sent, f', alive) \<Longrightarrow> keeps f f'"
  using keeps_media_render [of f io]
  by (auto simp: handle_event_def media_executor_def media_reboot_def media_reload_ui_def
      split: ControlEvent.splits DeviceCommand.splits prod.splits option.splits if_splits; metis snd_conv)

lemma keeps_request: "keeps f (fst (snd (request_more_photos env (f, slot))))"
  by (simp add: request_more_photos_def Let_def split: mutex.split)

lemma keeps_health: "keeps f (fst (snd (health_turn sd source env (f, slot))))"
  using keeps_request [of f env slot] by (simp add: health_turn_def Let_def split: prod.split) auto

lemma keeps_tap: "keeps f (fst (snd (on_tap env (f, slot))))"
  using keeps_request [of "f\<lparr>memory := m\<rparr>" env slot for m]
  by (simp add: on_tap_def Let_def split: prod.split sum.split)

lemma keeps_rotation: "keeps f (rotate_offline env f)"
proof -
  have "keeps f (top_up (second_refill env) (top_up (first_refill env) f\<lparr>memory := m\<rparr>))" for m
    by (rule keeps_trans [OF _ keeps_top_up]) simp
  then show ?thesis by (auto simp: rotate_offline_def Let_def split: prod.split sum.split bool.split)
qed

definition plane_ok :: "WebSocketControlPlaneTransport \<Rightarrow> plane \<Rightarrow> bool" where
  "plane_ok t p \<longleftrightarrow> introduced t p \<and> phase_matches p \<and> retry_ok p \<and> senders_alive p \<and> renderer_alive p"

text \<open>
  What holds between the threads at every moment: the control plane is in order, the render thread uses its
  token and is not ahead of it, and the control plane is told to stop exactly when the main thread returns.
\<close>

definition told_to_stop :: "plane \<Rightarrow> bool" where
  "told_to_stop p \<longleftrightarrow> Shutdown \<in> set (pending p) \<or> mode p = Stopped"

definition linked :: "firmware \<Rightarrow> system \<Rightarrow> bool" where
  "linked fw s \<longleftrightarrow> plane_ok (transport fw) (net s) \<and>
     frame_token_slot (shared (device s)) = token_slot (net s) \<and>
     local_active (shared (device s)) = (\<not> lib_is_empty (library fw)) \<and>
     taken s \<le> length (forwarded (net s)) \<and>
     (main_thread s = Returned \<longleftrightarrow> told_to_stop (net s))"

lemma plane_ok_sends: "plane_ok t (send_all ms p) = plane_ok t p" "told_to_stop (send_all ms p) = told_to_stop p"
  using send_all_keeps [of ms p]
  by (auto simp: plane_ok_def introduced_def phase_matches_def retry_ok_def told_to_stop_def)

lemma plane_ok_drop: "plane_ok t (drop_runtime p) = plane_ok t p" "told_to_stop (drop_runtime p)"
  "token_slot (drop_runtime p) = token_slot p" "forwarded (drop_runtime p) = forwarded p"
  by (auto simp: drop_runtime_def send_command_def plane_ok_def introduced_def phase_matches_def retry_ok_def
      told_to_stop_def)

lemma plane_ok_searching: "plane_ok t p \<Longrightarrow> plane_ok t (set_phase Searching p)"
  "told_to_stop (set_phase ph p) = told_to_stop p" "forwarded (set_phase ph p) = forwarded p"
  "token_slot (set_phase ph p) = token_slot p"
  by (auto simp: plane_ok_def told_to_stop_def phase_matches_def set_phase_def set_controller_phase_def
      introduced_def retry_ok_def set_phase_body_def)

text \<open>\<open>proceeds p p'\<close>: the channels stay open, no command to stop is lost, and events are only added.\<close>

definition proceeds :: "plane \<Rightarrow> plane \<Rightarrow> bool" where
  "proceeds p p' \<longleftrightarrow> senders_alive p' = senders_alive p \<and> renderer_alive p' = renderer_alive p \<and>
     told_to_stop p' = told_to_stop p \<and> (\<exists>more. forwarded p' = forwarded p @ more)"

lemma proceeds_refl [simp]: "proceeds p p"
  by (simp add: proceeds_def)

lemma proceeds_trans: "proceeds p p1 \<Longrightarrow> proceeds p1 p2 \<Longrightarrow> proceeds p p2"
  by (auto simp: proceeds_def)

lemma proceeds_phase [simp]: "proceeds p (set_phase ph p') = proceeds p p'"
  by (simp add: proceeds_def set_phase_def told_to_stop_def)

lemma proceeds_backoff: "mode p \<noteq> Stopped \<Longrightarrow> proceeds p (enter_backoff p)"
  by (auto simp: enter_backoff_def proceeds_def told_to_stop_def set_phase_def split: prod.split)

lemma proceeds_receive:
  assumes "renderer_alive p"
  shows "proceeds p (receive from_json payload p)"
  using assms
  by (auto simp: receive_def take_token_def proceeds_def told_to_stop_def set_phase_def Let_def
      split: sum.split ControlEvent.split option.split)

lemma proceeds_try_recv:
  assumes "senders_alive p" and "try_recv_step send p = Some p1"
  shows "proceeds p p1 \<and> mode p1 \<in> {mode p, Stopped}"
  using assms by (cases "pending p") (auto simp: try_recv_step_def proceeds_def told_to_stop_def
      split: TransportCommand.splits sum.splits)

lemma proceeds_lost_status:
  assumes "try_recv_step send p = None" and "mode p \<noteq> Stopped"
  shows "proceeds p (enter_backoff (p\<lparr>pending := tl (pending p)\<rparr>))"
proof -
  have "proceeds p (p\<lparr>pending := tl (pending p)\<rparr>)"
    using assms(1) by (cases "pending p") (auto simp: try_recv_step_def proceeds_def told_to_stop_def
        split: TransportCommand.splits sum.splits if_splits)
  then show ?thesis by (rule proceeds_trans) (rule proceeds_backoff, simp add: assms(2))
qed

lemma proceeds_exchange:
  assumes "senders_alive p" and "renderer_alive p" and "mode p = Online"
  shows "proceeds p (exchange_step from_json send r p)"
proof (cases "try_recv_step send p")
  case None
  then show ?thesis using proceeds_lost_status [OF None] assms(3) by (simp add: exchange_step_def)
next
  case (Some p1)
  have p1: "proceeds p p1" "mode p1 = Online \<or> mode p1 = Stopped" "renderer_alive p1"
    using proceeds_try_recv [OF assms(1) Some] assms by (auto simp: proceeds_def)
  then have "proceeds p (receive from_json payload p1)" for payload
    using proceeds_trans proceeds_receive by blast
  moreover have "proceeds p (enter_backoff (set_phase Searching p1))" if "mode p1 = Online"
    using that p1(1) by (intro proceeds_trans [OF _ proceeds_backoff]) simp_all
  ultimately show ?thesis using p1 by (auto simp: exchange_step_def Some split: sum.split option.split)
qed

lemma proceeds_connect: "mode p = Connecting \<Longrightarrow> proceeds p (connect_step r p)"
proof -
  assume c: "mode p = Connecting"
  then have "proceeds p (enter_backoff (set_phase Searching p))"
    by (intro proceeds_trans [OF _ proceeds_backoff]) simp_all
  with c show ?thesis by (auto simp: connect_step_def proceeds_def told_to_stop_def set_phase_def split: sum.split)
qed

lemma proceeds_wait: "senders_alive p \<Longrightarrow> mode p = Waiting d \<Longrightarrow> proceeds p (wait_step d n p)"
  by (auto simp: wait_step_def proceeds_def told_to_stop_def split: list.split TransportCommand.split)

lemma exchange_forwards:
  assumes "mode p = Online" and "senders_alive p" and "renderer_alive p" and "Shutdown \<notin> set (pending p)"
    and "\<forall>m. send m = Inr ()" and "parse_control_message from_json payload = Inr (Render r)"
    and "p' = plane_step t from_json p (Exchange send (Inr (Some payload)))"
  shows "forwarded p' = forwarded p @ [Render r] \<and> pending p' = tl (pending p) \<and> mode p' = Online \<and>
    token_slot p' = token_slot p \<and> (pending p = [] \<longrightarrow> wires p' = wires p)"
    and "plane.controller p = Unpoisoned c \<Longrightarrow>
      plane.controller p' = Unpoisoned \<lparr>ctl_generation = ctl_generation c + 1, ctl_phase = CtlConnected\<rparr>"
  using assms
  by (cases "pending p"; auto simp: plane_step_def exchange_step_def try_recv_step_def receive_def set_phase_def
      set_controller_phase_def set_phase_body_def Let_def split: TransportCommand.splits)+

lemma running_plane_step:
  assumes "plane_ok t p" and "i \<in> {Connect io, Exchange send r, Waited n}"
  shows "proceeds p (plane_step t from_json p i)" "plane_ok t (plane_step t from_json p i)"
proof -
  have alive: "senders_alive p" "renderer_alive p" using assms(1) by (simp_all add: plane_ok_def)
  show moved: "proceeds p (plane_step t from_json p i)"
    using assms(2) proceeds_connect proceeds_exchange [OF alive] proceeds_wait [OF alive(1)]
    by (auto simp: plane_step_def split: plane_mode.split)
  show "plane_ok t (plane_step t from_json p i)"
    using assms(1) moved introduced_step phase_step retry_ok_step by (simp add: plane_ok_def proceeds_def)
qed

text \<open>The links survive every turn.\<close>

lemma linked_shared:
  assumes "linked fw s" and "keeps (shared (device s)) f" and "net s' = send_all ms (net s)"
    and "shared (device s') = f" and "main_thread s' = main_thread s" and "taken s' \<le> length (forwarded (net s))"
  shows "linked fw s'"
  using assms send_all_keeps [of ms "net s"] by (simp add: linked_def keeps_def plane_ok_sends)

lemma linked_net:
  assumes "linked fw s" and "i \<in> {Connect io, Exchange send r, Waited n}"
  shows "linked fw (net_turn fw i s)"
proof -
  have ok: "plane_ok (transport fw) (net s)" using assms(1) by (simp add: linked_def)
  show ?thesis
    using assms(1) running_plane_step [OF ok assms(2), of "read_json fw"]
    by (auto simp: linked_def net_turn_def proceeds_def)
qed

lemma send_nothing [simp]: "send_all [] p = p"
  by (simp add: send_all_def)

lemma linked_render:
  assumes "linked fw s" shows "linked fw (render_turn io s)"
proof (cases "taken s < length (forwarded (net s))")
  case True
  obtain sent f alive where event: "handle_event (media_executor True) io (forwarded (net s) ! taken s) (shared (device s)) =
      (sent, f, alive)" by (metis prod_cases3)
  with True show ?thesis
    by (intro linked_shared [OF assms keeps_handle_event [OF event], of _ sent]) (simp_all add: render_turn_def set_shared_def)
qed (simp add: render_turn_def assms)

lemma linked_asking:
  assumes "linked fw s" and "keeps (shared (device s)) (fst (snd (ask (shared (device s), last_asked s))))"
  shows "linked fw (asking_turn ask s)"
proof -
  obtain sent f slot where ask: "ask (shared (device s), last_asked s) = (sent, f, slot)" by (metis prod_cases3)
  show ?thesis
    by (rule linked_shared [OF assms, of _ sent]) (use ask assms(1) in \<open>simp_all add: asking_turn_def linked_def\<close>)
qed

lemma linked_touch: "linked fw s \<Longrightarrow> linked fw (touch_turn p env s)"
proof -
  assume "linked fw s"
  then have finger: "linked fw (s\<lparr>finger := t\<rparr>)" for t by (simp add: linked_def)
  then show ?thesis
    using linked_asking [OF finger] keeps_tap by (simp add: touch_turn_def split: prod.split option.split)
qed

lemma linked_slide: "linked fw s \<Longrightarrow> linked fw (slide_turn fw rd s)"
  by (simp add: slide_turn_def linked_def set_shared_def split: prod.split)

lemma linked_give_up: "linked fw s \<Longrightarrow> linked fw (give_up s)"
  by (simp add: linked_def plane_ok_drop)

lemma linked_main:
  assumes "linked fw s" shows "linked fw (main_step fw env s)"
proof (cases "main_thread s")
  case Announcing
  have s1: "linked fw (s\<lparr>net := set_phase Searching (net s)\<rparr>)"
    using assms plane_ok_searching by (simp add: linked_def)
  then have "linked fw (s\<lparr>net := set_phase Searching (net s), device := (device s)\<lparr>glass_ui := u\<rparr>\<rparr>)" for u
    by (simp add: linked_def)
  moreover have "linked fw (s\<lparr>net := set_phase Searching (net s),
      device := (device s)\<lparr>glass_ui := u, last_offline_rotation := n\<rparr>, main_thread := Looping, reporting := True\<rparr>)" for u n
    using s1 Announcing by (simp add: linked_def)
  ultimately show ?thesis
    using s1 Announcing by (auto simp: main_step_def announce_def Let_def linked_give_up split: sum.split prod.split)
next
  case Looping
  obtain r d where turn: "main_turn (glyphs fw) (loop_state fw)
      (main_env.controller_update (\<lambda>_. plane.controller (net s)) env) (device s) = (r, d)" by force
  then have "keeps (shared (device s)) (shared d)"
    using keeps_rotation by (auto simp: main_turn_def Let_def split: prod.splits sum.splits if_splits)
  then have "linked fw (s\<lparr>device := d\<rparr>)" using assms by (simp add: linked_def keeps_def)
  with turn Looping show ?thesis by (simp add: main_step_def loop_turn_def linked_give_up split: sum.split)
qed (simp add: main_step_def assms)

lemma linked_step: "linked fw s \<Longrightarrow> linked fw (system_step fw s t)"
  using linked_asking [of fw s] keeps_health
  by (cases t) (auto simp: system_step_def linked_net linked_render linked_touch linked_slide linked_main)

lemma linked_start: "linked fw (system_start fw kept u)"
  by (simp add: linked_def plane_ok_def introduced_def phase_matches_def retry_ok_def told_to_stop_def plane_init_def
      controller_state_default_def backoff_new_def from_secs_def)

lemma linked_run: "linked fw (system_run fw (system_start fw kept u) ts)"
proof (induction ts rule: rev_induct)
  case Nil
  show ?case by (simp add: system_run_def linked_start)
qed (simp add: system_run_snoc linked_step)

end
