(* ===== verification/Running_Frame.thy ===== *)
theory Running_Frame
  imports Frame_System
begin

text \<open>
  What holds of the whole firmware from power-on: the photos reach the glass, the control plane comes back, and
  every status has its reason. The statements are over \<open>powers_up\<close>, the first half of \<open>run()\<close>, and any run of
  the system of \<open>Frame_System\<close>; the proofs rest on its two invariants, \<open>tracks\<close> (what the display shows)
  and \<open>linked\<close> (what the threads rely on from each other).
\<close>

section \<open>From power-on\<close>

text \<open>The first half of \<open>run()\<close>: start-up succeeds and the boot loop is left in the state \<open>b\<close>.\<close>

definition powers_up ::
  "font \<Rightarrow> startup_env \<Rightarrow> prov_env boot_env list \<Rightarrow> u8 list option \<Rightarrow> provisioning boot \<Rightarrow> bool" where
  "powers_up font senv envs flash b \<longleftrightarrow>
     (case start_up font senv create_provisioning_manager (Unpoisoned store_init) (Unpoisoned controller_state_default) flash of
        Inl e \<Rightarrow> False
      | Inr b0 \<Rightarrow> boot_loop ensure_network get_provisioning_ap_details font (Unpoisoned store_init)
                   (Unpoisoned controller_state_default) envs b0 = (Inr True, b))"

lemma ui_run_again:
  assumes "ui_run s u" and "sync font shown st (Unpoisoned s) ctl u = (Inr v, u')"
  shows "ui_run s u'"
  using ui_run.pass [OF assms(1), of "[]" font shown st ctl v u'] assms(2) by (simp add: store_run_def)

lemma start_up_display:
  assumes "start_up font env m (Unpoisoned s) ctl flash = Inr b" shows "ui_run s (ui b)"
proof -
  obtain ready wifi where init: "init_wifi_manager (wifi_created env) None = (ready, wifi)" by force
  obtain i n u0 where known: "identity env = Inr (i, n)" and made: "create_ui_on (panel_made env) = Inr u0"
    and "tracing_ready env = Inr ()" "peripherals_taken env = Inr ()" "event_loop_taken env = Inr ()" "ready = Inr ()"
    and "nvs_taken env = Inr ()" "open_store (namespace_opened env) = Inr ()"
    using assms by (auto simp: start_up_def and_then_Inr init Let_def)
  note up = assms [unfolded start_up_def init, unfolded this, simplified, unfolded Let_def]
  have fresh: "u0 = create_ui" using create_ui_on_Inr [OF made] .
  let ?st = "set_device_identity i n app_state_new"
  obtain r1 u1 where splash: "sync font (splash_drawn env) ?st (Unpoisoned s) ctl create_ui = (r1, u1)" by force
  obtain r2 u2 where second: "sync font (setup_drawn env) (begin_setup ?st) (Unpoisoned s) ctl u1 = (r2, u2)" by force
  have "r1 = Inr ()" using up splash fresh by (cases r1) auto
  moreover from this have "r2 = Inr ()" "ui b = u2" using up splash second fresh by (cases r2; auto)+
  ultimately have "sync font (splash_drawn env) ?st (Unpoisoned s) ctl create_ui = (Inr (), u1)"
    "sync font (setup_drawn env) (begin_setup ?st) (Unpoisoned s) ctl u1 = (Inr (), ui b)" using splash second by simp_all
  then show ?thesis using ui_run_again [OF ui_run_again [OF ui_run.boot]] by blast
qed

lemma boot_step_display:
  "boot_step tick details font (Unpoisoned s) ctl env b = (Inr d, b') \<Longrightarrow> ui_run s (ui b) \<Longrightarrow> ui_run s (ui b')"
  by (auto simp: boot_step_def Let_def split: prod.splits sum.splits if_splits intro: ui_run_again)

lemma boot_loop_display:
  "boot_loop tick details font (Unpoisoned s) ctl envs b = (Inr d, b') \<Longrightarrow> ui_run s (ui b) \<Longrightarrow> ui_run s (ui b')"
proof (induction envs arbitrary: b)
  case (Cons env envs)
  obtain r b1 where step: "boot_step tick details font (Unpoisoned s) ctl env b = (r, b1)" by force
  with Cons.prems(1) obtain go where r: "r = Inr go" by (cases r) auto
  have "ui_run s (ui b1)" using boot_step_display step r Cons.prems(2) by blast
  with Cons step r show ?case by (cases go) auto
qed simp

lemma powers_up_display: "powers_up font senv envs flash b \<Longrightarrow> ui_run store_init (ui b)"
  using start_up_display boot_loop_display by (fastforce simp: powers_up_def split: sum.splits)

text \<open>
  C1: the whole firmware shows its photos. From power-on, through setup and whatever the threads then do in
  whatever order -- the controller's photos, taps, the slideshow, top-ups from the card, rotations, reboots
  of the connection -- the photo store is usable and holds at most three photos, and every turn of the main
  loop that goes on leaves the photo at the front of the store, and nothing else, on the glass.
\<close>

theorem running_frame_shows_its_photos:
  assumes "powers_up font senv envs flash b"
    and "fw = load_firmware url json font read_dir sd (app (leave_boot_loop wrote b))"
    and "s = system_run fw (system_start fw kept (ui b)) ts" and "length ts < 2 ^ 60"
    and "powered s" and "main_thread s = Looping"
    and "s' = system_step fw s (MainTurn env)" and "main_thread s' = Looping"
  shows "\<exists>p. memory (shared (device s)) = Unpoisoned p \<and> length (buffer p) \<le> 3 \<and>
    (case front p of
       Some img \<Rightarrow> glass (panel (glass_ui (device s'))) = quarter_turn (rgb565 img)
     | None \<Rightarrow> \<forall>g. showing (glass_ui (device s')) \<noteq> Photo g)"
proof -
  have "tracks (5 * length ts) s" using tracks_run [OF powers_up_display [OF assms(1)] assms(4)] assms(3) by simp
  then obtain p ops where p: "photos_in s = Unpoisoned (store_run p ops)" "bounded (store_run p ops)"
    "length ops \<le> 5 * length ts" "ui_run p (display s)" using assms(6) by (auto simp: tracks_def)
  have few: "length ops < 2 ^ 64" using p(3) assms(4) by simp
  have s': "s' = loop_turn fw env s" using assms(5-7) by (simp add: system_step_def main_step_def)
  have "main_thread (loop_turn fw env s) \<noteq> Returned" using assms(8) s' by simp
  then have "sync (glyphs fw) (drawn env) (loop_state fw) (photos_in s) (plane.controller (net s)) (display s) =
      (Inr (), display s')"
    unfolding s' by (cases rule: loop_turn_cases [OF assms(6), of fw env]) simp_all
  from coherent_sync [OF _ few this [unfolded p(1)]] ui_run_coherent [OF p(4)] p(1,2) show ?thesis
    by (auto simp: bounded_def BUFFER_CAPACITY_def split: option.splits)
qed

section \<open>The frame stays on the network\<close>

definition came_online :: "WebSocketControlPlaneTransport \<Rightarrow> plane \<Rightarrow> plane \<Rightarrow> bool" where
  "came_online t p p' \<longleftrightarrow> mode p' = Online \<and> wires p' = [Connected (ws_device_id t) (ws_device_name t)] # wires p \<and>
     (\<exists>c. plane.controller p' = Unpoisoned c \<and> ctl_phase c = AwaitingConfiguration)"

lemma connect_turn_online:
  assumes "powered s" and "mode (net s) = Connecting" and "plane.controller (net s) = Unpoisoned c"
    and "ws_connect io (transport fw) = Inr wire"
  shows "came_online (transport fw) (net s) (net (system_step fw s (ConnectTurn io)))"
  using assms ws_connect_hello [OF assms(4)]
  by (simp add: came_online_def system_step_def net_turn_def plane_step_def connect_step_def set_phase_def
      set_controller_phase_def set_phase_body_def)

text \<open>The end of a delay leads to an attempt when nothing asks the control plane to stop.\<close>

lemma wait_turn_connects:
  assumes "powered s" and "mode (net s) = Waiting d" and "senders_alive (net s)" and "Shutdown \<notin> set (pending (net s))"
    and "s1 = system_step fw s (WaitTurn d :: 'h turn)"
  shows "powered s1 \<and> mode (net s1) = Connecting \<and> wires (net s1) = wires (net s) \<and>
    plane.controller (net s1) = plane.controller (net s)"
proof -
  have "net s1 = wait_step d d (net s)" "powered s1"
    using assms(1,2) by (simp_all add: assms(5) system_step_def net_turn_def plane_step_def)
  then show ?thesis
    using assms(3,4) by (cases "pending (net s)") (auto simp: wait_step_def split: TransportCommand.split)
qed

text \<open>
  C12: the control plane outlives everything but the main thread. Whatever the threads did, it has been told to
  stop exactly if the main thread has returned with an error; and otherwise, whenever the frame is offline, it is at
  most thirty seconds from its next attempt to connect, which brings it online, introduced, as soon as one can succeed.
\<close>

theorem running_frame_comes_back:
  fixes ts :: "'h turn list"
  assumes "s = system_run fw (system_start fw kept u) ts" and "powered s" and "ws_connect io (transport fw) = Inr wire"
  shows "(main_thread s = Returned \<longleftrightarrow> Shutdown \<in> set (pending (net s)) \<or> mode (net s) = Stopped) \<and>
    (main_thread s \<noteq> Returned \<and> mode (net s) \<noteq> Online \<longrightarrow>
      (\<exists>(back :: 'h turn list) s'. (back = [ConnectTurn io] \<or> (\<exists>d \<le> from_secs 30. mode (net s) = Waiting d \<and> back = [WaitTurn d, ConnectTurn io])) \<and>
        s' = system_run fw s back \<and> mode (net s') = Online \<and>
        wires (net s') = [Connected (ws_device_id (transport fw)) (ws_device_name (transport fw))] # wires (net s) \<and>
        (\<exists>c. plane.controller (net s') = Unpoisoned c \<and> ctl_phase c = AwaitingConfiguration)))"
proof -
  have linked: "linked fw s" unfolding assms(1) by (rule linked_run)
  obtain c where c: "plane.controller (net s) = Unpoisoned c"
    using linked by (auto simp: linked_def plane_ok_def phase_matches_def)
  have stop: "main_thread s = Returned \<longleftrightarrow> Shutdown \<in> set (pending (net s)) \<or> mode (net s) = Stopped"
    using linked by (simp add: linked_def told_to_stop_def)
  have "\<exists>back :: 'h turn list. (back = [ConnectTurn io] \<or>
      (\<exists>d \<le> from_secs 30. mode (net s) = Waiting d \<and> back = [WaitTurn d, ConnectTurn io])) \<and> came_online (transport fw) (net s) (net (system_run fw s back))"
    if running: "main_thread s \<noteq> Returned" "mode (net s) \<noteq> Online"
  proof (cases "mode (net s)")
    case Connecting
    with connect_turn_online [OF assms(2) _ c assms(3)] show ?thesis
      by (intro exI [of _ "[ConnectTurn io]"]) (simp add: system_run_one)
  next
    case (Waiting d)
    let ?s1 = "system_step fw s (WaitTurn d :: 'h turn)"
    have "d \<le> from_secs 30" "senders_alive (net s)" "Shutdown \<notin> set (pending (net s))"
      using linked Waiting running(1) stop by (auto simp: linked_def plane_ok_def retry_ok_def)
    then have s1: "powered ?s1" "mode (net ?s1) = Connecting" "wires (net ?s1) = wires (net s)"
        "plane.controller (net ?s1) = Unpoisoned c"
      using wait_turn_connects [OF assms(2) Waiting _ _ refl, of fw, where ?'h = 'h] c by simp_all
    with connect_turn_online [OF s1(1,2,4) assms(3)] Waiting \<open>d \<le> from_secs 30\<close> show ?thesis
      by (intro exI [of _ "[WaitTurn d, ConnectTurn io]"]) (auto simp: came_online_def system_run_def)
  qed (use running stop in simp_all)
  with stop show ?thesis unfolding came_online_def by blast
qed

section \<open>From the controller to the glass\<close>

lemma panel_bytes: "is_raw_pixels url (length bytes) \<Longrightarrow>
    image_from_rgb565_bytes bytes = Inr (panel_image bytes) \<and> WIDTH * HEIGHT \<le> length (decode_le bytes)"
  by (simp add: is_raw_pixels_def image_of_photo PHOTO_BYTES_def length_decode_le panel_sizes usize_mul_def usize_limit_def
      PANEL_LOGICAL_WIDTH_def PANEL_LOGICAL_HEIGHT_def)

lemma pixels_built: "is_raw_pixels url (length bytes) \<Longrightarrow> build_image io url bytes = Inr (panel_image bytes)"
  using panel_bytes by (simp add: build_image_def)

text \<open>What a request to show a photo leaves in the store, whichever form the photo came in.\<close>

lemma render_shows:
  assumes "memory f = Unpoisoned p" and "\<not> local_active f" and "\<not> queue r" and "correlation_id r = Some i"
    and "Option.bind (front p) image_id \<noteq> Some i"
    and "download_media (http_client io) (frame_token (frame_token_slot f)) (media_url r) = Inr bytes"
    and "build_image io (media_url r) bytes = Inr plain"
  obtains p' where "media_render io r f = (Inr (), f\<lparr>memory := Unpoisoned p'\<rparr>)"
    and "front p' = Some (with_id plain i)" and "generation p' = generation p + 1"
proof
  let ?img = "with_id plain i"
  have "\<not> same_id ?img p"
    using assms(5) by (auto simp: same_id_def with_id_def split: option.splits if_splits)
  then show "front (snd (show_body ?img p)) = Some ?img" "generation (snd (show_body ?img p)) = generation p + 1"
    by (simp_all add: show_body_def front_def)
  show "media_render io r f = (Inr (), f\<lparr>memory := Unpoisoned (snd (show_body ?img p))\<rparr>)"
    using assms
    by (simp add: media_render_def local_photos_active_def unwrap_or_default_def show_rendered_image_def)
qed

text \<open>A turn of the main loop on a working display puts up any photo of at least the panel's size.\<close>

lemma photo_goes_up:
  assumes "tracks k s" and "k < 2 ^ 64" and "powered s" and "main_thread s = Looping" and "drawn env = Inr ()"
    and "photos_in s = Unpoisoned p" and "front p = Some img" and "WIDTH * HEIGHT \<le> length (rgb565 img)"
  shows "main_thread (system_step fw s (MainTurn env)) = Looping \<and> net (system_step fw s (MainTurn env)) = net s \<and>
    glass (panel (display (system_step fw s (MainTurn env)))) = quarter_turn (rgb565 img)"
proof -
  obtain q ops where q: "photos_in s = Unpoisoned (store_run q ops)" "length ops \<le> k" "ui_run q (display s)"
    using assms(1,4) by (auto simp: tracks_def)
  have front: "front (store_run q ops) = Some img" and few: "length ops < 2 ^ 64" using q assms(2,6,7) by simp_all
  have ok: "fst (sync (glyphs fw) (drawn env) st (photos_in s) ctl (display s)) = Inr ()" for st ctl
    using sync_photo_ok [OF front assms(8)] assms(5) q(1) by simp
  have step: "system_step fw s (MainTurn env) = loop_turn fw env s"
    using assms(3,4) by (simp add: system_step_def main_step_def)
  show ?thesis
  proof (cases rule: loop_turn_cases [OF assms(4), of fw env])
    case (1 e u)
    with ok [of "loop_state fw" "plane.controller (net s)"] show ?thesis by simp
  next
    case 2
    from coherent_sync [OF _ few 2(2) [unfolded q(1)]] ui_run_coherent [OF q(3)] front 2(1,4) show ?thesis
      by (simp add: step)
  qed
qed

text \<open>What the exchange that brings a request and the render thread's next turn do.\<close>

lemma request_rendered:
  fixes fw :: firmware
  assumes linked: "linked fw s" and run: "powered s" "main_thread s = Looping" "mode (net s) = Online"
    and idle: "taken s = length (forwarded (net s))" "lib_is_empty (library fw)" "\<forall>m. send m = Inr ()"
    and request: "parse_control_message (read_json fw) payload = Inr (Render r)" "\<not> queue r" "correlation_id r = Some i"
    and photos: "photos_in s = Unpoisoned p" "Option.bind (front p) image_id \<noteq> Some i"
    and download: "download_media (http_client io) (frame_token (token_slot (net s))) (media_url r) = Inr bytes"
    and built: "build_image io (media_url r) bytes = Inr plain"
    and s2: "s2 = system_run fw s [ExchangeTurn send (Inr (Some payload)) :: 'h turn, RenderTurn io]"
  obtains p' c where "powered s2" and "main_thread s2 = Looping" and "photos_in s2 = Unpoisoned p'"
    and "front p' = Some (with_id plain i)" and "generation p' = generation p + 1" and "display s2 = display s"
    and "pending (net s2) = tl (pending (net s)) @
      [SendStatus (RenderStarted (media_url r) (Some i)), SendStatus (RenderCompleted (media_url r) (Some i))]"
    and "plane.controller (net s2) = Unpoisoned c" and "ctl_phase c = CtlConnected"
    and "mode (net s2) = Online" and "pending (net s) = [] \<Longrightarrow> wires (net s2) = wires (net s)"
proof -
  have alive: "senders_alive (net s)" "renderer_alive (net s)" "Shutdown \<notin> set (pending (net s))"
    using linked run(2) by (auto simp: linked_def plane_ok_def told_to_stop_def)
  obtain c where c: "plane.controller (net s) = Unpoisoned c"
    using linked by (auto simp: linked_def plane_ok_def phase_matches_def)
  let ?s1 = "system_step fw s (ExchangeTurn send (Inr (Some payload)) :: 'h turn)"
  let ?sent = "[RenderStarted (media_url r) (Some i), RenderCompleted (media_url r) (Some i)]"
  have net1: "net ?s1 = plane_step (transport fw) (read_json fw) (net s) (Exchange send (Inr (Some payload)))"
    using run(1) by (simp add: system_step_def net_turn_def)
  note fwd = exchange_forwards [OF run(3) alive idle(3) request(1) net1]
  have rest: "photos_in ?s1 = Unpoisoned p" "main_thread ?s1 = Looping" "powered ?s1" "taken ?s1 = taken s"
    "display ?s1 = display s"
    using run(1,2) photos(1) by (simp_all add: system_step_def) (simp_all add: net_turn_def)
  have "linked fw ?s1" by (rule linked_step [OF linked])
  then have "\<not> local_active (shared (device ?s1))"
    "download_media (http_client io) (frame_token (frame_token_slot (shared (device ?s1)))) (media_url r) = Inr bytes"
    using idle(2) download fwd(1) by (simp_all add: linked_def)
  from render_shows [OF rest(1) this(1) request(2,3) photos(2) this(2) built]
  obtain p' where render: "media_render io r (shared (device ?s1)) = (Inr (), (shared (device ?s1))\<lparr>memory := Unpoisoned p'\<rparr>)"
    and img: "front p' = Some (with_id plain i)" "generation p' = generation p + 1" by blast
  have "s2 = set_shared ((shared (device ?s1))\<lparr>memory := Unpoisoned p'\<rparr>)
      (?s1\<lparr>net := send_all ?sent (net ?s1), taken := taken ?s1 + 1, powered := True\<rparr>)"
    using rest fwd(1) idle(1) request(3) render
    by (simp add: s2 system_run_def system_step_def [of fw ?s1] render_turn_def handle_event_def media_executor_def
        render_report_def nth_append)
  then show thesis
    using that [of p'] img rest(2,5) fwd(1) fwd(2) [OF c] send_all_keeps [of ?sent "net ?s1"] by simp
qed

text \<open>
  C2: a photo the controller asks for reaches the glass of the running frame. In any reachable state with the
  connection open, the main loop running, the render thread idle and no photos of the owner's on the card,
  three turns are enough: when a valid request to show raw pixels arrives, the render thread downloads
  them with the token of the last claim, and the main loop runs on a working display, then exactly those
  pixels, turned, are on the glass, and the start and the completion are queued for the controller under the
  request's own URL and correlation id, behind what was waiting.
\<close>

theorem requested_photo_appears:
  fixes ts :: "'h turn list"
  assumes "powers_up font senv envs flash b"
    and "fw = load_firmware url json font read_dir sd (app (leave_boot_loop wrote b))"
    and "s = system_run fw (system_start fw kept (ui b)) ts" and "length ts < 2 ^ 59"
    and "powered s" and "main_thread s = Looping" and "mode (net s) = Online"
    and "taken s = length (forwarded (net s))" and "lib_is_empty (library fw)" and "\<forall>m. send m = Inr ()"
    and "parse_control_message json payload = Inr (Render r)" and "\<not> queue r" and "correlation_id r = Some i"
    and "\<forall>p. memory (shared (device s)) = Unpoisoned p \<longrightarrow> Option.bind (front p) image_id \<noteq> Some i"
    and "download_media (http_client io) (frame_token (token_slot (net s))) (media_url r) = Inr bytes"
    and "is_raw_pixels (media_url r) (length bytes)" and "drawn env = Inr ()"
    and "s' = system_run fw s [ExchangeTurn send (Inr (Some payload)) :: 'h turn, RenderTurn io, MainTurn env]"
  shows "glass (panel (glass_ui (device s'))) = quarter_turn (decode_le bytes) \<and> main_thread s' = Looping \<and>
    pending (net s') = tl (pending (net s)) @
      [SendStatus (RenderStarted (media_url r) (Some i)), SendStatus (RenderCompleted (media_url r) (Some i))] \<and>
    (\<exists>c. plane.controller (net s') = Unpoisoned c \<and> ctl_phase c = CtlConnected)"
proof -
  have linked: "linked fw s" unfolding assms(3) by (rule linked_run)
  have tracks: "tracks (5 * length ts) s" unfolding assms(3)
    by (rule tracks_run [OF powers_up_display [OF assms(1)]]) (use assms(4) in simp)
  then obtain p where p: "photos_in s = Unpoisoned p" "Option.bind (front p) image_id \<noteq> Some i"
    using assms(14) by (auto simp: tracks_def)
  have json: "parse_control_message (read_json fw) payload = Inr (Render r)"
    using assms(2,11) by (simp add: load_firmware_def)
  let ?s2 = "system_run fw s [ExchangeTurn send (Inr (Some payload)) :: 'h turn, RenderTurn io]"
  let ?img = "with_id (panel_image bytes) i"
  obtain p' c where s2: "powered ?s2" "main_thread ?s2 = Looping" "photos_in ?s2 = Unpoisoned p'" "front p' = Some ?img"
      "pending (net ?s2) = tl (pending (net s)) @
        [SendStatus (RenderStarted (media_url r) (Some i)), SendStatus (RenderCompleted (media_url r) (Some i))]"
      "plane.controller (net ?s2) = Unpoisoned c" "ctl_phase c = CtlConnected"
    by (rule request_rendered [OF linked assms(5-10) json assms(12,13) p assms(15) pixels_built [OF assms(16)] refl]) blast
  have img: "rgb565 ?img = decode_le bytes" "WIDTH * HEIGHT \<le> length (rgb565 ?img)"
    using panel_bytes [OF assms(16)] by (simp_all add: with_id_def panel_image_def)
  have few: "5 * length ts < 2 ^ 64" "5 * length ts + 5 < 2 ^ 64" "5 * length ts + 5 + 5 < 2 ^ 64" using assms(4) by simp_all
  have "tracks (5 * length ts + 5 + 5) ?s2" unfolding system_run_def foldl.simps by (intro tracks_step tracks few)
  from photo_goes_up [OF this few(3) s2(1,2) assms(17) s2(3,4) img(2)]
  have "main_thread s' = Looping \<and> net s' = net ?s2 \<and> glass (panel (display s')) = quarter_turn (rgb565 ?img)"
    unfolding assms(18) by (simp add: system_run_def)
  with s2 img show ?thesis by simp
qed

section \<open>Every status has its reason\<close>

text \<open>
  A status is explained when it answers, with the right URL and correlation id, an event that the render
  thread has taken, or asks for one to four photos, or reports the frame's health.
\<close>

definition explained :: "system \<Rightarrow> OutboundStatusMessage \<Rightarrow> bool" where
  "explained s m \<longleftrightarrow>
     (\<exists>e \<in> set (take (taken s) (forwarded (net s))). \<exists>sent. answers e sent \<and> m \<in> set sent) \<or>
     small_request m \<or> (\<exists>h. m = Health h)"

definition all_explained :: "system \<Rightarrow> bool" where
  "all_explained s \<longleftrightarrow> (\<forall>m \<in> set (in_flight (net s)). explained s m)"

lemma in_flight_sends: "set (in_flight (send_all ms p)) \<subseteq> set (in_flight p) \<union> set ms"
  using send_all_keeps [of ms p]
  by (auto simp: in_flight_def sent_statuses_def queued_statuses_def status_of_def split: if_splits)

lemma in_flight_drop: "in_flight (drop_runtime p) = in_flight p"
  by (simp add: drop_runtime_def send_command_def in_flight_def sent_statuses_def queued_statuses_def status_of_def)

lemma in_flight_running:
  assumes "introduced t p" and "i \<in> {Connect io, Exchange send r, Waited n}"
  shows "set (in_flight (plane_step t from_json p i)) \<subseteq> set (in_flight p)"
proof -
  have "enqueued [i] = []" using assms(2) by (auto simp: enqueued_def)
  then have "subseq (in_flight (plane_step t from_json p i)) (in_flight p)"
    using in_flight_step [OF assms(1), of from_json i] by simp
  then show ?thesis by (auto elim: list_emb_set)
qed

lemma explained_later:
  "explained s m \<Longrightarrow> taken s \<le> taken s' \<Longrightarrow> forwarded (net s') = forwarded (net s) @ later \<Longrightarrow>
   taken s \<le> length (forwarded (net s)) \<Longrightarrow> explained s' m"
  unfolding explained_def by (auto simp: take_append dest: set_take_subset_set_take [THEN subsetD])

lemma explained_turn:
  assumes "linked fw s" and "all_explained s" and "taken s \<le> taken s'" and "net s' = send_all ms (net s)"
    and "\<forall>m \<in> set ms. explained s' m"
  shows "all_explained s'"
proof -
  have "forwarded (net s') = forwarded (net s) @ []" using assms(4) send_all_keeps [of ms "net s"] by simp
  from explained_later [OF _ assms(3) this] show ?thesis
    using assms in_flight_sends [of ms "net s"] by (auto simp: all_explained_def linked_def)
qed

lemma explained_net:
  assumes "linked fw s" and "all_explained s" and "i \<in> {Connect io, Exchange send r, Waited n}"
  shows "all_explained (net_turn fw i s)"
proof -
  have ok: "plane_ok (transport fw) (net s)" using assms(1) by (simp add: linked_def)
  have net: "net (net_turn fw i s) = plane_step (transport fw) (read_json fw) (net s) i"
    "taken (net_turn fw i s) = taken s" by (simp_all add: net_turn_def)
  obtain later where "forwarded (net (net_turn fw i s)) = forwarded (net s) @ later"
    using running_plane_step(1) [OF ok assms(3), of "read_json fw"] by (auto simp: net proceeds_def)
  from explained_later [OF _ _ this] have "explained (net_turn fw i s) m" if "explained s m" for m
    using that assms(1) by (simp add: net linked_def)
  moreover have "introduced (transport fw) (net s)" using ok by (simp add: plane_ok_def)
  from in_flight_running [OF this assms(3)] have "set (in_flight (net (net_turn fw i s))) \<subseteq> set (in_flight (net s))"
    by (simp add: net)
  ultimately show ?thesis using assms(2) by (auto simp: all_explained_def)
qed

lemma explained_render:
  assumes "linked fw s" and "all_explained s"
  shows "all_explained (render_turn io s)"
proof (cases "taken s < length (forwarded (net s))")
  case True
  let ?e = "forwarded (net s) ! taken s"
  obtain sent f alive where event: "handle_event (media_executor True) io ?e (shared (device s)) = (sent, f, alive)"
    by (metis prod_cases3)
  have turn: "render_turn io s = set_shared f (s\<lparr>net := send_all sent (net s), taken := taken s + 1, powered := alive\<rparr>)"
    using True event by (simp add: render_turn_def)
  have mem: "?e \<in> set (take (taken s + 1) (forwarded (net s)))" using True by (simp add: take_Suc_conv_app_nth)
  have "\<forall>m \<in> set sent. \<exists>sent. answers ?e sent \<and> m \<in> set sent"
  proof (cases alive)
    case True
    with event have "answers ?e sent" by (auto intro: handle_event_answers)
    then show ?thesis by blast
  next
    case False
    then have "sent = []"
      using event by (auto simp: handle_event_def split: ControlEvent.splits DeviceCommand.splits prod.splits option.splits)
    then show ?thesis by simp
  qed
  then have "\<forall>m \<in> set sent. explained (render_turn io s) m"
    using mem send_all_keeps [of sent "net s"] by (auto simp: turn explained_def)
  then show ?thesis by (intro explained_turn [OF assms, of _ sent]) (simp_all add: turn)
next
  case False
  then show ?thesis using assms by (simp add: render_turn_def)
qed

lemma explained_asking:
  assumes "linked fw s" and "all_explained s"
    and "\<forall>m \<in> set (fst (ask (shared (device s), last_asked s))). small_request m \<or> (\<exists>h. m = Health h)"
  shows "all_explained (asking_turn ask s)"
proof -
  obtain sent f slot where ask: "ask (shared (device s), last_asked s) = (sent, f, slot)" by (metis prod_cases3)
  show ?thesis
    by (rule explained_turn [OF assms(1,2), of _ sent]) (use ask assms(3) in \<open>auto simp: asking_turn_def explained_def\<close>)
qed

lemma request_explained: "\<forall>m \<in> set (fst (request_more_photos env (f, slot))). small_request m \<or> (\<exists>h. m = Health h)"
proof -
  obtain sent f' slot' where one: "request_more_photos env (f, slot) = (sent, f', slot')" by (metis prod_cases3)
  from request_cases [OF this] one show ?thesis by auto
qed

lemma health_explained: "\<forall>m \<in> set (fst (health_turn sd source env (f, slot))). small_request m \<or> (\<exists>h. m = Health h)"
  using request_explained [of env f slot] by (auto simp: health_turn_def Let_def split: prod.splits)

lemma tap_explained: "\<forall>m \<in> set (fst (on_tap env (f, slot))). small_request m \<or> (\<exists>h. m = Health h)"
  using request_explained by (auto simp: on_tap_def Let_def split: prod.splits sum.splits if_splits)

lemma explained_same:
  "all_explained s \<Longrightarrow> taken s' = taken s \<Longrightarrow> forwarded (net s') = forwarded (net s) \<Longrightarrow>
   in_flight (net s') = in_flight (net s) \<Longrightarrow> all_explained s'"
  by (simp add: all_explained_def explained_def)

lemma explained_touch:
  assumes "linked fw s" and "all_explained s"
  shows "all_explained (touch_turn p env s)"
proof -
  have finger: "linked fw (s\<lparr>finger := t\<rparr>)" "all_explained (s\<lparr>finger := t\<rparr>)" for t
    using assms by (simp_all add: linked_def all_explained_def explained_def)
  then have "all_explained (asking_turn (on_tap env) (s\<lparr>finger := t\<rparr>))" for t
    by (rule explained_asking) (rule tap_explained)
  then show ?thesis
    using finger by (simp add: touch_turn_def split: prod.split option.split)
qed

lemma explained_main:
  assumes "linked fw s" and "all_explained s"
  shows "all_explained (main_step fw env s)"
proof (rule explained_same [OF assms(2)])
  show "taken (main_step fw env s) = taken s"
    by (simp add: main_step_def announce_def loop_turn_def Let_def split: main_at.split sum.split prod.split)
  show "forwarded (net (main_step fw env s)) = forwarded (net s)"
    by (simp add: main_step_def announce_def loop_turn_def Let_def plane_ok_drop plane_ok_searching
        split: main_at.split sum.split prod.split)
  show "in_flight (net (main_step fw env s)) = in_flight (net s)"
    by (simp add: main_step_def announce_def loop_turn_def Let_def in_flight_drop
        split: main_at.split sum.split prod.split)
qed

lemma explained_slide: "all_explained s \<Longrightarrow> all_explained (slide_turn fw rd s)"
  by (erule explained_same) (simp_all add: slide_turn_def split: prod.split)

lemma explained_step:
  assumes "linked fw s" and "all_explained s"
  shows "all_explained (system_step fw s t)"
  using assms explained_net [OF assms] explained_render [OF assms] explained_touch [OF assms] explained_main [OF assms]
    explained_asking [OF assms] health_explained
  by (cases t) (simp_all add: system_step_def explained_slide)

lemma explained_run: "all_explained (system_run fw (system_start fw kept u) ts)"
proof (induction ts rule: rev_induct)
  case Nil
  show ?case by (simp add: system_run_def all_explained_def in_flight_def sent_statuses_def queued_statuses_def)
qed (simp add: system_run_snoc explained_step [OF linked_run])

text \<open>
  C14: the controller is told nothing but the truth about its own requests. On every connection the running frame
  ever has, its introduction comes first, and every status after it either answers, with the
  URL and correlation id of the request, an event that the controller had sent and the render thread had
  taken, or asks for one to four photos, or is a health report.
\<close>

theorem every_status_has_its_reason:
  assumes "s = system_run fw (system_start fw kept u) ts" and "wire \<in> set (wires (net s))"
  shows "\<exists>rest. wire = Connected (ws_device_id (transport fw)) (ws_device_name (transport fw)) # rest \<and>
    (\<forall>m \<in> set rest. (\<exists>e \<in> set (take (taken s) (forwarded (net s))). \<exists>sent. answers e sent \<and> m \<in> set sent) \<or>
       small_request m \<or> (\<exists>h. m = Health h))"
proof -
  have "introduced (transport fw) (net s)"
    unfolding assms(1) using linked_run [of fw kept u ts] by (simp add: linked_def plane_ok_def)
  then obtain rest where wire: "wire = Connected (ws_device_id (transport fw)) (ws_device_name (transport fw)) # rest"
    using assms(2) by (auto simp: introduced_def)
  have "set rest \<subseteq> set (in_flight (net s))"
    using assms(2) wire by (force simp: in_flight_def sent_statuses_def)
  then have "\<forall>m \<in> set rest. explained s m"
    using explained_run [of fw kept u ts] assms(1) by (auto simp: all_explained_def)
  with wire show ?thesis by (auto simp: explained_def)
qed

section \<open>Sample runs of the system\<close>

definition show_json :: "string \<Rightarrow> string + IncomingControlMessage" where
  "show_json text = Inr \<lparr>in_media_url = Some ''p?format=rgb565'', in_transition_type = None, in_brightness = Some 50,
     in_correlation_id = Some ''a1'', in_cmd = None, in_registration = None, in_queue = False\<rparr>"

definition show_request :: RenderRequest where
  "show_request = \<lparr>media_url = ''p?format=rgb565'', correlation_id = Some ''a1'',
     presentation = \<lparr>transition_type = None, brightness = Some 50\<rparr>, queue = False\<rparr>"

lemma show_json_parses: "parse_control_message show_json payload = Inr (Render show_request)"
proof -
  have "str_trim ''p?format=rgb565'' = ''p?format=rgb565''" by code_simp
  then show ?thesis
    by (simp add: parse_control_message_def show_json_def show_request_def validate_control_message_def validate_action_def
        action_count_def count_some_def)
qed

definition good_start :: startup_env where
  "good_start = \<lparr>tracing_ready = Inr (), peripherals_taken = Inr (), event_loop_taken = Inr (), wifi_created = Inr idle_radio,
     identity = Inr (''esp32p4-1'', ''Kitchen''), nvs_taken = Inr (), namespace_opened = Inr (),
     panel_made = \<lparr>display_created = Inr (), null_handle = False, backlight_lit = Inr ()\<rparr>, splash_drawn = Inr (),
     setup_drawn = Inr (), boot_wrote = Inr (), splash_wrote = Inr (), setup_wrote = Inr ()\<rparr>"

lemma sample_power_on: "\<exists>b. powers_up blank_font good_start [good_turn home_env] None b"
proof -
  obtain u1 where "sync blank_font (Inr ()) (set_device_identity ''esp32p4-1'' ''Kitchen'' app_state_new) (Unpoisoned store_init)
      (Unpoisoned controller_state_default) create_ui = (Inr (), u1)" by (rule good_sync)
  moreover obtain u2 where "sync blank_font (Inr ()) (begin_setup (set_device_identity ''esp32p4-1'' ''Kitchen'' app_state_new))
      (Unpoisoned store_init) (Unpoisoned controller_state_default) u1 = (Inr (), u2)" by (rule good_sync)
  ultimately obtain b0 where b0: "start_up blank_font good_start create_provisioning_manager (Unpoisoned store_init)
      (Unpoisoned controller_state_default) None = Inr b0" "prov b0 = new_manager"
    by (simp add: start_up_def good_start_def open_store_def init_wifi_manager_def create_ui_on_def init_panel_def
        create_ui_def new_manager_def Let_def)
  obtain m where tick: "ensure_network home_env new_manager = (Inr NetConnected, m)"
    using home_env_connects by blast
  obtain u3 where "sync blank_font (Inr ()) (set_network_phase NetConnected (app b0))
      (Unpoisoned store_init) (Unpoisoned controller_state_default) (ui b0) = (Inr (), u3)"
    by (rule good_sync)
  moreover have "network_phase (set_network_phase NetConnected st) = NetConnected" for st
    by (simp add: set_network_phase_def clear_provisioning_details_def Let_def)
  ultimately show ?thesis using tick b0 by (simp add: powers_up_def boot_step_def Let_def)
qed

text \<open>A frame without a card, told where its controller is by the default address.\<close>

definition sample_firmware :: "AppState \<Rightarrow> firmware" where
  "sample_firmware st = load_firmware None show_json blank_font (\<lambda>_. Inl (Msg ''no card'')) NotPresent st"

lemma sample_firmware_simps [simp]:
  "lib_is_empty (library (sample_firmware st))" "read_json (sample_firmware st) = show_json"
  by (simp_all add: sample_firmware_def load_firmware_def choose_library_def is_ready_def library_default_def
      lib_is_empty_def)

definition connecting_turns :: "unit turn list" where
  "connecting_turns = [ConnectTurn up_io, MainTurn (away_env 0)]"

lemma up_io_connects_any: "ws_connect up_io t = Inr [Connected (ws_device_id t) (ws_device_name t)]"
  by (simp add: ws_connect_def up_io_def option_context_def ws_send_status_def Let_def)

text \<open>Connected, and in the main loop, with nothing on screen.\<close>

lemma sample_running:
  assumes "s = system_run (sample_firmware st) (system_start (sample_firmware st) [] u) connecting_turns"
  shows "powered s" "main_thread s = Looping" "mode (net s) = Online" "taken s = 0" "forwarded (net s) = []"
    "pending (net s) = []" "photos_in s = Unpoisoned store_init" "token_slot (net s) = Unpoisoned None"
    "wires (net s) = [[Connected (ws_device_id (transport (sample_firmware st))) (ws_device_name (transport (sample_firmware st)))]]"
proof -
  let ?fw = "sample_firmware st"
  let ?s1 = "system_step ?fw (system_start ?fw [] u) (ConnectTurn up_io :: unit turn)"
  have s1: "powered ?s1" "main_thread ?s1 = Announcing" "mode (net ?s1) = Online" "taken ?s1 = 0" "forwarded (net ?s1) = []"
    "pending (net ?s1) = []" "photos_in ?s1 = Unpoisoned store_init" "token_slot (net ?s1) = Unpoisoned None"
    "plane.controller (net ?s1) \<noteq> Poisoned"
    "wires (net ?s1) = [[Connected (ws_device_id (transport ?fw)) (ws_device_name (transport ?fw))]]"
    by (simp_all add: system_step_def) (simp_all add: net_turn_def plane_step_def connect_step_def up_io_connects_any
        set_phase_def plane_init_def)
  obtain c where c: "plane.controller (set_phase Searching (net ?s1)) = Unpoisoned c"
    using s1(9) by (cases "plane.controller (net ?s1)") (simp_all add: set_phase_def set_controller_phase_def)
  obtain u1 where up: "sync (glyphs ?fw) (Inr ()) (loop_state ?fw) (Unpoisoned store_init) (Unpoisoned c) (display ?s1) = (Inr (), u1)"
    by (rule good_sync)
  have drawn: "drawn (away_env 0) = Inr ()" by (simp add: away_env_def)
  have set: "fst (set_controller_phase Searching (plane.controller (net ?s1))) = Inr ()"
    using s1(9) by (cases "plane.controller (net ?s1)") (simp_all add: set_controller_phase_def)
  have "s = announce ?fw (away_env 0) ?s1"
    using s1(1,2) by (simp add: assms connecting_turns_def system_run_def system_step_def [of ?fw ?s1] main_step_def)
  then have s: "s = ?s1\<lparr>net := set_phase Searching (net ?s1),
      device := (device ?s1)\<lparr>glass_ui := u1, last_offline_rotation := rotated_at (away_env 0)\<rparr>,
      main_thread := Looping, reporting := True\<rparr>"
    using s1(7) up c drawn set by (simp add: announce_def)
  show "powered s" "main_thread s = Looping" "mode (net s) = Online" "taken s = 0" "forwarded (net s) = []"
    "pending (net s) = []" "photos_in s = Unpoisoned store_init" "token_slot (net s) = Unpoisoned None"
    "wires (net s) = [[Connected (ws_device_id (transport ?fw)) (ws_device_name (transport ?fw))]]"
    unfolding s using s1 by (simp_all add: plane_ok_searching) (simp_all add: set_phase_def)
qed

text \<open>The request of \<open>show_json\<close>, and what the network then gives.\<close>

lemma show_request_simps [simp]:
  "\<not> queue show_request" "correlation_id show_request = Some ''a1''" "media_url show_request = ''p?format=rgb565''"
  by (simp_all add: show_request_def)

lemma pixels_download: "download_media (http_client pixel_io) token ''p?format=rgb565'' = Inr black_photo"
  by (simp add: pixel_io_def offline_io_def download_media_def pixel_http_def black_photo_facts)

definition asking_turns :: "unit turn list" where
  "asking_turns = [ExchangeTurn (\<lambda>_. Inr ()) (Inr (Some ''show'')), RenderTurn pixel_io]"

theorem requested_photo_appears_witness:
  "\<exists>b s'. powers_up blank_font good_start [good_turn home_env] None b \<and>
     s' = system_run (sample_firmware (app (leave_boot_loop (Inr ()) b)))
            (system_start (sample_firmware (app (leave_boot_loop (Inr ()) b))) [] (ui b))
            (connecting_turns @ asking_turns @ [MainTurn (away_env 0)]) \<and>
     glass (panel (glass_ui (device s'))) = quarter_turn (decode_le black_photo) \<and>
     pending (net s') = [SendStatus (RenderStarted ''p?format=rgb565'' (Some ''a1'')),
       SendStatus (RenderCompleted ''p?format=rgb565'' (Some ''a1''))]"
proof -
  obtain b where b: "powers_up blank_font good_start [good_turn home_env] None b" using sample_power_on by blast
  let ?st = "app (leave_boot_loop (Inr ()) b)"
  let ?fw = "sample_firmware ?st"
  let ?s = "system_run ?fw (system_start ?fw [] (ui b)) connecting_turns"
  note s = sample_running [OF refl, of ?st "ui b"]
  have small: "length connecting_turns < 2 ^ 59" by (simp add: connecting_turns_def)
  have idle: "taken ?s = length (forwarded (net ?s))" using s(4,5) by simp
  have blank: "\<forall>p. photos_in ?s = Unpoisoned p \<longrightarrow> Option.bind (front p) image_id \<noteq> Some ''a1''"
    using s(7) by (simp add: store_init_def front_def)
  have raw: "is_raw_pixels (media_url show_request) (length black_photo)" using raw_pixels_example by simp
  have drawn: "drawn (away_env 0) = Inr ()" by (simp add: away_env_def)
  from requested_photo_appears [where send = "\<lambda>_. Inr ()" and payload = "''show''" and io = pixel_io,
      OF b sample_firmware_def refl small s(1,2,3) idle _ _ show_json_parses _ _ blank _ raw drawn refl]
  show ?thesis
    using b s(6) pixels_download
    by (intro exI [of _ b] exI conjI) (auto simp: system_run_def asking_turns_def foldl_append)
qed

lemma sample_rendered:
  assumes "powers_up blank_font good_start [good_turn home_env] None b" and "st = app (leave_boot_loop (Inr ()) b)"
    and "s2 = system_run (sample_firmware st) (system_start (sample_firmware st) [] (ui b)) (connecting_turns @ asking_turns)"
  obtains p img where "powered s2" and "main_thread s2 = Looping" and "photos_in s2 = Unpoisoned p" and "front p = Some img"
    and "rgb565 img = decode_le black_photo" and "WIDTH * HEIGHT \<le> length (rgb565 img)" and "mode (net s2) = Online"
    and "pending (net s2) = [SendStatus (RenderStarted ''p?format=rgb565'' (Some ''a1'')),
       SendStatus (RenderCompleted ''p?format=rgb565'' (Some ''a1''))]"
    and "wires (net s2) = [[Connected (ws_device_id (transport (sample_firmware st))) (ws_device_name (transport (sample_firmware st)))]]"
proof -
  let ?s = "system_run (sample_firmware st) (system_start (sample_firmware st) [] (ui b)) connecting_turns"
  note s = sample_running [OF refl, of st "ui b"]
  have idle: "taken ?s = length (forwarded (net ?s))" using s(4,5) by simp
  have front: "Option.bind (front store_init) image_id \<noteq> Some ''a1''" by simp
  have raw: "is_raw_pixels (media_url show_request) (length black_photo)" using raw_pixels_example by simp
  have download: "download_media (http_client pixel_io) (frame_token (token_slot (net ?s))) (media_url show_request) = Inr black_photo"
    by (simp add: pixels_download)
  have parse: "parse_control_message (read_json (sample_firmware st)) ''show'' = Inr (Render show_request)"
    by (simp add: show_json_parses)
  have s2: "s2 = system_run (sample_firmware st) ?s asking_turns" by (simp add: assms(3) system_run_def)
  have empty: "lib_is_empty (library (sample_firmware st))" "\<forall>m. (\<lambda>_ :: OutboundStatusMessage. Inr () :: unit result) m = Inr ()"
    by simp_all
  have img: "rgb565 (with_id (panel_image black_photo) i) = decode_le black_photo"
      "WIDTH * HEIGHT \<le> length (rgb565 (with_id (panel_image black_photo) i))" for i
    using panel_bytes [OF raw] by (simp_all add: with_id_def panel_image_def)
  show thesis
    by (rule request_rendered [OF linked_run s(1-3) idle empty parse show_request_simps(1,2) s(7) front download
          pixels_built [OF raw] s2 [unfolded asking_turns_def]])
      (rule that; (assumption | rule img | simp add: s(6,9)))
qed

theorem running_frame_shows_its_photos_witness:
  "\<exists>b s s'. powers_up blank_font good_start [good_turn home_env] None b \<and>
     s = system_run (sample_firmware (app (leave_boot_loop (Inr ()) b)))
           (system_start (sample_firmware (app (leave_boot_loop (Inr ()) b))) [] (ui b)) (connecting_turns @ asking_turns) \<and>
     s' = system_step (sample_firmware (app (leave_boot_loop (Inr ()) b))) s (MainTurn (away_env 0) :: unit turn) \<and>
     glass (panel (glass_ui (device s'))) = quarter_turn (decode_le black_photo)"
proof -
  obtain b where b: "powers_up blank_font good_start [good_turn home_env] None b" using sample_power_on by blast
  let ?fw = "sample_firmware (app (leave_boot_loop (Inr ()) b))"
  let ?s = "system_run ?fw (system_start ?fw [] (ui b)) (connecting_turns @ asking_turns)"
  let ?s' = "system_step ?fw ?s (MainTurn (away_env 0) :: unit turn)"
  have few: "length (connecting_turns @ asking_turns) < 2 ^ 60" by (simp add: connecting_turns_def asking_turns_def)
  obtain p img where s: "powered ?s" "main_thread ?s = Looping" "photos_in ?s = Unpoisoned p" "front p = Some img"
      "rgb565 img = decode_le black_photo" "WIDTH * HEIGHT \<le> length (rgb565 img)"
    by (rule sample_rendered [OF b refl refl])
  have drawn: "drawn (away_env 0) = Inr ()" by (simp add: away_env_def)
  have few': "5 * length (connecting_turns @ asking_turns) < 2 ^ 64" by (simp add: connecting_turns_def asking_turns_def)
  have "main_thread ?s' = Looping"
    using photo_goes_up [OF tracks_run [OF powers_up_display [OF b] few] few' s(1,2) drawn s(3,4,6)] by blast
  from running_frame_shows_its_photos [OF b sample_firmware_def refl few s(1,2) refl this] s(3-5)
  have "glass (panel (glass_ui (device ?s'))) = quarter_turn (decode_le black_photo)" by auto
  with b show ?thesis by blast
qed

definition outage_turns :: "unit turn list" where
  "outage_turns = [ConnectTurn down_io]"

theorem running_frame_comes_back_witness:
  "\<exists>s s'. s = system_run (sample_firmware app_state_new) (system_start (sample_firmware app_state_new) [] create_ui) outage_turns \<and>
     mode (net s) = Waiting (from_secs 1) \<and>
     s' = system_run (sample_firmware app_state_new) s [WaitTurn (from_secs 1), ConnectTurn up_io :: unit turn] \<and> mode (net s') = Online"
proof -
  let ?fw = "sample_firmware app_state_new"
  let ?s = "system_run ?fw (system_start ?fw [] create_ui) outage_turns"
  obtain e where "ws_connect down_io (transport ?fw) = Inl e" using down_io_fails by blast
  then have s: "powered ?s" "main_thread ?s = Announcing" "mode (net ?s) = Waiting (from_secs 1)"
    by (simp_all add: outage_turns_def system_run_def system_step_def)
      (simp_all add: net_turn_def plane_step_def connect_step_def enter_backoff_def set_phase_def next_delay_def
        plane_init_def backoff_new_def)
  obtain more s' where "more = [ConnectTurn up_io] \<or> more = [WaitTurn (from_secs 1), ConnectTurn up_io :: unit turn]"
      "s' = system_run ?fw ?s more" "mode (net s') = Online"
    using running_frame_comes_back [OF refl s(1) up_io_connects_any] s(2,3) by fastforce
  moreover have "mode (net (system_run ?fw ?s [ConnectTurn up_io :: unit turn])) = Waiting (from_secs 1)"
    using s by (simp add: system_run_one system_step_def net_turn_def plane_step_def)
  ultimately show ?thesis using s(3) by auto
qed

definition reporting_turns :: "unit turn list" where
  "reporting_turns = connecting_turns @ asking_turns @ [ExchangeTurn (\<lambda>_. Inr ()) (Inr None)]"

theorem every_status_has_its_reason_witness:
  "\<exists>b s rest. powers_up blank_font good_start [good_turn home_env] None b \<and>
     s = system_run (sample_firmware (app (leave_boot_loop (Inr ()) b)))
           (system_start (sample_firmware (app (leave_boot_loop (Inr ()) b))) [] (ui b)) reporting_turns \<and>
     rest = [RenderStarted ''p?format=rgb565'' (Some ''a1'')] \<and> (\<exists>hello. hello # rest \<in> set (wires (net s))) \<and>
     (\<exists>e \<in> set (forwarded (net s)). \<exists>sent. answers e sent \<and> hd rest \<in> set sent)"
proof -
  obtain b where b: "powers_up blank_font good_start [good_turn home_env] None b" using sample_power_on by blast
  let ?fw = "sample_firmware (app (leave_boot_loop (Inr ()) b))"
  let ?s = "system_run ?fw (system_start ?fw [] (ui b)) (connecting_turns @ asking_turns)"
  let ?s' = "system_run ?fw (system_start ?fw [] (ui b)) reporting_turns"
  let ?hello = "Connected (ws_device_id (transport ?fw)) (ws_device_name (transport ?fw))"
  obtain p img where s: "powered ?s" "mode (net ?s) = Online" "wires (net ?s) = [[?hello]]"
      "pending (net ?s) = [SendStatus (RenderStarted ''p?format=rgb565'' (Some ''a1'')),
         SendStatus (RenderCompleted ''p?format=rgb565'' (Some ''a1''))]"
    by (rule sample_rendered [OF b refl refl])
  have "?s' = system_step ?fw ?s (ExchangeTurn (\<lambda>_. Inr ()) (Inr None) :: unit turn)"
    by (simp add: reporting_turns_def system_run_def)
  then have "wires (net ?s') = [[?hello, RenderStarted ''p?format=rgb565'' (Some ''a1'')]]"
    using s by (simp add: system_step_def net_turn_def plane_step_def exchange_step_def try_recv_step_def)
  then have wire: "[?hello, RenderStarted ''p?format=rgb565'' (Some ''a1'')] \<in> set (wires (net ?s'))" by simp
  from every_status_has_its_reason [OF refl wire]
  have reason: "\<exists>e \<in> set (forwarded (net ?s')). \<exists>sent. answers e sent \<and> RenderStarted ''p?format=rgb565'' (Some ''a1'') \<in> set sent"
    by (auto simp: small_request_def dest: in_set_takeD)
  show ?thesis
    by (intro exI [of _ b] exI [of _ ?s'] exI [of _ "[RenderStarted ''p?format=rgb565'' (Some ''a1'')]"] conjI)
      (use b wire reason in auto)
qed

end
