(* ===== verification/Frame_Faults.thy ===== *)
theory Frame_Faults
  imports Running_Frame
begin

text \<open>
  Faults of the running frame that only its parts together have. A picture smaller than the panel that
  the controller sends as a JPEG ends the main loop: \<open>render\<close> in \<open>frame-firmware/src/runtime.rs\<close> publishes
  a decoded picture at its own size, \<open>present\<close> in \<open>frame-ui/src/panel.rs\<close> refuses it, and \<open>run()\<close> in
  \<open>frame-firmware/src/main.rs\<close> returns on the refusal.
\<close>

section \<open>What is on the glass fills it\<close>

text \<open>A display that shows the store's present photo shows one of at least the panel's size.\<close>

lemma shown_photo_is_whole:
  assumes "ui_run s view" and "length ops < 2 ^ 64" and "showing view = Photo (generation (store_run s ops))"
    and "front (store_run s ops) = Some img"
  shows "WIDTH * HEIGHT \<le> length (rgb565 img)"
  using assms
proof (induction arbitrary: ops img rule: ui_run.induct)
  case (boot s)
  then show ?case by (simp add: create_ui_def)
next
  case (pass s view more font drawn st ctl u later)
  let ?t = "store_run s more"
  have "generation (store_run ?t ops) = generation ?t"
    using ui_run_coherent [OF ui_run.pass [OF pass.hyps(1-3)]] pass.prems(2) by blast
  with pass.prems(1) have "front (store_run ?t ops) = front ?t"
    unfolding store_run_def by (intro photo_view.same_version_same_view)
  with pass.prems(3) have front: "front ?t = Some img" by simp
  show ?case
  proof (cases "showing view = Photo (generation ?t)")
    case True
    with front show ?thesis by (intro pass.IH [OF pass.hyps(2)])
  next
    case False
    with pass.hyps(3) obtain v p where "present drawn (rgb565 img) (panel view) = (Inr v, p)"
      by (auto simp: sync_front_Some [OF front] show_as_Inr)
    then show ?thesis using present_small [of "rgb565 img" drawn "panel view"] by fastforce
  qed
qed

lemma returned_for_good:
  assumes "main_thread s = Returned"
  shows "main_thread (system_run fw s ts) = Returned \<and> display (system_run fw s ts) = display s"
proof (induction ts rule: rev_induct)
  case Nil
  show ?case using assms by (simp add: system_run_def)
next
  case (snoc t ts)
  let ?s = "system_run fw s ts"
  have "main_thread (system_step fw ?s t) = main_thread ?s \<and> display (system_step fw ?s t) = display ?s"
  proof (cases "\<exists>env. t = MainTurn env")
    case True
    with snoc show ?thesis by (auto simp: system_step_def main_step_def)
  next
    case False
    with other_turn [of t ?s fw] show ?thesis by blast
  qed
  with snoc show ?case by (simp add: system_run_snoc)
qed

text \<open>A turn of the main loop that finds a smaller photo at the front of the store is its last.\<close>

lemma small_photo_ends_the_loop:
  assumes "tracks k s" and "k < 2 ^ 64" and "powered s" and "main_thread s = Looping"
    and "photos_in s = Unpoisoned p" and "front p = Some img" and "length (rgb565 img) < WIDTH * HEIGHT"
    and "s' = system_step fw s (MainTurn env)"
  shows "main_thread s' = Returned" and "display s' = display s" and "net s' = drop_runtime (net s)"
proof -
  obtain q ops where q: "p = store_run q ops" "length ops \<le> k" "ui_run q (display s)"
    using assms(1,4,5) by (auto simp: tracks_def)
  have "showing (display s) \<noteq> Photo (generation p)"
    using shown_photo_is_whole [OF q(3), of ops img] q assms(2,6,7) by auto
  from undersized_photo_fails_sync [OF assms(6,7) this]
  obtain e where "sync (glyphs fw) (drawn env) (loop_state fw) (photos_in s) (plane.controller (net s)) (display s) =
      (Inl e, display s)" using assms(5) by metis
  then have "s' = give_up (s\<lparr>device := (device s)\<rparr>)"
    using assms(3,4,8) by (simp add: system_step_def main_step_def loop_turn_def main_turn_def)
  then show "main_thread s' = Returned" "display s' = display s" "net s' = drop_runtime (net s)" by simp_all
qed

section \<open>A small picture stops the frame\<close>

lemma small_picture_built:
  assumes "\<not> is_raw_pixels url (length bytes)" and "decode_image io bytes = Inr (w, h, rgb8)"
    and "length rgb8 = unat w * unat h * 3" and "unat w * unat h < WIDTH * HEIGHT"
  obtains plain where "build_image io url bytes = Inr plain" and "length (rgb565 plain) = unat w * unat h"
proof -
  let ?px = "map (\<lambda>px. pack565 (px ! 0) (px ! 1) (px ! 2)) (chunks_exact 3 rgb8)"
  have few: "unat w * unat h < 2 ^ 30" using assms(4) by (simp add: panel_sizes)
  have "image_from_rgb8 w h rgb8 = Inr \<lparr>width = w, height = h, rgb565 = ?px, image_id = None\<rparr>"
    using few assms(3) by (simp add: image_from_rgb8_def image_new_def usize_mul_def usize_limit_def length_chunks_exact Let_def)
  moreover have "length ?px = unat w * unat h" using assms(3) by (simp add: length_chunks_exact)
  ultimately show thesis using that assms(1,2) by (simp add: build_image_def)
qed

text \<open>
  C13: a picture smaller than the panel takes the frame off the air while the controller is told that all is well. In
  any reachable state with the connection open, the main loop running, the render thread idle and no photos
  of the owner's on the card, a valid request to show a picture that decodes to fewer pixels than the panel
  has is answered with a start and a completion; the main loop's next turn then fails and returns, whatever the
  display driver does, and dropping the runtime queues the command to shut down behind the completion. From
  then on no turn of any thread, in any order, changes what is on the glass.
\<close>

theorem small_picture_stops_the_frame:
  fixes ts ts' :: "'h turn list"
  assumes "powers_up font senv envs flash b"
    and "fw = load_firmware url json font read_dir sd (app (leave_boot_loop wrote b))"
    and "s = system_run fw (system_start fw kept (ui b)) ts" and "length ts < 2 ^ 59"
    and "powered s" and "main_thread s = Looping" and "mode (net s) = Online"
    and "taken s = length (forwarded (net s))" and "lib_is_empty (library fw)" and "\<forall>m. send m = Inr ()"
    and "parse_control_message json payload = Inr (Render r)" and "\<not> queue r" and "correlation_id r = Some i"
    and "\<forall>p. memory (shared (device s)) = Unpoisoned p \<longrightarrow> Option.bind (front p) image_id \<noteq> Some i"
    and "download_media (http_client io) (frame_token (token_slot (net s))) (media_url r) = Inr bytes"
    and "\<not> is_raw_pixels (media_url r) (length bytes)" and "decode_image io bytes = Inr (w, h, rgb8)"
    and "length rgb8 = unat w * unat h * 3" and "unat w * unat h < WIDTH * HEIGHT"
    and "s' = system_run fw s [ExchangeTurn send (Inr (Some payload)) :: 'h turn, RenderTurn io, MainTurn env]"
  shows "pending (net s') = tl (pending (net s)) @
      [SendStatus (RenderStarted (media_url r) (Some i)), SendStatus (RenderCompleted (media_url r) (Some i)), Shutdown] \<and>
    main_thread (system_run fw s' ts') = Returned \<and>
    glass (panel (glass_ui (device (system_run fw s' ts')))) = glass (panel (glass_ui (device s)))"
proof -
  have linked: "linked fw s" unfolding assms(3) by (rule linked_run)
  have tracks: "tracks (5 * length ts) s" unfolding assms(3)
    by (rule tracks_run [OF powers_up_display [OF assms(1)]]) (use assms(4) in simp)
  then obtain p where p: "photos_in s = Unpoisoned p" "Option.bind (front p) image_id \<noteq> Some i"
    using assms(14) by (auto simp: tracks_def)
  have json: "parse_control_message (read_json fw) payload = Inr (Render r)"
    using assms(2,11) by (simp add: load_firmware_def)
  obtain plain where plain: "build_image io (media_url r) bytes = Inr plain" "length (rgb565 plain) = unat w * unat h"
    by (rule small_picture_built [OF assms(16-19)])
  let ?s2 = "system_run fw s [ExchangeTurn send (Inr (Some payload)) :: 'h turn, RenderTurn io]"
  obtain p' where s2: "powered ?s2" "main_thread ?s2 = Looping" "photos_in ?s2 = Unpoisoned p'"
      "front p' = Some (with_id plain i)" "display ?s2 = display s" "mode (net ?s2) = Online"
      "pending (net ?s2) = tl (pending (net s)) @
        [SendStatus (RenderStarted (media_url r) (Some i)), SendStatus (RenderCompleted (media_url r) (Some i))]"
    by (rule request_rendered [OF linked assms(5-10) json assms(12,13) p assms(15) plain(1) refl]) blast
  have few: "5 * length ts < 2 ^ 64" "5 * length ts + 5 < 2 ^ 64" "5 * length ts + 5 + 5 < 2 ^ 64" using assms(4) by simp_all
  have tr: "tracks (5 * length ts + 5 + 5) ?s2" unfolding system_run_def foldl.simps by (intro tracks_step tracks few)
  have few_pixels: "length (rgb565 (with_id plain i)) < WIDTH * HEIGHT" using plain(2) assms(19) by (simp add: with_id_def)
  have "s' = system_step fw ?s2 (MainTurn env :: 'h turn)" unfolding assms(20) by (simp add: system_run_def)
  from small_photo_ends_the_loop [OF tr few(3) s2(1-4) few_pixels this] s2(5)
  have s': "main_thread s' = Returned" "display s' = display s" "net s' = drop_runtime (net ?s2)" by simp_all
  with returned_for_good [OF s'(1), of fw ts'] s2(6,7) show ?thesis
    by (simp add: drop_runtime_def send_command_def)
qed

definition tiny_http :: http where
  "tiny_http = (\<lambda>_ _.
     \<lparr>connection = Inr (), open_request = Inr (), submit = Inr 200, body_reads = [Inr [1], Inr []]\<rparr>)"

definition tiny_io :: media_io where
  "tiny_io = offline_io\<lparr>http_client := tiny_http, decode_image := \<lambda>_. Inr (1, 1, [0, 0, 0])\<rparr>"

lemma tiny_download: "download_media (http_client tiny_io) token ''p?format=rgb565'' = Inr [1]"
  by (simp add: tiny_io_def offline_io_def download_media_def tiny_http_def)

theorem small_picture_stops_the_frame_witness:
  "\<exists>b s'. powers_up blank_font good_start [good_turn home_env] None b \<and>
     s' = system_run (sample_firmware (app (leave_boot_loop (Inr ()) b)))
            (system_start (sample_firmware (app (leave_boot_loop (Inr ()) b))) [] (ui b))
            (connecting_turns @ [ExchangeTurn (\<lambda>_. Inr ()) (Inr (Some ''show'')), RenderTurn tiny_io, MainTurn (away_env 0)]) \<and>
     main_thread s' = Returned \<and>
     pending (net s') = [SendStatus (RenderStarted ''p?format=rgb565'' (Some ''a1'')),
       SendStatus (RenderCompleted ''p?format=rgb565'' (Some ''a1'')), Shutdown]"
proof -
  obtain b where b: "powers_up blank_font good_start [good_turn home_env] None b" using sample_power_on by blast
  let ?st = "app (leave_boot_loop (Inr ()) b)"
  let ?fw = "sample_firmware ?st"
  let ?s = "system_run ?fw (system_start ?fw [] (ui b)) connecting_turns"
  note s = sample_running [OF refl, of ?st "ui b"]
  have small: "length connecting_turns < 2 ^ 59" by (simp add: connecting_turns_def)
  have idle: "taken ?s = length (forwarded (net ?s))" using s(4,5) by simp
  have blank: "\<forall>p. photos_in ?s = Unpoisoned p \<longrightarrow> Option.bind (front p) image_id \<noteq> Some ''a1''"
    using s(7) by (simp add: store_init_def front_def)
  have jpeg: "\<not> is_raw_pixels (media_url show_request) (length [1 :: u8])"
    by (simp add: is_raw_pixels_def usize_mul_def usize_limit_def PANEL_LOGICAL_WIDTH_def PANEL_LOGICAL_HEIGHT_def)
  have decoded: "decode_image tiny_io [1] = Inr (1, 1, [0, 0, 0])" by (simp add: tiny_io_def)
  from small_picture_stops_the_frame [where send = "\<lambda>_. Inr ()" and payload = "''show''" and io = tiny_io and ts' = "[]"
      and env = "away_env 0", OF b sample_firmware_def refl small s(1,2,3) idle _ _ show_json_parses _ _ blank _ jpeg decoded _ _ refl]
  show ?thesis
    using b s(6) tiny_download
    by (intro exI [of _ b] exI conjI) (auto simp: system_run_def foldl_append panel_sizes)
qed


section \<open>The announcement forgets the controller\<close>

text \<open>Turns in which no connection is opened and no message arrives.\<close>

definition unheard :: "'h turn \<Rightarrow> bool" where
  "unheard t =
     (case t of
        ConnectTurn _ \<Rightarrow> False
      | ExchangeTurn _ r \<Rightarrow> (case r of Inr (Some _) \<Rightarrow> False | _ \<Rightarrow> True)
      | _ \<Rightarrow> True)"

definition searching :: "plane \<Rightarrow> bool" where
  "searching p \<longleftrightarrow> (\<exists>c. plane.controller p = Unpoisoned c \<and> ctl_phase c = Searching)"

lemma searching_set_phase [simp]: "plane.controller p \<noteq> Poisoned \<Longrightarrow> searching (set_phase Searching p)"
  by (cases "plane.controller p") (simp_all add: searching_def set_phase_def set_controller_phase_def set_phase_body_def)

lemma searching_backoff: "searching p \<Longrightarrow> searching (enter_backoff p)"
  by (auto simp: enter_backoff_def searching_def set_phase_def set_controller_phase_def set_phase_body_def split: prod.split)

lemma searching_exchange:
  assumes "searching p" and "\<And>payload. r \<noteq> Inr (Some payload)"
  shows "searching (exchange_step from_json send r p)"
proof -
  have first: "searching p1" if "try_recv_step send p = Some p1" for p1
    using that assms(1)
    by (auto simp: searching_def try_recv_step_def split: list.splits TransportCommand.splits sum.splits if_splits)
  have "searching (set_phase Searching p1)" if "searching p1" for p1
    using that by (intro searching_set_phase) (auto simp: searching_def)
  moreover have "searching (p\<lparr>pending := q\<rparr>)" for q using assms(1) by (simp add: searching_def)
  ultimately show ?thesis
    using first assms(2) by (auto simp: exchange_step_def intro: searching_backoff split: option.split sum.split)
qed

lemma searching_sends [simp]: "searching (send_all ms p) = searching p"
  using send_all_keeps [of ms p] by (simp add: searching_def)

lemma searching_drop [simp]: "searching (drop_runtime p) = searching p"
  by (simp add: drop_runtime_def send_command_def searching_def)

lemma unheard_step:
  assumes "unheard t" and "searching (net s)" and "main_thread s \<noteq> Announcing"
  shows "searching (net (system_step fw s t)) \<and> main_thread (system_step fw s t) \<noteq> Announcing"
proof (cases t)
  case (ExchangeTurn send r)
  then have "searching (exchange_step (read_json fw) send r (net s))"
    using assms(1) by (intro searching_exchange [OF assms(2)]) (auto simp: unheard_def split: sum.splits option.splits)
  then show ?thesis
    using ExchangeTurn assms(2,3) by (simp add: system_step_def) (simp add: net_turn_def plane_step_def split: plane_mode.split)
next
  case (WaitTurn n)
  then show ?thesis
    using assms(2,3) by (simp add: system_step_def)
      (auto simp: net_turn_def plane_step_def wait_step_def searching_def split: plane_mode.split list.split TransportCommand.split)
next
  case (MainTurn env)
  then show ?thesis
    using assms(2,3) by (simp add: system_step_def main_step_def loop_turn_def split: main_at.split sum.split prod.split)
next
  case (TouchTurn p env)
  then show ?thesis
    using assms(2,3) by (simp add: system_step_def touch_turn_def asking_turn_def split: prod.split option.split)
qed (use assms in \<open>simp_all add: unheard_def system_step_def render_turn_def asking_turn_def slide_turn_def split: prod.split\<close>)


lemma system_run_nil: "system_run fw s [] = s"
  by (simp add: system_run_def)

lemma unheard_run:
  assumes "\<forall>t \<in> set ts. unheard t" and "searching (net s)" and "main_thread s \<noteq> Announcing"
  shows "searching (net (system_run fw s ts)) \<and> main_thread (system_run fw s ts) \<noteq> Announcing"
  using assms(1)
proof (induction ts rule: rev_induct)
  case Nil
  show ?case using assms by (simp add: system_run_def)
qed (simp add: system_run_snoc unheard_step)

lemma announced_searching:
  assumes "linked fw s" and "powered s" and "main_thread s = Announcing"
    and "s1 = system_step fw s (MainTurn env)"
  shows "searching (net s1)" and "main_thread s1 \<noteq> Announcing"
proof -
  have "plane.controller (net s) \<noteq> Poisoned" using assms(1) by (auto simp: linked_def plane_ok_def phase_matches_def)
  with assms(2-4) show "searching (net s1)" "main_thread s1 \<noteq> Announcing"
    by (auto simp: system_step_def main_step_def announce_def Let_def split: sum.split prod.split)
qed

text \<open>
  C39: a frame whose controller has already spoken to it can ask to be adopted. When the connection is opened, and even
  messages are received, before the main thread gets to its announcement, the announcement overwrites the phase:
  until the next message or the next connection, whatever the threads do, the phase says that the frame is
  still searching, and every turn of the main loop that goes on with no photo in the store puts up
  the screen that asks for adoption, although the connection is open.
\<close>

theorem announcement_forgets_the_controller:
  fixes ts' :: "'h turn list"
  assumes "s = system_run fw (system_start fw kept u) ts" and "powered s" and "main_thread s = Announcing"
    and "s2 = system_run fw (system_step fw s (MainTurn env :: 'h turn)) ts'" and "\<forall>t \<in> set ts'. unheard t"
    and "powered s2" and "main_thread s2 = Looping"
    and "memory (shared (device s2)) = Unpoisoned p" and "front p = None"
    and "network_phase (booted_state fw) = NetConnected"
    and "s3 = system_step fw s2 (MainTurn env')" and "main_thread s3 = Looping"
  shows "(\<exists>c. plane.controller (net s2) = Unpoisoned c \<and> ctl_phase c = Searching) \<and>
    showing (glass_ui (device s3)) = AwaitingAdoption (unwrap_or ''unknown'' (device_id (booted_state fw)))"
proof -
  have "linked fw s" unfolding assms(1) by (rule linked_run)
  let ?s1 = "system_step fw s (MainTurn env :: 'h turn)"
  have "searching (net ?s1)" "main_thread ?s1 \<noteq> Announcing"
    using announced_searching [OF \<open>linked fw s\<close> assms(2,3) refl] by blast+
  then have "searching (net s2)" using unheard_run [OF assms(5), of ?s1 fw] by (simp add: assms(4))
  then obtain c where c: "plane.controller (net s2) = Unpoisoned c" "ctl_phase c = Searching" by (auto simp: searching_def)
  have s3: "s3 = loop_turn fw env' s2" using assms(6,7,11) by (simp add: system_step_def main_step_def)
  have "network_phase (loop_state fw) = NetConnected" "device_id (loop_state fw) = device_id (booted_state fw)"
    using assms(10) by (simp_all add: loop_state_def app_set_controller_phase_def)
  then have wanted: "wanted_screen (loop_state fw) Searching = AwaitingAdoption (unwrap_or ''unknown'' (device_id (booted_state fw)))"
    by (simp add: wanted_screen_def)
  have "sync (glyphs fw) (drawn env') (loop_state fw) (Unpoisoned p) (plane.controller (net s2)) (display s2) = (Inr (), display s3)"
    using assms(7,8,12) by (cases rule: loop_turn_cases [of s2 fw env']) (simp_all add: s3)
  from sync_front_None [OF assms(9) this] c wanted show ?thesis by simp
qed

definition connected_app :: AppState where
  "connected_app = set_network_phase NetConnected (set_device_identity ''esp32p4-1'' ''Kitchen'' app_state_new)"

lemma connected_app_simps [simp]:
  "network_phase (booted_state (sample_firmware connected_app)) = NetConnected"
  "device_id (booted_state (sample_firmware connected_app)) = Some ''esp32p4-1''"
  by (simp_all add: sample_firmware_def load_firmware_def connected_app_def set_network_phase_def
      clear_provisioning_details_def set_device_identity_def Let_def)

definition hasty_turns :: "unit turn list" where
  "hasty_turns = [ConnectTurn up_io, ExchangeTurn (\<lambda>_. Inr ()) (Inr (Some ''show''))]"

lemma hasty_run:
  assumes "s = system_run (sample_firmware st) (system_start (sample_firmware st) [] u) hasty_turns"
  obtains c where "powered s" and "main_thread s = Announcing" and "mode (net s) = Online"
    and "forwarded (net s) = [Render show_request]" and "photos_in s = Unpoisoned store_init"
    and "plane.controller (net s) = Unpoisoned c" and "ctl_phase c = CtlConnected"
proof -
  let ?fw = "sample_firmware st"
  let ?s1 = "system_step ?fw (system_start ?fw [] u) (ConnectTurn up_io :: unit turn)"
  have s1: "powered ?s1" "main_thread ?s1 = Announcing" "mode (net ?s1) = Online" "forwarded (net ?s1) = []"
    "pending (net ?s1) = []" "photos_in ?s1 = Unpoisoned store_init" "senders_alive (net ?s1)" "renderer_alive (net ?s1)"
    "plane.controller (net ?s1) \<noteq> Poisoned"
    by (simp_all add: system_step_def) (simp_all add: net_turn_def plane_step_def connect_step_def up_io_connects_any
        set_phase_def plane_init_def)
  then obtain c where c: "plane.controller (net ?s1) = Unpoisoned c" by (cases "plane.controller (net ?s1)") simp_all
  have s: "s = net_turn ?fw (Exchange (\<lambda>_. Inr ()) (Inr (Some ''show''))) ?s1"
    using s1(1) by (simp add: assms hasty_turns_def system_run_def system_step_def [of ?fw ?s1])
  have none: "Shutdown \<notin> set (pending (net ?s1))" "\<forall>m. (\<lambda>_ :: OutboundStatusMessage. Inr () :: unit result) m = Inr ()"
    using s1(5) by simp_all
  have "parse_control_message (read_json ?fw) ''show'' = Inr (Render show_request)" by (simp add: show_json_parses)
  note fwd = exchange_forwards [OF s1(3,7,8) none this refl, where t = "transport ?fw"]
  show thesis
    by (rule that [of "\<lparr>ctl_generation = ctl_generation c + 1, ctl_phase = CtlConnected\<rparr>"])
      (use s1 fwd(1) fwd(2) [OF c] in \<open>simp_all add: s net_turn_def\<close>)
qed

theorem announcement_forgets_the_controller_witness:
  "\<exists>s s2 s3. s = system_run (sample_firmware connected_app)
      (system_start (sample_firmware connected_app) [] create_ui) hasty_turns \<and>
     (\<exists>c. plane.controller (net s) = Unpoisoned c \<and> ctl_phase c = CtlConnected) \<and>
     s2 = system_step (sample_firmware connected_app) s (MainTurn (away_env 0) :: unit turn) \<and>
     s3 = system_step (sample_firmware connected_app) s2 (MainTurn (away_env 0) :: unit turn) \<and>
     mode (net s2) = Online \<and> showing (glass_ui (device s3)) = AwaitingAdoption ''esp32p4-1''"
proof -
  let ?fw = "sample_firmware connected_app"
  let ?s = "system_run ?fw (system_start ?fw [] create_ui) hasty_turns"
  let ?s2 = "system_step ?fw ?s (MainTurn (away_env 0) :: unit turn)"
  let ?s3 = "system_step ?fw ?s2 (MainTurn (away_env 0) :: unit turn)"
  obtain c where s: "powered ?s" "main_thread ?s = Announcing" "mode (net ?s) = Online" "photos_in ?s = Unpoisoned store_init"
      "plane.controller (net ?s) = Unpoisoned c" "ctl_phase c = CtlConnected"
    by (rule hasty_run [OF refl])
  obtain c2 where c2: "plane.controller (set_phase Searching (net ?s)) = Unpoisoned c2"
    using s(5) by (simp add: set_phase_def set_controller_phase_def)
  obtain u1 where up: "sync (glyphs ?fw) (Inr ()) (loop_state ?fw) (Unpoisoned store_init) (Unpoisoned c2) (display ?s) = (Inr (), u1)"
    by (rule good_sync)
  have drawn: "drawn (away_env 0) = Inr ()" by (simp add: away_env_def)
  have "fst (set_controller_phase Searching (plane.controller (net ?s))) = Inr ()"
    using s(5) by (simp add: set_controller_phase_def)
  with s(1,2,4) up c2 drawn have s2: "?s2 = ?s\<lparr>net := set_phase Searching (net ?s),
      device := (device ?s)\<lparr>glass_ui := u1, last_offline_rotation := rotated_at (away_env 0)\<rparr>,
      main_thread := Looping, reporting := True\<rparr>"
    by (simp add: system_step_def [of ?fw ?s] main_step_def announce_def)
  then have running: "powered ?s2" "main_thread ?s2 = Looping" "photos_in ?s2 = Unpoisoned store_init"
      "plane.controller (net ?s2) = Unpoisoned c2" "mode (net ?s2) = Online"
    using s(1,3,4) c2 by (simp_all add: set_phase_def)
  obtain u2 where "sync (glyphs ?fw) (Inr ()) (loop_state ?fw) (Unpoisoned store_init) (Unpoisoned c2) (display ?s2) = (Inr (), u2)"
    by (rule good_sync)
  then have "main_thread (loop_turn ?fw (away_env 0) ?s2) = Looping"
    using running(3,4) drawn by (cases rule: loop_turn_cases [OF running(2), of ?fw "away_env 0"]) simp_all
  then have looping: "main_thread ?s3 = Looping" using running(1,2) by (simp add: system_step_def [of ?fw ?s2] main_step_def)
  have "?s2 = system_run ?fw ?s2 ([] :: unit turn list)" by (simp add: system_run_nil)
  from announcement_forgets_the_controller [OF refl s(1,2) this _ running(1-3) _ _ refl looping]
  have "showing (display ?s3) = AwaitingAdoption ''esp32p4-1''" by (simp add: unwrap_or_def)
  with running(5) s(5,6) show ?thesis by blast
qed

end
