(* ===== verification/Card_Threads.thy ===== *)
theory Card_Threads
  imports Render_Executor
begin

text \<open>
  The card and the photo memory under threads that interleave. \<open>top_up_from_cache\<close> of
  \<open>frame-firmware/src/runtime.rs\<close> is called by the render thread, by the health thread, by the touch thread and by
  the main thread, \<open>store\<close> of \<open>photo_cache.rs\<close> by the render thread, and no lock spans their file
  operations. Here every access to the card and every section under the store's lock is a step of
  its own, and a run interleaves the steps of any number of threads.

  A thread is the point of the code it has reached. The lemmas show that the turns of the other
  theories, which run each call to its end, are runs of this finer program, and that the cache keeps
  its invariants in every run.
\<close>

section \<open>A thread\<close>

text \<open>
  The points between two steps: outside, in the loop of \<open>top_up_from_cache\<close> and the \<open>take_oldest\<close> it calls, and
  in the \<open>queue\<close> branch of \<open>render\<close> with the \<open>store\<close> it calls.
\<close>

datatype thread =
    Outside
  | Checking
  | Listing
  | Reading "string list"
  | Discarding string "string list"
  | Removing string "u8 list"
  | Pushing "u8 list"
  | Queueing string "u8 list" RenderedImage
  | Measuring string "u8 list" RenderedImage
  | Naming string "u8 list" RenderedImage
  | Writing string "u8 list" RenderedImage
  | Renaming string "u8 list" RenderedImage
  | Falling_Back RenderedImage

definition temp_of :: "string \<Rightarrow> string" where
  "temp_of final_path = with_extension ''part'' final_path"

text \<open>One step of a thread, with what the card does during it.\<close>

fun thread_step :: "cache_env \<Rightarrow> thread \<times> store mutex \<times> files \<Rightarrow> thread \<times> store mutex \<times> files" where
  "thread_step env (Outside, m, fs) = (Outside, m, fs)"
| "thread_step env (Checking, m, fs) =
     (if buffered_or_max m < MEMORY_BUFFER_TARGET then Listing else Outside, m, fs)"
| "thread_step env (Listing, m, fs) = (Reading (entries (list_contains env) fs), m, fs)"
| "thread_step env (Reading [], m, fs) = (Outside, m, fs)"
| "thread_step env (Reading (path # paths), m, fs) =
     ((case try_read env path fs of
         Some bytes \<Rightarrow>
           if length bytes = PHOTO_BYTES then Removing path bytes else Discarding path paths
       | None \<Rightarrow> Discarding path paths), m, fs)"
| "thread_step env (Discarding path paths, m, fs) = (Reading paths, m, try_remove env path fs)"
| "thread_step env (Removing path bytes, m, fs) = (Pushing bytes, m, try_remove env path fs)"
| "thread_step env (Pushing bytes, m, fs) =
     (case image_from_rgb565_bytes bytes of
        Inr img \<Rightarrow>
          (case push_rendered_image img m of
             (Inl _, m') \<Rightarrow> (Outside, m', fs)
           | (Inr _, m') \<Rightarrow> (Checking, m', fs))
      | Inl _ \<Rightarrow> (Checking, m, fs))"
| "thread_step env (Queueing photo_id pixels img, m, fs) =
     (if length pixels \<noteq> PHOTO_BYTES \<or> \<not> usable_id photo_id then Falling_Back img
      else if contains (list_contains env) photo_id fs then Checking
      else Measuring photo_id pixels img, m, fs)"
| "thread_step env (Measuring photo_id pixels img, m, fs) =
     (if has_room env fs then Naming photo_id pixels img else Checking, m, fs)"
| "thread_step env (Naming photo_id pixels img, m, fs) =
     (Writing (path_for (next_sequence (list_order env) fs) photo_id) pixels img, m, fs)"
| "thread_step env (Writing final_path pixels img, m, fs) =
     (if write_ok (write_out env) then Renaming final_path pixels img else Falling_Back img,
      m, fs_write_out (write_out env) (temp_of final_path) pixels fs)"
| "thread_step env (Renaming final_path pixels img, m, fs) =
     (if rename_ok env then (Checking, m, fs_rename (temp_of final_path) final_path fs)
      else (Falling_Back img, m, fs))"
| "thread_step env (Falling_Back img, m, fs) =
     (case push_rendered_image img m of
        (Inl _, m') \<Rightarrow> (Outside, m', fs)
      | (Inr _, m') \<Rightarrow> (Checking, m', fs))"

section \<open>All threads\<close>

text \<open>
  The shared state, and beside it the photos that taps and rotations have taken off the screen.
  Thread 0 is the render thread, the only one that stores photos.
\<close>

record pool =
  threads :: "thread list"
  photo_memory :: "store mutex"
  folder :: files
  passed :: "RenderedImage list"

text \<open>What happens around the threads: the card, the photos to queue, and the other uses of the store.\<close>

record outside =
  behaviours :: "cache_env set"
  downloads :: "(string \<times> u8 list \<times> RenderedImage) set"
  drawn :: "store_op set"

definition store_operation :: "store_op \<Rightarrow> store mutex \<Rightarrow> store mutex" where
  "store_operation act m =
     (case act of
        OpShow img \<Rightarrow> snd (show_rendered_image img m)
      | OpPush img \<Rightarrow> snd (push_rendered_image img m)
      | OpSet img \<Rightarrow> snd (set_rendered_image img m)
      | OpAdvance \<Rightarrow> snd (advance_rendered_image m)
      | OpClear \<Rightarrow> snd (clear_rendered_image m))"

definition taken_down :: "store_op \<Rightarrow> store mutex \<Rightarrow> RenderedImage list" where
  "taken_down act m =
     (case (act, m) of
        (OpAdvance, Unpoisoned s) \<Rightarrow> (if 2 \<le> length (buffer s) then [hd (buffer s)] else [])
      | _ \<Rightarrow> [])"

inductive pool_step :: "outside \<Rightarrow> pool \<Rightarrow> pool \<Rightarrow> bool" for w where
  begin_top_up:
    "j < length (threads p) \<Longrightarrow> threads p ! j = Outside \<Longrightarrow>
     pool_step w p (p\<lparr>threads := (threads p)[j := Checking]\<rparr>)"
| begin_queue:
    "0 < length (threads p) \<Longrightarrow> threads p ! 0 = Outside \<Longrightarrow> (photo_id, pixels, img) \<in> downloads w \<Longrightarrow>
     pool_step w p (p\<lparr>threads := (threads p)[0 := Queueing photo_id pixels img]\<rparr>)"
| work:
    "j < length (threads p) \<Longrightarrow> env \<in> behaviours w \<Longrightarrow>
     thread_step env (threads p ! j, photo_memory p, folder p) = (th, m, fs) \<Longrightarrow>
     pool_step w p (p\<lparr>threads := (threads p)[j := th], photo_memory := m, folder := fs\<rparr>)"
| draw:
    "act \<in> drawn w \<Longrightarrow>
     pool_step w p (p\<lparr>photo_memory := store_operation act (photo_memory p),
       passed := passed p @ taken_down act (photo_memory p)\<rparr>)"

inductive_cases pool_stepE [elim]: "pool_step w p p'"

abbreviation pool_run :: "outside \<Rightarrow> pool \<Rightarrow> pool \<Rightarrow> bool" where
  "pool_run w \<equiv> (pool_step w)\<^sup>*\<^sup>*"

text \<open>What every step keeps holds along every run.\<close>

locale kept_by_steps =
  fixes step :: "'s \<Rightarrow> 's \<Rightarrow> bool"
    and inv :: "'s \<Rightarrow> bool"
  assumes kept: "step s s' \<Longrightarrow> inv s \<Longrightarrow> inv s'"
begin

lemma along_runs: "step\<^sup>*\<^sup>* s s' \<Longrightarrow> inv s \<Longrightarrow> inv s'"
  by (induction rule: rtranclp_induct) (auto intro: kept)

end

section \<open>A thread that is not disturbed\<close>

inductive steps_to :: "cache_env \<Rightarrow> thread \<times> store mutex \<times> files \<Rightarrow> thread \<times> store mutex \<times> files \<Rightarrow> bool"
  for env where
  here: "steps_to env c c"
| step: "steps_to env (thread_step env c) c' \<Longrightarrow> steps_to env c c'"

lemma steps_to_trans [trans]: "steps_to env a b \<Longrightarrow> steps_to env b c \<Longrightarrow> steps_to env a c"
  by (induction rule: steps_to.induct) (auto intro: steps_to.step)

lemma one_step: "thread_step env c = c' \<Longrightarrow> steps_to env c c'"
  using steps_to.step [OF steps_to.here] by metis

lemma steps_in_pool:
  assumes "steps_to env c c'" and "c = (threads p ! j, photo_memory p, folder p)"
    and "j < length (threads p)" and "env \<in> behaviours w"
  shows "pool_run w p (p\<lparr>threads := (threads p)[j := fst c'], photo_memory := fst (snd c'), folder := snd (snd c')\<rparr>)"
  using assms(1-3)
proof (induction arbitrary: p rule: steps_to.induct)
  case (here c)
  then have "p\<lparr>threads := (threads p)[j := fst c], photo_memory := fst (snd c), folder := snd (snd c)\<rparr> = p"
    by simp
  then show ?case by simp
next
  case (step c c')
  obtain th m fs where st: "thread_step env c = (th, m, fs)" by (cases "thread_step env c")
  let ?q = "p\<lparr>threads := (threads p)[j := th], photo_memory := m, folder := fs\<rparr>"
  have "pool_step w p ?q"
    by (rule work [OF step.prems(2) assms(4)]) (use st step.prems(1) in simp)
  moreover have "pool_run w ?q (?q\<lparr>threads := (threads ?q)[j := fst c'], photo_memory := fst (snd c'), folder := snd (snd c')\<rparr>)"
    by (rule step.IH) (use st step.prems(2) in simp_all)
  ultimately show ?case by (simp add: converse_rtranclp_into_rtranclp)
qed

text \<open>Reading the listed files one by one is \<open>take_from\<close>.\<close>

definition taken :: "store mutex \<Rightarrow> u8 list option \<times> files \<Rightarrow> thread \<times> store mutex \<times> files" where
  "taken m r = (case fst r of None \<Rightarrow> Outside | Some bytes \<Rightarrow> Pushing bytes, m, snd r)"

lemma steps_take_from: "steps_to env (Reading paths, m, fs) (taken m (take_from env paths fs))"
proof (induction env paths fs rule: take_from.induct)
  case (1 env fs)
  show ?case by (rule one_step) (simp add: taken_def)
next
  case (2 env path paths fs)
  show ?case
  proof (cases "\<exists>bytes. try_read env path fs = Some bytes \<and> length bytes = PHOTO_BYTES")
    case True
    then obtain bytes where b: "try_read env path fs = Some bytes" "length bytes = PHOTO_BYTES" by blast
    have "steps_to env (Reading (path # paths), m, fs) (Removing path bytes, m, fs)"
      by (rule one_step) (simp add: b)
    also have "steps_to env \<dots> (taken m (take_from env (path # paths) fs))"
      by (rule one_step) (simp add: b taken_def)
    finally show ?thesis .
  next
    case False
    then have take: "take_from env (path # paths) fs = take_from env paths (try_remove env path fs)"
      and bad: "thread_step env (Reading (path # paths), m, fs) = (Discarding path paths, m, fs)"
      by (auto split: option.split)
    have "steps_to env (Reading (path # paths), m, fs) (Discarding path paths, m, fs)"
      by (rule one_step [OF bad])
    also have "steps_to env \<dots> (Reading paths, m, try_remove env path fs)"
      by (rule one_step) simp
    finally
    have "steps_to env (Reading (path # paths), m, fs) (Reading paths, m, try_remove env path fs)" .
    moreover have "steps_to env (Reading paths, m, try_remove env path fs)
        (taken m (take_from env paths (try_remove env path fs)))"
      using False 2 by (cases "try_read env path fs") auto
    ultimately show ?thesis unfolding take by (rule steps_to_trans)
  qed
qed

lemma steps_take_oldest: "steps_to env (Listing, m, fs) (taken m (take_oldest env fs))"
  by (rule steps_to.step) (simp add: take_oldest_def steps_take_from)

lemma steps_top_up:
  "steps_to env (Checking, m, fs) (Outside, top_up_from_cache (\<lambda>_. env) n m fs)"
proof (induction "\<lambda>_ :: nat. env" n m fs rule: top_up_from_cache.induct)
  case (1 n m fs)
  note top_up = top_up_from_cache.simps [of _ n]
  show ?case
  proof (cases "buffered_or_max m < MEMORY_BUFFER_TARGET")
    case False
    then show ?thesis by (simp add: top_up one_step)
  next
    case True
    obtain r fs1 where r: "take_oldest env fs = (r, fs1)" by (cases "take_oldest env fs")
    have listed: "steps_to env (Checking, m, fs) (taken m (r, fs1))"
      using True steps_take_oldest [of env m fs] r by (auto intro: steps_to.step [of _ "(Checking, m, fs)"])
    show ?thesis
    proof (cases r)
      case None
      with listed True r show ?thesis by (simp add: top_up taken_def)
    next
      case (Some bytes)
      obtain img where img: "image_from_rgb565_bytes bytes = Inr img"
        using take_oldest_image r Some by blast
      obtain x m1 where push: "push_rendered_image img m = (x, m1)"
        by (cases "push_rendered_image img m")
      have "steps_to env (Pushing bytes, m, fs1) (case x of Inl _ \<Rightarrow> Outside | Inr _ \<Rightarrow> Checking, m1, fs1)"
        by (rule one_step) (simp add: img push split: sum.split)
      with listed Some
      have pushed: "steps_to env (Checking, m, fs) (case x of Inl _ \<Rightarrow> Outside | Inr _ \<Rightarrow> Checking, m1, fs1)"
        by (auto simp: taken_def intro: steps_to_trans)
      show ?thesis
      proof (cases x)
        case (Inl e)
        with pushed True r Some img push show ?thesis by (simp add: top_up)
      next
        case (Inr u)
        have "steps_to env (Checking, m1, fs1) (Outside, top_up_from_cache (\<lambda>_. env) (Suc n) m1 fs1)"
          by (rule 1(2) [OF True r [symmetric] Some img push [symmetric] Inr])
        with pushed True r Some img push Inr show ?thesis
          by (auto simp: top_up intro: steps_to_trans)
      qed
    qed
  qed
qed

text \<open>Storing a photo is \<open>store_photo\<close>, and then comes the top-up or the way round the card.\<close>

lemma steps_store:
  assumes "store_photo debug env photo_id pixels fs = (r, fs')"
  shows "steps_to env (Queueing photo_id pixels img, m, fs)
    (case r of Inr _ \<Rightarrow> Checking | Inl _ \<Rightarrow> Falling_Back img, m, fs')"
proof (cases "length pixels = PHOTO_BYTES \<and> usable_id photo_id \<and> \<not> contains (list_contains env) photo_id fs \<and> has_room env fs")
  case False
  show ?thesis
  proof (cases "length pixels = PHOTO_BYTES \<and> usable_id photo_id \<and> \<not> contains (list_contains env) photo_id fs")
    case True
    with False have "steps_to env (Queueing photo_id pixels img, m, fs) (Measuring photo_id pixels img, m, fs)"
      "steps_to env (Measuring photo_id pixels img, m, fs) (Checking, m, fs)"
      by (simp_all add: one_step)
    moreover have "r = Inr ()" "fs' = fs" using True False assms by (auto simp: store_photo_def)
    ultimately show ?thesis by (auto intro: steps_to_trans)
  next
    case False
    with assms show ?thesis by (auto simp: store_photo_def intro!: one_step split: if_splits)
  qed
next
  case True
  let ?final = "path_for (next_sequence (list_order env) fs) photo_id"
  let ?fs1 = "fs_write_out (write_out env) (temp_of ?final) pixels fs"
  have "steps_to env (Queueing photo_id pixels img, m, fs) (Measuring photo_id pixels img, m, fs)"
    using True by (simp add: one_step)
  also have "steps_to env \<dots> (Naming photo_id pixels img, m, fs)"
    using True by (simp add: one_step)
  also have "steps_to env \<dots> (Writing ?final pixels img, m, fs)"
    by (simp add: one_step)
  also have "steps_to env \<dots> (if write_ok (write_out env) then Renaming ?final pixels img else Falling_Back img, m, ?fs1)"
    by (simp add: one_step)
  finally have written: "steps_to env (Queueing photo_id pixels img, m, fs)
    (if write_ok (write_out env) then Renaming ?final pixels img else Falling_Back img, m, ?fs1)" .
  show ?thesis
  proof (cases "write_ok (write_out env)")
    case False
    with written True assms show ?thesis
      by (auto simp: store_photo_def Let_def temp_of_def)
  next
    case ok: True
    have "steps_to env (Renaming ?final pixels img, m, ?fs1)
      (if rename_ok env then (Checking, m, fs_rename (temp_of ?final) ?final ?fs1) else (Falling_Back img, m, ?fs1))"
      by (simp add: one_step)
    with written ok True assms show ?thesis
      by (auto simp: store_photo_def Let_def temp_of_def intro: steps_to_trans split: if_splits)
  qed
qed

lemma steps_queue_photo:
  assumes "queue_photo io photo_id pixels img f = (r, f')" and "store_env io = env" and "top_up_envs io = (\<lambda>_. env)"
  shows "steps_to env (Queueing photo_id pixels img, memory f, cached f) (Outside, memory f', cached f')"
proof -
  obtain r1 fs1 where store: "store_photo (debug_str io) env photo_id pixels (cached f) = (r1, fs1)"
    by (cases "store_photo (debug_str io) env photo_id pixels (cached f)")
  note stored = steps_store [OF store, of img "memory f"]
  show ?thesis
  proof (cases r1)
    case (Inr u)
    have "steps_to env (Checking, memory f, fs1) (Outside, top_up_from_cache (\<lambda>_. env) 0 (memory f) fs1)"
      by (rule steps_top_up)
    with stored Inr store assms show ?thesis
      by (auto simp: queue_photo_def intro: steps_to_trans split: prod.splits)
  next
    case (Inl e)
    obtain x m1 where push: "push_rendered_image img (memory f) = (x, m1)"
      by (cases "push_rendered_image img (memory f)")
    have fell: "steps_to env (Falling_Back img, memory f, fs1) (case x of Inl _ \<Rightarrow> Outside | Inr _ \<Rightarrow> Checking, m1, fs1)"
      by (rule one_step) (simp add: push split: sum.split)
    have top: "steps_to env (Checking, m1, fs1) (Outside, top_up_from_cache (\<lambda>_. env) 0 m1 fs1)"
      by (rule steps_top_up)
    show ?thesis
    proof (cases x)
      case (Inl e')
      with stored fell \<open>r1 = Inl e\<close> store push assms show ?thesis
        by (auto simp: queue_photo_def intro: steps_to_trans)
    next
      case (Inr u)
      have "steps_to env (Queueing photo_id pixels img, memory f, cached f) (Checking, m1, fs1)"
        using stored fell \<open>r1 = Inl e\<close> Inr by (auto intro: steps_to_trans)
      with top \<open>r1 = Inl e\<close> Inr store push assms show ?thesis
        by (auto simp: queue_photo_def intro: steps_to_trans split: prod.splits)
    qed
  qed
qed

text \<open>
  The turns of the other theories are runs of the interleaved threads. Whatever any of the
  other threads is in the middle of, a thread that begins a top-up, or the render thread that
  begins to queue a photo, and is then not disturbed, ends outside again, with memory and card
  exactly as \<open>top_up_from_cache\<close> and \<open>queue_photo\<close> leave them.
\<close>

theorem undisturbed_threads_run_the_turns:
  assumes "photo_memory p = memory f" and "folder p = cached f" and "env \<in> behaviours w"
    and "store_env io = env" and "top_up_envs io = (\<lambda>_. env)"
  shows "(\<forall>j < length (threads p). threads p ! j = Outside \<longrightarrow>
      (let (m, fs) = top_up_from_cache (\<lambda>_. env) 0 (memory f) (cached f)
       in pool_run w p (p\<lparr>photo_memory := m, folder := fs\<rparr>))) \<and>
    (\<forall>(photo_id, pixels, img) \<in> downloads w. threads p \<noteq> [] \<and> threads p ! 0 = Outside \<longrightarrow>
      (let f' = snd (queue_photo io photo_id pixels img f)
       in pool_run w p (p\<lparr>photo_memory := memory f', folder := cached f'\<rparr>)))"
proof -
  have from_start: "pool_run w p (p\<lparr>photo_memory := m', folder := fs'\<rparr>)"
    if "pool_step w p (p\<lparr>threads := (threads p)[k := th]\<rparr>)" "k < length (threads p)" "threads p ! k = Outside"
      "steps_to env (th, memory f, cached f) (Outside, m', fs')" for k th m' fs'
  proof -
    let ?q = "p\<lparr>threads := (threads p)[k := th]\<rparr>"
    have "pool_run w ?q (?q\<lparr>threads := (threads ?q)[k := Outside], photo_memory := m', folder := fs'\<rparr>)"
      using steps_in_pool [OF that(4), of ?q k w] assms(1-3) that(2) by simp
    moreover have "(threads p)[k := Outside] = threads p" using that(3) by (metis list_update_id)
    ultimately show ?thesis using that(1) by (simp add: converse_rtranclp_into_rtranclp)
  qed
  have "pool_run w p (p\<lparr>photo_memory := m, folder := fs\<rparr>)"
    if "j < length (threads p)" "threads p ! j = Outside"
      "top_up_from_cache (\<lambda>_. env) 0 (memory f) (cached f) = (m, fs)" for j m fs
    using steps_top_up [of env "memory f" "cached f" 0] that(3)
    by (intro from_start [OF begin_top_up [OF that(1,2)] that(1,2)]) simp
  moreover have "pool_run w p (p\<lparr>photo_memory := memory (snd (queue_photo io photo_id pixels img f)),
      folder := cached (snd (queue_photo io photo_id pixels img f))\<rparr>)"
    if "(photo_id, pixels, img) \<in> downloads w" "threads p \<noteq> []" "threads p ! 0 = Outside" for photo_id pixels img
  proof -
    have some: "0 < length (threads p)" using that(2) by simp
    show ?thesis
      by (rule from_start [OF begin_queue [OF some that(3,1)] some that(3)
            steps_queue_photo [OF surjective_pairing assms(4,5)]])
  qed
  ultimately show ?thesis
    by (auto simp: Let_def split: prod.split)
qed

definition healthy_outside :: "(string \<times> u8 list \<times> RenderedImage) set \<Rightarrow> outside" where
  "healthy_outside queued = \<lparr>behaviours = {healthy_env None}, downloads = queued, drawn = {}\<rparr>"

definition start_pool :: "nat \<Rightarrow> store \<Rightarrow> files \<Rightarrow> pool" where
  "start_pool n s fs = \<lparr>threads = replicate n Outside, photo_memory = Unpoisoned s, folder = fs, passed = []\<rparr>"

definition all_outside :: "pool \<Rightarrow> bool" where
  "all_outside p \<longleftrightarrow> (\<forall>j < length (threads p). threads p ! j = Outside)"

lemma start_pool_simps [simp]:
  "threads (start_pool n s fs) = replicate n Outside" "photo_memory (start_pool n s fs) = Unpoisoned s"
  "folder (start_pool n s fs) = fs" "all_outside (start_pool n s fs)"
  by (simp_all add: start_pool_def all_outside_def)

theorem undisturbed_threads_run_the_turns_witness:
  "let f' = snd (queue_photo offline_io ''a1'' black_photo (panel_image black_photo) fresh_frame)
   in pool_run (healthy_outside {(''a1'', black_photo, panel_image black_photo)}) (start_pool 2 store_init [])
        ((start_pool 2 store_init [])\<lparr>photo_memory := memory f', folder := cached f'\<rparr>)"
  using undisturbed_threads_run_the_turns
    [of "start_pool 2 store_init []" fresh_frame "healthy_env None"
      "healthy_outside {(''a1'', black_photo, panel_image black_photo)}" offline_io]
  by (simp add: start_pool_def healthy_outside_def offline_io_def quiet_cache_def fresh_frame_def)

section \<open>What the missing lock cannot break\<close>

text \<open>
  What is known of a thread at each point: paths it will remove are photo files, only thread 0
  stores, and what it stores is a whole photo. When the card lists itself truthfully (\<open>listed\<close>), what
  thread 0 has checked also stays true while the others only remove.
\<close>

fun sound :: "bool \<Rightarrow> nat \<Rightarrow> files \<Rightarrow> thread \<Rightarrow> bool" where
  "sound listed j fs (Reading paths) = list_all is_photo_name paths"
| "sound listed j fs (Discarding path paths) = (is_photo_name path \<and> list_all is_photo_name paths)"
| "sound listed j fs (Removing path bytes) = is_photo_name path"
| "sound listed j fs (Queueing photo_id pixels img) = (j = 0)"
| "sound listed j fs (Measuring photo_id pixels img) =
     (j = 0 \<and> length pixels = PHOTO_BYTES \<and> (listed \<longrightarrow> \<not> contains everything photo_id fs))"
| "sound listed j fs (Naming photo_id pixels img) =
     (j = 0 \<and> length pixels = PHOTO_BYTES \<and>
      (listed \<longrightarrow> \<not> contains everything photo_id fs \<and> count_photos everything fs < TARGET_PHOTOS))"
| "sound listed j fs (Writing path pixels img) =
     (j = 0 \<and> length pixels = PHOTO_BYTES \<and> (\<exists>s photo_id. path = path_for s photo_id \<and>
        (listed \<longrightarrow> \<not> contains everything photo_id fs \<and> count_photos everything fs < TARGET_PHOTOS)))"
| "sound listed j fs (Renaming path pixels img) =
     (j = 0 \<and> length pixels = PHOTO_BYTES \<and> (\<exists>s photo_id. path = path_for s photo_id \<and>
        (listed \<longrightarrow> \<not> contains everything photo_id fs \<and> count_photos everything fs < TARGET_PHOTOS)) \<and>
      fs_read (temp_of path) fs = Some pixels)"
| "sound listed j fs (Falling_Back img) = (j = 0)"
| "sound listed j fs th = True"

definition sound_card :: "bool \<Rightarrow> files \<Rightarrow> bool" where
  "sound_card listed fs \<longleftrightarrow> whole_photos fs \<and> (listed \<longrightarrow> tidy_cache fs)"

lemma sound_other: "sound listed j fs th \<Longrightarrow> j \<noteq> 0 \<Longrightarrow> sound listed j fs' th"
  by (cases th) auto

lemma contains_remove: "contains everything i (fs_remove path fs) \<Longrightarrow> contains everything i fs"
  by (auto simp: contains_def list_ex_iff entries_fs_remove)

lemma count_remove: "count_photos everything (fs_remove path fs) \<le> count_photos everything fs"
  by (simp add: count_photos_def entries_fs_remove)

lemma temp_not_photo [simp]: "\<not> is_photo_name (temp_of (path_for s i))"
  by (simp add: temp_of_def)

lemma sound_try_remove:
  assumes "is_photo_name path" "sound listed j fs th"
  shows "sound listed j (try_remove env path fs) th"
proof -
  have temp: "temp_of (path_for s i) \<noteq> path" for s i using assms(1) temp_not_photo by metis
  have few: "count_photos everything (fs_remove path fs) < n" if "count_photos everything fs < n" for n
    using count_remove [of path fs] that by simp
  show ?thesis
    using assms(2) temp few by (cases th) (auto simp: try_remove_def dest: contains_remove, (blast dest: contains_remove)+)
qed

lemma sound_card_try_remove: "sound_card listed fs \<Longrightarrow> sound_card listed (try_remove env path fs)"
  by (auto simp: sound_card_def tidy_remove whole_photos_def try_remove_def split: if_splits)

lemma listing_of_photos: "list_all is_photo_name (entries l fs)"
  by (auto simp: list_all_iff entries_def split: option.splits)

lemma write_temp:
  assumes "sound_card listed fs"
  shows "sound_card listed (fs_write_out w (temp_of (path_for s i)) pixels fs)"
proof -
  have "sound_card listed (fs_write (temp_of (path_for s i)) bytes fs)" for bytes
    using assms tidy_write_other [OF temp_not_photo] by (auto simp: sound_card_def whole_photos_def)
  then show ?thesis
    using assms by (simp add: fs_write_out_def split: write_outcome.split)
qed

lemma write_temp_listing:
  "entries everything (fs_write (temp_of (path_for s i)) bytes fs) = entries everything fs"
  by (simp add: entries_everything names_fs_write)

lemma rename_temp:
  assumes "sound_card listed fs"
    and "listed \<longrightarrow> \<not> contains everything i fs \<and> count_photos everything fs < TARGET_PHOTOS"
    and "fs_read (temp_of (path_for s i)) fs = Some pixels" and "length pixels = PHOTO_BYTES"
  shows "sound_card listed (fs_rename (temp_of (path_for s i)) (path_for s i) fs)"
proof -
  let ?fs = "fs_remove (temp_of (path_for s i)) fs"
  have "tidy_cache (fs_write (path_for s i) pixels ?fs)" if listed
  proof -
    have "\<not> contains everything i ?fs" "count_photos everything ?fs < TARGET_PHOTOS"
      using assms(2) that contains_remove count_remove [of "temp_of (path_for s i)" fs] by auto
    then show ?thesis using assms(1) that by (intro tidy_write_new tidy_remove) (auto simp: sound_card_def)
  qed
  moreover have "whole_photos (fs_write (path_for s i) pixels ?fs)"
    using assms(1,4) by (auto simp: sound_card_def whole_photos_def split: if_splits)
  ultimately show ?thesis by (simp add: sound_card_def fs_rename_def assms(3))
qed

text \<open>One step keeps its own thread and the card sound.\<close>

lemma sound_step:
  assumes "thread_step env (th, m, fs) = (th', m', fs')" and "sound listed j fs th" and "sound_card listed fs"
    and "listed \<longrightarrow> list_contains env = everything \<and> list_count env = everything"
  shows "sound listed j fs' th' \<and> sound_card listed fs'"
proof (cases th)
  case (Reading paths)
  then show ?thesis using assms(1-3) by (cases paths) (auto split: option.splits if_splits)
next
  case (Discarding path paths)
  then show ?thesis using assms(1-3) by (auto simp: sound_card_try_remove)
next
  case (Removing path bytes)
  then show ?thesis using assms(1-3) by (auto simp: sound_card_try_remove)
next
  case (Writing path pixels img)
  then obtain s i where path: "path = path_for s i"
    "listed \<longrightarrow> \<not> contains everything i fs \<and> count_photos everything fs < TARGET_PHOTOS" using assms(2) by auto
  show ?thesis
    using assms(1-3) Writing path write_temp [OF assms(3), of "write_out env" s i pixels]
    by (auto simp: fs_write_out_def write_ok_def contains_def count_photos_def write_temp_listing
        split: write_outcome.splits) blast+
next
  case (Renaming path pixels img)
  then obtain s i where path: "path = path_for s i"
    "listed \<longrightarrow> \<not> contains everything i fs \<and> count_photos everything fs < TARGET_PHOTOS" using assms(2) by auto
  show ?thesis
    using assms(1-3) Renaming path rename_temp [OF assms(3) path(2), of s pixels]
    by (auto split: if_splits)
next
  case (Naming photo_id pixels img)
  then show ?thesis using assms(1-3) by (auto, blast+)
next
  case (Measuring photo_id pixels img)
  then show ?thesis using assms by (auto simp: has_room_def split: if_splits)
qed (use assms listing_of_photos in \<open>auto split: if_splits sum.splits prod.splits\<close>)

text \<open>And it disturbs no other thread.\<close>

lemma sound_step_others:
  assumes "thread_step env (th, m, fs) = (th', m', fs')" and "sound listed j fs th" and "sound listed k fs other" and "k \<noteq> j"
  shows "sound listed k fs' other"
proof (cases "k = 0")
  case False
  with assms(3) show ?thesis by (rule sound_other)
next
  case True
  with assms(2,4) have "fs' = fs \<or> (\<exists>path. is_photo_name path \<and> fs' = try_remove env path fs)"
  proof (cases th)
    case (Reading paths)
    then show ?thesis using assms(1) by (cases paths) auto
  qed (use assms(1) in \<open>auto split: sum.splits prod.splits\<close>)
  with assms(3) sound_try_remove show ?thesis by auto
qed

definition sound_pool :: "bool \<Rightarrow> pool \<Rightarrow> bool" where
  "sound_pool listed p \<longleftrightarrow>
     sound_card listed (folder p) \<and> (\<forall>j < length (threads p). sound listed j (folder p) (threads p ! j))"

lemma sound_pool_step:
  assumes "pool_step w p p'" and "sound_pool listed p"
    and "listed \<longrightarrow> (\<forall>env \<in> behaviours w. list_contains env = everything \<and> list_count env = everything)"
  shows "sound_pool listed p'"
  using assms(1)
proof cases
  case (work j env th m fs)
  have own: "sound listed j fs th \<and> sound_card listed fs"
    by (rule sound_step [OF work(4)]) (use assms(2,3) work in \<open>auto simp: sound_pool_def\<close>)
  have "sound listed k fs (threads p ! k)" if "k < length (threads p)" "k \<noteq> j" for k
    by (rule sound_step_others [OF work(4)]) (use assms(2) work that in \<open>auto simp: sound_pool_def\<close>)
  with own work show ?thesis by (auto simp: sound_pool_def nth_list_update)
qed (use assms(2) in \<open>auto simp: sound_pool_def nth_list_update\<close>)

definition listings_readable :: "outside \<Rightarrow> bool" where
  "listings_readable w \<longleftrightarrow>
     (\<forall>env \<in> behaviours w. list_contains env = everything \<and> list_count env = everything)"

interpretation sound_runs: kept_by_steps "pool_step w" "\<lambda>p. (listed \<longrightarrow> listings_readable w) \<and> sound_pool listed p" for w listed
  by unfold_locales (auto simp: listings_readable_def intro: sound_pool_step)

text \<open>
  C6: the cache needs no lock to stay a cache. However the file operations of any number of threads
  topping up memory interleave with each other and with those of the render thread storing
  photos, whichever listings, reads, writes, renames and deletions the card refuses and wherever a write
  is cut, at every moment every photo file on the card is a whole photo. If the two listings behind the checks of
  a store (is the photo there, is there room) are never refused, there are also never more than 48 photos
  nor two with the same id. A refused listing looks like an empty card, so then both can happen.
\<close>

theorem interleaved_cache_stays_tidy:
  assumes "all_outside p" and "tidy_cache (folder p)" and "whole_photos (folder p)" and "pool_run w p p'"
  shows "whole_photos (folder p') \<and>
    ((\<forall>env \<in> behaviours w. list_contains env = everything \<and> list_count env = everything) \<longrightarrow> tidy_cache (folder p'))"
proof -
  have "sound_pool listed p" for listed
    using assms(1-3) by (simp add: sound_pool_def all_outside_def sound_card_def)
  then have "(listed \<longrightarrow> listings_readable w) \<Longrightarrow> sound_pool listed p'" for listed
    using sound_runs.along_runs [OF assms(4)] by blast
  from this [of False] this [of True] show ?thesis
    by (simp add: sound_pool_def sound_card_def listings_readable_def)
qed

theorem interleaved_cache_stays_tidy_witness:
  "let f' = snd (queue_photo offline_io ''a1'' black_photo (panel_image black_photo) fresh_frame)
   in tidy_cache (cached f') \<and> whole_photos (cached f')"
proof -
  let ?w = "healthy_outside {(''a1'', black_photo, panel_image black_photo)}"
  obtain r f' where run: "queue_photo offline_io ''a1'' black_photo (panel_image black_photo) fresh_frame = (r, f')"
    by (cases "queue_photo offline_io ''a1'' black_photo (panel_image black_photo) fresh_frame")
  have "threads (start_pool 2 store_init []) ! 0 = Outside" by (simp add: start_pool_def)
  then have "pool_step ?w (start_pool 2 store_init [])
      ((start_pool 2 store_init [])\<lparr>threads := (threads (start_pool 2 store_init []))
        [0 := Queueing ''a1'' black_photo (panel_image black_photo)]\<rparr>)" (is "pool_step _ _ ?p")
    by (intro begin_queue) (simp_all add: start_pool_def healthy_outside_def)
  moreover have "steps_to (healthy_env None) (threads ?p ! 0, photo_memory ?p, folder ?p) (Outside, memory f', cached f')"
    using steps_queue_photo [OF run, of "healthy_env None"]
    by (simp add: start_pool_def offline_io_def quiet_cache_def fresh_frame_def)
  then have "pool_run ?w ?p (?p\<lparr>threads := (threads ?p)[0 := Outside], photo_memory := memory f', folder := cached f'\<rparr>)"
    using steps_in_pool [of "healthy_env None" _ "(Outside, memory f', cached f')" ?p 0 ?w]
    by (simp add: start_pool_def healthy_outside_def)
  ultimately have "pool_run ?w (start_pool 2 store_init [])
      (?p\<lparr>threads := (threads ?p)[0 := Outside], photo_memory := memory f', folder := cached f'\<rparr>)"
    by (rule converse_rtranclp_into_rtranclp)
  from interleaved_cache_stays_tidy [OF _ _ _ this] show ?thesis
    by (simp add: run healthy_outside_def tidy_cache_iff names_def whole_photos_def fs_read_def)
qed

text \<open>A refused listing does put a photo on the card twice.\<close>

lemma refused_listing_stores_twice:
  assumes "fs = [(path_for 0 ''a1'', black_photo)]" and "env = (healthy_env None)\<lparr>list_contains := None\<rparr>"
  shows "tidy_cache fs \<and> whole_photos fs \<and> \<not> tidy_cache (snd (store_photo debug env ''a1'' black_photo fs))"
proof -
  have listed: "entries everything fs = [path_for 0 ''a1'']"
    by (simp add: entries_everything names_def assms(1))
  have env: "list_contains env = None" "list_count env = everything" "list_order env = everything"
    "write_ok (write_out env)" "write_out env = Written" "rename_ok env" "usage env = None"
    by (simp_all add: assms(2) healthy_env_def write_ok_def)
  have sizes: "length black_photo = PHOTO_BYTES" by (simp add: black_photo_def PHOTO_BYTES_eq)
  have usable: "usable_id ''a1''" by code_simp
  have new: "\<not> contains None ''a1'' fs" by (simp add: contains_def entries_def)
  have room: "has_room env fs"
    by (simp add: has_room_def env count_photos_def listed TARGET_PHOTOS_def)
  have seq: "next_sequence everything fs = 1" by (simp add: next_sequence_def listed)
  have apart: "path_for 0 ''a1'' \<noteq> path_for 1 ''a1''" using path_for_less [of 0 1 "''a1''" "''a1''"] by auto
  moreover have "names (snd (store_photo debug env ''a1'' black_photo fs)) = [path_for 0 ''a1'', path_for 1 ''a1'']"
    using env new room seq sizes usable apart
    by (simp add: store_photo_def Let_def fs_write_out_def fs_rename_def fs_read_def fs_write_def fs_remove_def names_def assms(1)
        part_not_path_for [symmetric])
  ultimately show ?thesis
    using sizes by (auto simp: tidy_cache_iff assms(1) names_def whole_photos_def fs_read_def inj_on_def split: if_splits)
qed

end
