(* ===== verification/Top_Up_Races.thy ===== *)
theory Top_Up_Races
  imports Card_Threads
begin

text \<open>
  Threads that run \<open>top_up_from_cache\<close> of \<open>frame-firmware/src/runtime.rs\<close> at the same time, on the steps of
  \<open>Card_Threads\<close>. The first lemmas bound how far they overshoot the two photos they aim at and follow
  one photo of the card from thread to thread, so that two threads lose none; the last ones build
  the runs in which one photo is loaded twice and in which a third thread makes one disappear.
\<close>

section \<open>How far memory overshoots, and that two threads lose nothing\<close>

text \<open>The threads that have found memory too empty and have yet to push the photo they fetch.\<close>

fun fetching :: "thread \<Rightarrow> bool" where
  "fetching Listing = True"
| "fetching (Reading paths) = True"
| "fetching (Discarding path paths) = True"
| "fetching (Removing path bytes) = True"
| "fetching (Pushing bytes) = True"
| "fetching th = False"

definition under_way :: "thread list \<Rightarrow> nat" where
  "under_way ths = length (filter fetching ths)"

lemma under_way_update:
  "j < length ths \<Longrightarrow> under_way (ths[j := th]) + of_bool (fetching (ths ! j)) = under_way ths + of_bool (fetching th)"
  unfolding under_way_def
proof (induction ths arbitrary: j)
  case (Cons x xs)
  then show ?case by (cases j) auto
qed simp

lemma under_way_less: "j < length ths \<Longrightarrow> \<not> fetching (ths ! j) \<Longrightarrow> under_way ths < length ths"
  unfolding under_way_def by (rule length_filter_less [of "ths ! j"]) simp_all

text \<open>The card takes what is stored, and nothing but taps and rotations touches the store.\<close>

definition calm :: "outside \<Rightarrow> bool" where
  "calm w \<longleftrightarrow> (\<forall>env \<in> behaviours w. write_ok (write_out env) \<and> rename_ok env) \<and>
     (\<forall>(photo_id, pixels, img) \<in> downloads w. length pixels = PHOTO_BYTES \<and> usable_id photo_id) \<and>
     drawn w \<subseteq> {OpAdvance, OpClear}"

fun on_course :: "thread \<Rightarrow> bool" where
  "on_course (Queueing photo_id pixels img) = (length pixels = PHOTO_BYTES \<and> usable_id photo_id)"
| "on_course (Falling_Back img) = False"
| "on_course th = True"

lemma push_length:
  "push_rendered_image img (Unpoisoned s) = (r, m') \<Longrightarrow>
   \<exists>s'. r = Inr () \<and> m' = Unpoisoned s' \<and> length (buffer s') \<le> Suc (length (buffer s)) \<and>
     (length (buffer s) \<le> 2 \<longrightarrow> buffer s' = buffer s @ [img])"
  by (auto simp: push_rendered_image_def push_body_def make_room_def BUFFER_CAPACITY_def Let_def)

lemma calm_step:
  assumes "thread_step env (th, Unpoisoned s, fs) = (th', m', fs')" and "on_course th"
    and "write_ok (write_out env)" and "rename_ok env"
  shows "\<exists>s'. m' = Unpoisoned s' \<and> on_course th' \<and>
    (s' = s \<and> (fetching th' \<longrightarrow> fetching th) \<or>
     s' = s \<and> \<not> fetching th \<and> length (buffer s) < 2 \<or>
     fetching th \<and> \<not> fetching th' \<and> length (buffer s') \<le> Suc (length (buffer s)))"
proof (cases th)
  case Checking
  then show ?thesis using assms(1) by (auto simp: MEMORY_BUFFER_TARGET_def)
next
  case (Reading paths)
  then show ?thesis using assms(1) by (cases paths) (auto split: option.splits if_splits)
next
  case (Pushing bytes)
  show ?thesis
  proof (cases "image_from_rgb565_bytes bytes")
    case (Inr img)
    obtain r m1 where push: "push_rendered_image img (Unpoisoned s) = (r, m1)"
      by (cases "push_rendered_image img (Unpoisoned s)")
    from push_length [OF push] show ?thesis using assms(1) Pushing Inr push by auto
  qed (use assms(1) Pushing in auto)
qed (use assms in \<open>auto split: if_splits\<close>)

definition within_target :: "pool \<Rightarrow> bool" where
  "within_target p \<longleftrightarrow> (\<exists>s. photo_memory p = Unpoisoned s \<and>
     length (buffer s) + under_way (threads p) \<le> Suc (length (threads p))) \<and> list_all on_course (threads p)"

lemma within_target_update:
  assumes "within_target p" and "j < length (threads p)" and "photo_memory p = Unpoisoned s" and "on_course th"
    and "length (buffer s') + of_bool (fetching th) \<le> length (buffer s) + of_bool (fetching (threads p ! j)) \<or>
      length (buffer s') < 2 \<and> \<not> fetching (threads p ! j)"
  shows "within_target (p\<lparr>threads := (threads p)[j := th], photo_memory := Unpoisoned s', folder := fs\<rparr>)"
proof -
  have "length (buffer s') + under_way ((threads p)[j := th]) \<le> Suc (length (threads p))"
    using assms(1-3,5) under_way_update [OF assms(2), of th] under_way_less [OF assms(2)]
    by (auto simp: within_target_def of_bool_def split: if_splits)
  moreover have "list_all on_course ((threads p)[j := th])"
    using assms(1,4) set_update_subset_insert by (fastforce simp: within_target_def list_all_iff)
  ultimately show ?thesis by (simp add: within_target_def)
qed

lemma within_target_step:
  assumes "pool_step w p p'" and "within_target p" and "calm w"
  shows "within_target p'"
proof -
  obtain s where s: "photo_memory p = Unpoisoned s" using assms(2) by (auto simp: within_target_def)
  have start: "within_target (p\<lparr>threads := (threads p)[j := th]\<rparr>)"
    if "j < length (threads p)" "threads p ! j = Outside" "on_course th" "\<not> fetching th" for j th
    using within_target_update [OF assms(2) that(1) s that(3), of s "folder p"] that(2,4) s
    by (simp add: within_target_def)
  from assms(1) show ?thesis
  proof cases
    case (work j env th m fs)
    have env: "write_ok (write_out env)" "rename_ok env" using assms(3) work(3) by (auto simp: calm_def)
    have "on_course (threads p ! j)" using assms(2) work(2) by (simp add: within_target_def list_all_length)
    from calm_step [OF work(4) [unfolded s] this env] obtain s' where s': "m = Unpoisoned s'" "on_course th"
      "s' = s \<and> (fetching th \<longrightarrow> fetching (threads p ! j)) \<or>
       s' = s \<and> \<not> fetching (threads p ! j) \<and> length (buffer s) < 2 \<or>
       fetching (threads p ! j) \<and> \<not> fetching th \<and> length (buffer s') \<le> Suc (length (buffer s))" by blast
    show ?thesis
      unfolding work(1) s'(1) by (rule within_target_update [OF assms(2) work(2) s s'(2)]) (use s'(3) in auto)
  next
    case (draw act)
    then have "act = OpAdvance \<or> act = OpClear" using assms(3) by (auto simp: calm_def)
    then show ?thesis
      using assms(2) s draw(1) by (auto simp: within_target_def store_operation_def advance_rendered_image_def
          clear_rendered_image_def advance_body_def clear_body_def)
  qed (use assms(3) start in \<open>auto simp: calm_def\<close>)
qed

lemma within_target_start:
  assumes "all_outside p" and "photo_memory p = Unpoisoned s" and "length (buffer s) \<le> Suc (length (threads p))"
  shows "within_target p"
proof -
  have "under_way (threads p) = 0" "list_all on_course (threads p)"
    using assms(1) by (auto simp: under_way_def filter_empty_conv all_outside_def in_set_conv_nth list_all_length)
  with assms(2,3) show ?thesis by (simp add: within_target_def)
qed

text \<open>
  A thread's file is still the one it read, or gone: nothing rewrites a photo file while no photo
  is being stored.
\<close>

fun faithful :: "files \<Rightarrow> thread \<Rightarrow> bool" where
  "faithful fs (Removing path bytes) = (length bytes = PHOTO_BYTES \<and> fs_read path fs \<in> {None, Some bytes})"
| "faithful fs (Discarding path paths) = (\<forall>bytes. fs_read path fs = Some bytes \<longrightarrow> length bytes \<noteq> PHOTO_BYTES)"
| "faithful fs (Pushing bytes) = (length bytes = PHOTO_BYTES)"
| "faithful fs (Queueing photo_id pixels img) = False"
| "faithful fs (Measuring photo_id pixels img) = False"
| "faithful fs (Naming photo_id pixels img) = False"
| "faithful fs (Writing path pixels img) = False"
| "faithful fs (Renaming path pixels img) = False"
| "faithful fs (Falling_Back img) = False"
| "faithful fs th = True"

text \<open>Where a photo of the card can be: on it, in the hands of a thread, in memory, or shown and passed.\<close>

definition in_hand :: "string \<Rightarrow> u8 list \<Rightarrow> thread \<Rightarrow> bool" where
  "in_hand path bytes th \<longleftrightarrow> th = Removing path bytes \<or> th = Pushing bytes"

definition accounted :: "string \<Rightarrow> u8 list \<Rightarrow> pool \<Rightarrow> bool" where
  "accounted path bytes p \<longleftrightarrow>
     fs_read path (folder p) = Some bytes \<or> (\<exists>j < length (threads p). in_hand path bytes (threads p ! j)) \<or>
     panel_image bytes \<in> set (buffer (lock_val (photo_memory p))) \<or> panel_image bytes \<in> set (passed p)"

lemma faithful_try_remove: "faithful fs th \<Longrightarrow> faithful (try_remove env path fs) th"
  by (cases th) (auto simp: try_remove_def)

lemma faithful_step:
  assumes "thread_step env (th, m, fs) = (th', m', fs')" and "faithful fs th" and "refuses_read env = (\<lambda>_. False)"
  shows "faithful fs' th' \<and> (fs' = fs \<or> (\<exists>path. fs' = try_remove env path fs))"
proof (cases th)
  case (Reading paths)
  then show ?thesis
    using assms by (cases paths) (auto simp: try_read_def split: option.splits if_splits)
next
  case (Pushing bytes)
  then show ?thesis using assms(1) by (auto split: sum.splits prod.splits)
qed (use assms in \<open>auto split: if_splits\<close>)

definition faithful_pool :: "pool \<Rightarrow> bool" where
  "faithful_pool p \<longleftrightarrow> (\<forall>j < length (threads p). faithful (folder p) (threads p ! j))"

text \<open>The threads only top up, the owner only taps, and the card can be read.\<close>

definition only_top_ups :: "outside \<Rightarrow> bool" where
  "only_top_ups w \<longleftrightarrow> downloads w = {} \<and> drawn w \<subseteq> {OpAdvance} \<and>
     (\<forall>env \<in> behaviours w. write_ok (write_out env) \<and> rename_ok env \<and> refuses_read env = (\<lambda>_. False))"

lemma only_top_ups_calm: "only_top_ups w \<Longrightarrow> calm w"
  by (auto simp: only_top_ups_def calm_def)

lemma faithful_pool_step:
  assumes "pool_step w p p'" and "faithful_pool p" and "only_top_ups w"
  shows "faithful_pool p'"
  using assms(1)
proof cases
  case (work j env th m fs)
  have "refuses_read env = (\<lambda>_. False)" using assms(3) work(3) by (simp add: only_top_ups_def)
  from faithful_step [OF work(4) _ this]
  have "faithful fs th" "fs = folder p \<or> (\<exists>path. fs = try_remove env path (folder p))"
    using assms(2) work(2) by (auto simp: faithful_pool_def)
  with assms(2) work show ?thesis
    by (auto simp: faithful_pool_def nth_list_update intro: faithful_try_remove)
qed (use assms(2,3) in \<open>auto simp: faithful_pool_def only_top_ups_def nth_list_update\<close>)

lemma own_file_step:
  assumes "thread_step env (th, Unpoisoned s, fs) = (th', m', fs')" and "faithful fs th"
    and "fetching th \<Longrightarrow> length (buffer s) \<le> 2"
    and "length bytes = PHOTO_BYTES" and "fs_read path fs = Some bytes \<or> in_hand path bytes th \<or> panel_image bytes \<in> set (buffer s)"
  shows "fs_read path fs' = Some bytes \<or> in_hand path bytes th' \<or> panel_image bytes \<in> set (buffer (lock_val m'))"
proof (cases th)
  case (Reading paths)
  then show ?thesis using assms(1,5) by (cases paths) (auto simp: in_hand_def)
next
  case (Pushing b)
  then have img: "image_from_rgb565_bytes b = Inr (panel_image b)"
    using assms(2) by (simp add: image_of_photo)
  obtain r m1 where push: "push_rendered_image (panel_image b) (Unpoisoned s) = (r, m1)"
    by (cases "push_rendered_image (panel_image b) (Unpoisoned s)")
  from push_length [OF push] obtain s1 where "r = Inr ()" "m1 = Unpoisoned s1"
    "length (buffer s) \<le> 2 \<longrightarrow> buffer s1 = buffer s @ [panel_image b]" by blast
  then show ?thesis using assms(1,3,5) Pushing img push by (auto simp: in_hand_def)
qed (use assms in \<open>auto simp: in_hand_def try_remove_def split: if_splits\<close>)

lemma accounted_step:
  assumes "pool_step w p p'" and "accounted path bytes p" and "length bytes = PHOTO_BYTES"
    and "faithful_pool p" and "within_target p" and "length (threads p) \<le> 2" and "only_top_ups w"
  shows "accounted path bytes p'"
proof -
  obtain s where s: "photo_memory p = Unpoisoned s" "length (buffer s) + under_way (threads p) \<le> 3"
    using assms(5,6) by (auto simp: within_target_def)
  have at_rest: "accounted path bytes (p\<lparr>threads := (threads p)[j := th]\<rparr>)" if "threads p ! j = Outside" for j th
  proof -
    have "k \<noteq> j" if "in_hand path bytes (threads p ! k)" for k
      using that \<open>threads p ! j = Outside\<close> by (auto simp: in_hand_def)
    then show ?thesis using assms(2) unfolding accounted_def by simp (metis nth_list_update_neq)
  qed
  from assms(1) show ?thesis
  proof cases
    case (work j env th m fs)
    have flying: "length (buffer s) \<le> 2" if "fetching (threads p ! j)"
    proof -
      have "0 < under_way (threads p)" using that work(2) by (auto simp: under_way_def filter_empty_conv)
      with s(2) show ?thesis by simp
    qed
    have own: "faithful (folder p) (threads p ! j)" using assms(4) work(2) by (simp add: faithful_pool_def)
    consider (mine) "fs_read path (folder p) = Some bytes \<or> in_hand path bytes (threads p ! j) \<or> panel_image bytes \<in> set (buffer s)"
      | (other) k where "k < length (threads p)" "k \<noteq> j" "in_hand path bytes (threads p ! k)"
      | (gone) "panel_image bytes \<in> set (passed p)"
      using assms(2) s(1) unfolding accounted_def by auto
    then show ?thesis
    proof cases
      case mine
      from own_file_step [OF work(4) [unfolded s(1)] own flying assms(3) this] work(1,2) show ?thesis
        by (auto simp: accounted_def)
    next
      case other
      then have "in_hand path bytes ((threads p)[j := th] ! k)" by simp
      with other(1) work(1) show ?thesis unfolding accounted_def by auto
    next
      case gone
      with work(1) show ?thesis by (simp add: accounted_def)
    qed
  next
    case (draw act)
    then have "act = OpAdvance" using assms(7) by (auto simp: only_top_ups_def)
    with draw show ?thesis
      using assms(2) s(1) by (cases "buffer s") (auto simp: accounted_def store_operation_def
          advance_rendered_image_def advance_body_def taken_down_def Suc_le_eq)
  qed (use at_rest assms(7) in \<open>auto simp: only_top_ups_def\<close>)
qed

interpretation top_up_runs: kept_by_steps "pool_step w"
  "\<lambda>p. only_top_ups w \<and> length bytes = PHOTO_BYTES \<and> length (threads p) = n \<and> n \<le> 2 \<and>
     within_target p \<and> faithful_pool p \<and> accounted path bytes p" for w n path bytes
proof unfold_locales
  fix p q
  assume step: "pool_step w p q"
    and p: "only_top_ups w \<and> length bytes = PHOTO_BYTES \<and> length (threads p) = n \<and> n \<le> 2 \<and>
      within_target p \<and> faithful_pool p \<and> accounted path bytes p"
  have "length (threads q) = length (threads p)" using step by cases simp_all
  with p show "only_top_ups w \<and> length bytes = PHOTO_BYTES \<and> length (threads q) = n \<and> n \<le> 2 \<and>
      within_target q \<and> faithful_pool q \<and> accounted path bytes q"
    using within_target_step [OF step _ only_top_ups_calm] faithful_pool_step [OF step]
      accounted_step [OF step] by simp
qed

text \<open>
  C7: two threads that top up memory at once lose no photo. On a card that can be read, while no
  photo is being stored, and however the file operations of at most two threads interleave with
  each other and with taps and rotations, every photo that was on the card is still on it, in the
  hands of a thread, in memory, or has been on the screen; and memory never holds, or is
  about to hold, more than one photo more than there are threads.
\<close>

theorem two_threads_lose_no_photo:
  assumes "all_outside p" and "length (threads p) \<le> 2"
    and "photo_memory p = Unpoisoned s" and "length (buffer s) \<le> Suc (length (threads p))"
    and "only_top_ups w" and "pool_run w p p'"
    and "fs_read path (folder p) = Some bytes" and "length bytes = PHOTO_BYTES"
  shows "accounted path bytes p' \<and>
    (\<exists>s'. photo_memory p' = Unpoisoned s' \<and> length (buffer s') + under_way (threads p') \<le> Suc (length (threads p)))"
proof -
  have "within_target p" "faithful_pool p" "accounted path bytes p"
    using within_target_start [OF assms(1,3,4)] assms(1,7)
    by (auto simp: faithful_pool_def all_outside_def accounted_def)
  with top_up_runs.along_runs [OF assms(6), of bytes "length (threads p)" path] assms(2,5,8) show ?thesis
    by (auto simp: within_target_def)
qed

theorem two_threads_lose_no_photo_witness:
  "let m = top_up_from_cache (\<lambda>_. healthy_env None) 0 (Unpoisoned store_init) [(path_for 0 ''a1'', black_photo)]
   in accounted (path_for 0 ''a1'') black_photo
        ((start_pool 2 store_init [])\<lparr>photo_memory := fst m, folder := snd m\<rparr>)"
proof -
  let ?fs = "[(path_for 0 ''a1'', black_photo)]"
  obtain m fs where m: "top_up_from_cache (\<lambda>_. healthy_env None) 0 (Unpoisoned store_init) ?fs = (m, fs)"
    by (cases "top_up_from_cache (\<lambda>_. healthy_env None) 0 (Unpoisoned store_init) ?fs")
  let ?p = "(start_pool 2 store_init ?fs)\<lparr>threads := [Checking, Outside]\<rparr>"
  have "pool_step (healthy_outside {}) (start_pool 2 store_init ?fs) ?p"
    using begin_top_up [of 0 "start_pool 2 store_init ?fs" "healthy_outside {}"]
    by (simp add: start_pool_def numeral_2_eq_2)
  moreover have "pool_run (healthy_outside {}) ?p (?p\<lparr>threads := [Outside, Outside], photo_memory := m, folder := fs\<rparr>)"
    using steps_in_pool [OF steps_top_up [of "healthy_env None" "Unpoisoned store_init" ?fs 0], of ?p 0 "healthy_outside {}"]
    by (simp add: m start_pool_def healthy_outside_def)
  ultimately have "pool_run (healthy_outside {}) (start_pool 2 store_init ?fs)
      (?p\<lparr>threads := [Outside, Outside], photo_memory := m, folder := fs\<rparr>)"
    by (rule converse_rtranclp_into_rtranclp)
  from two_threads_lose_no_photo [OF _ _ _ _ _ this, of store_init "path_for 0 ''a1''" black_photo]
  have "accounted (path_for 0 ''a1'') black_photo ((start_pool 2 store_init [])\<lparr>photo_memory := m, folder := fs\<rparr>)"
    by (simp add: m only_top_ups_def healthy_outside_def store_init_def write_ok_def
        fs_read_def black_photo_facts PHOTO_BYTES_eq) (simp add: start_pool_def numeral_2_eq_2)
  then show ?thesis by (simp only: m Let_def fst_conv snd_conv)
qed

section \<open>What the missing lock does break\<close>

lemma healthy_work:
  assumes "steps_to (healthy_env None) (threads p ! j, photo_memory p, folder p) (th, m, fs)" and "j < length (threads p)"
  shows "pool_run (healthy_outside {}) p (p\<lparr>threads := (threads p)[j := th], photo_memory := m, folder := fs\<rparr>)"
  using steps_in_pool [OF assms(1) refl assms(2)] by (simp add: healthy_outside_def)

lemma healthy_begin:
  "j < length (threads p) \<Longrightarrow> threads p ! j = Outside \<Longrightarrow>
   pool_run (healthy_outside {}) p (p\<lparr>threads := (threads p)[j := Checking]\<rparr>)"
  by (intro r_into_rtranclp begin_top_up)

text \<open>One thread's steps inside a run of all of them.\<close>

definition at_work :: "thread list \<Rightarrow> store \<Rightarrow> files \<Rightarrow> pool" where
  "at_work ths s fs = \<lparr>threads = ths, photo_memory = Unpoisoned s, folder = fs, passed = []\<rparr>"

lemma thread_works:
  assumes "steps_to (healthy_env None) (ths ! j, Unpoisoned s, fs) (th, Unpoisoned s', fs')" and "j < length ths"
  shows "pool_run (healthy_outside {}) (at_work ths s fs) (at_work (ths[j := th]) s' fs')"
  using healthy_work [of "at_work ths s fs" j th "Unpoisoned s'" fs'] assms by (simp add: at_work_def)

lemma thread_begins_and_works:
  assumes "steps_to (healthy_env None) (Checking, Unpoisoned s, fs) (th, Unpoisoned s', fs')"
    and "j < length ths" and "ths ! j = Outside"
  shows "pool_run (healthy_outside {}) (at_work ths s fs) (at_work (ths[j := th]) s' fs')"
proof -
  have "pool_run (healthy_outside {}) (at_work ths s fs) (at_work (ths[j := Checking]) s fs)"
    using healthy_begin [of j "at_work ths s fs"] assms(2,3) by (simp add: at_work_def)
  also have "pool_run (healthy_outside {}) \<dots> (at_work (ths[j := th]) s' fs')"
    using thread_works [of "ths[j := Checking]" j] assms by simp
  finally show ?thesis .
qed

lemma starts_listing:
  "length (buffer s) < 2 \<Longrightarrow> steps_to (healthy_env None) (Listing, Unpoisoned s, fs) c \<Longrightarrow>
   steps_to (healthy_env None) (Checking, Unpoisoned s, fs) c"
  by (rule steps_to.step) (simp add: MEMORY_BUFFER_TARGET_def)

lemma stops_when_full:
  "2 \<le> length (buffer s) \<Longrightarrow> steps_to (healthy_env None) (Checking, Unpoisoned s, fs) (Outside, Unpoisoned s, fs)"
  by (rule one_step) (simp add: MEMORY_BUFFER_TARGET_def)

lemma pushes_photo:
  "length a = PHOTO_BYTES \<Longrightarrow>
   steps_to (healthy_env None) (Pushing a, Unpoisoned s, fs) (Checking, Unpoisoned (snd (push_body (panel_image a) s)), fs)"
  by (rule one_step) (simp add: image_of_photo push_rendered_image_def)

lemma removes_photo:
  "steps_to (healthy_env None) (Removing path a, m, fs) (Pushing a, m, fs_remove path fs)"
  by (rule one_step) (simp add: try_remove_def)

lemma reads_lone_photo:
  assumes "length a = PHOTO_BYTES"
  shows "steps_to (healthy_env None) (Listing, m, [(path_for 0 i, a)]) (Removing (path_for 0 i) a, m, [(path_for 0 i, a)])"
proof -
  have "steps_to (healthy_env None) (Listing, m, [(path_for 0 i, a)]) (Reading [path_for 0 i], m, [(path_for 0 i, a)])"
    by (rule one_step) (simp add: entries_everything names_def)
  also have "steps_to (healthy_env None) \<dots> (Removing (path_for 0 i) a, m, [(path_for 0 i, a)])"
    by (rule one_step) (simp add: try_read_def fs_read_def assms)
  finally show ?thesis .
qed

lemma fetches_oldest:
  assumes "own_cache fs" and "photos fs = a # rest"
  obtains fs' where "steps_to (healthy_env None) (Listing, m, fs) (Pushing a, m, fs')" "own_cache fs'" "photos fs' = rest"
  using steps_take_oldest [of "healthy_env None" m fs] take_healthy_laws [OF assms(1)] assms(2)
  by (auto simp: taken_def take_healthy_def)

lemma one_photo_twice:
  assumes "length a = PHOTO_BYTES"
  shows "pool_run (healthy_outside {}) (at_work [Outside, Outside] store_init [(path_for 0 i, a)])
    (at_work [Outside, Outside] \<lparr>buffer = [panel_image a, panel_image a], generation = 1\<rparr> [])"
proof -
  let ?fs = "[(path_for 0 i, a)]" and ?r = "Removing (path_for 0 i) a"
  let ?s1 = "\<lparr>buffer = [panel_image a], generation = 1\<rparr>"
  let ?s2 = "\<lparr>buffer = [panel_image a, panel_image a], generation = 1\<rparr>"
  have empty: "length (buffer store_init) < 2" by (simp add: store_init_def)
  have push: "snd (push_body (panel_image a) store_init) = ?s1" "snd (push_body (panel_image a) ?s1) = ?s2"
    by (simp_all add: push_body_def make_room_def BUFFER_CAPACITY_def store_init_def)
  note reads = starts_listing [OF empty reads_lone_photo [OF assms]]
  have "pool_run (healthy_outside {}) (at_work [Outside, Outside] store_init ?fs) (at_work [?r, Outside] store_init ?fs)"
    using thread_begins_and_works [OF reads, of 0 "[Outside, Outside]"] by simp
  also have "pool_run (healthy_outside {}) \<dots> (at_work [?r, ?r] store_init ?fs)"
    using thread_begins_and_works [OF reads, of 1 "[?r, Outside]"] by simp
  also have "pool_run (healthy_outside {}) \<dots> (at_work [Pushing a, ?r] store_init [])"
    using thread_works [of "[?r, ?r]" 0] removes_photo [of "path_for 0 i" a _ ?fs] by (simp add: fs_remove_def)
  also have "pool_run (healthy_outside {}) \<dots> (at_work [Checking, ?r] ?s1 [])"
    using thread_works [of "[Pushing a, ?r]" 0] pushes_photo [OF assms, of store_init] push by simp
  also have "pool_run (healthy_outside {}) \<dots> (at_work [Checking, Pushing a] ?s1 [])"
    using thread_works [of "[Checking, ?r]" 1] removes_photo [of "path_for 0 i" a _ "[]"] by (simp add: fs_remove_def)
  also have "pool_run (healthy_outside {}) \<dots> (at_work [Checking, Checking] ?s2 [])"
    using thread_works [of "[Checking, Pushing a]" 1] pushes_photo [OF assms, of ?s1] push by simp
  also have "pool_run (healthy_outside {}) \<dots> (at_work [Checking, Outside] ?s2 [])"
    using thread_works [of "[Checking, Checking]" 1] stops_when_full [of ?s2] by simp
  also have "pool_run (healthy_outside {}) \<dots> (at_work [Outside, Outside] ?s2 [])"
    using thread_works [of "[Checking, Outside]" 0] stops_when_full [of ?s2] by simp
  finally show ?thesis .
qed

lemma pushes_and_stops:
  assumes "length a = PHOTO_BYTES" and "snd (push_body (panel_image a) s) = s'" and "2 \<le> length (buffer s')"
  shows "steps_to (healthy_env None) (Pushing a, Unpoisoned s, fs) (Outside, Unpoisoned s', fs)"
  using steps_to_trans [OF pushes_photo [OF assms(1), of s fs]] stops_when_full assms(2,3) by simp

lemma one_photo_lost:
  assumes "own_cache fs" and "photos fs = [b, c, d]" and "length (buffer s) = 1"
  shows "\<exists>fs'. photos fs' = [] \<and> pool_run (healthy_outside {}) (at_work [Outside, Outside, Outside] s fs)
      (at_work [Outside, Outside, Outside] (s\<lparr>buffer := buffer s @ [panel_image b, panel_image d]\<rparr>) fs')"
proof -
  have len: "length b = PHOTO_BYTES" "length c = PHOTO_BYTES" "length d = PHOTO_BYTES"
    using photos_length [of _ fs] assms(2) by auto
  let ?s1 = "s\<lparr>buffer := buffer s @ [panel_image b]\<rparr>"
  let ?s2 = "s\<lparr>buffer := buffer s @ [panel_image b, panel_image c]\<rparr>"
  let ?s3 = "s\<lparr>buffer := buffer s @ [panel_image b, panel_image d]\<rparr>"
  have push: "snd (push_body (panel_image b) s) = ?s1" "snd (push_body (panel_image c) ?s1) = ?s2"
    "snd (push_body (panel_image d) ?s2) = ?s3"
    using assms(3) by (auto simp: push_body_def make_room_def BUFFER_CAPACITY_def Let_def length_Suc_conv)
  have low: "length (buffer s) < 2" using assms(3) by simp
  obtain fs1 where f1: "steps_to (healthy_env None) (Listing, Unpoisoned s, fs) (Pushing b, Unpoisoned s, fs1)"
    "own_cache fs1" "photos fs1 = [c, d]" using fetches_oldest [OF assms(1,2)] .
  obtain fs2 where f2: "steps_to (healthy_env None) (Listing, Unpoisoned s, fs1) (Pushing c, Unpoisoned s, fs2)"
    "own_cache fs2" "photos fs2 = [d]" using fetches_oldest [OF f1(2,3)] .
  obtain fs3 where f3: "steps_to (healthy_env None) (Listing, Unpoisoned s, fs2) (Pushing d, Unpoisoned s, fs3)"
    "own_cache fs3" "photos fs3 = []" using fetches_oldest [OF f2(2,3)] .
  have "pool_run (healthy_outside {}) (at_work [Outside, Outside, Outside] s fs) (at_work [Pushing b, Outside, Outside] s fs1)"
    using thread_begins_and_works [OF starts_listing [OF low f1(1)], of 0 "[Outside, Outside, Outside]"] by simp
  also have "pool_run (healthy_outside {}) \<dots> (at_work [Pushing b, Pushing c, Outside] s fs2)"
    using thread_begins_and_works [OF starts_listing [OF low f2(1)], of 1 "[Pushing b, Outside, Outside]"] by simp
  also have "pool_run (healthy_outside {}) \<dots> (at_work [Pushing b, Pushing c, Pushing d] s fs3)"
    using thread_begins_and_works [OF starts_listing [OF low f3(1)], of 2 "[Pushing b, Pushing c, Outside]"]
    by (simp add: numeral_2_eq_2)
  also have "pool_run (healthy_outside {}) \<dots> (at_work [Outside, Pushing c, Pushing d] ?s1 fs3)"
    using thread_works [of "[Pushing b, Pushing c, Pushing d]" 0] pushes_and_stops [OF len(1) push(1)] assms(3) by simp
  also have "pool_run (healthy_outside {}) \<dots> (at_work [Outside, Outside, Pushing d] ?s2 fs3)"
    using thread_works [of "[Outside, Pushing c, Pushing d]" 1] pushes_and_stops [OF len(2) push(2)] assms(3) by simp
  also have "pool_run (healthy_outside {}) \<dots> (at_work [Outside, Outside, Outside] ?s3 fs3)"
    using thread_works [of "[Outside, Outside, Pushing d]" 2] pushes_and_stops [OF len(3) push(3)] assms(3)
    by (simp add: numeral_2_eq_2)
  finally show ?thesis using f3(3) by blast
qed

text \<open>
  C8: without a lock, threads that top up memory at once can load one photo twice, and can lose one.
  Two threads that both read the only photo of the card before either removes it both push it.
  Three threads that all find one photo in memory each fetch another; the third push finds memory
  full and drops the photo that the second one took off the card, which is never shown.
\<close>

theorem unlocked_top_ups_repeat_and_lose:
  assumes "length a = PHOTO_BYTES" and "own_cache fs" and "photos fs = [b, c, d]" and "length (buffer s) = 1"
  shows "pool_run (healthy_outside {}) (start_pool 2 store_init [(path_for 0 i, a)])
      (start_pool 2 \<lparr>buffer = [panel_image a, panel_image a], generation = 1\<rparr> []) \<and>
    (\<exists>fs'. photos fs' = [] \<and> pool_run (healthy_outside {}) (start_pool 3 s fs)
      (start_pool 3 (s\<lparr>buffer := buffer s @ [panel_image b, panel_image d]\<rparr>) fs'))"
  using one_photo_twice [OF assms(1)] one_photo_lost [OF assms(2-4)]
  by (simp add: at_work_def start_pool_def numeral_2_eq_2 numeral_3_eq_3)

theorem unlocked_top_ups_repeat_and_lose_witness:
  "\<exists>fs'. photos fs' = [] \<and> pool_run (healthy_outside {})
     (start_pool 3 \<lparr>buffer = [px_image 1 ''x''], generation = 1\<rparr>
       [(path_for 0 ''a'', black_photo), (path_for 1 ''b'', black_photo), (path_for 2 ''c'', black_photo)])
     (start_pool 3 \<lparr>buffer = [px_image 1 ''x'', panel_image black_photo, panel_image black_photo], generation = 1\<rparr> fs')"
proof -
  let ?fs = "[(path_for 0 ''a'', black_photo), (path_for 1 ''b'', black_photo), (path_for 2 ''c'', black_photo)]"
  have less: "path_for 0 ''a'' < path_for 1 ''b''" "path_for 1 ''b'' < path_for 2 ''c''"
    by (simp_all add: path_for_less)
  then have "sorted [path_for 0 ''a'', path_for 1 ''b'', path_for 2 ''c'']"
    by (auto simp: less_imp_le intro: order_trans)
  then have names: "entries everything ?fs = [path_for 0 ''a'', path_for 1 ''b'', path_for 2 ''c'']"
    by (simp add: entries_everything names_def sorted_sort_id del: sort_key_simps)
  have "photos ?fs = [black_photo, black_photo, black_photo]"
    using less by (simp add: photos_def names fs_read_def black_photo_facts PHOTO_BYTES_eq del: One_nat_def)
  moreover have "own_name (path_for n x)" if "n < 3" for n x
    using that unfolding own_name_def by (intro exI [of _ n] exI [of _ x]) simp
  then have "own_cache ?fs"
    using less by (auto simp: own_cache_def names_def simp del: One_nat_def)
  ultimately show ?thesis
    using unlocked_top_ups_repeat_and_lose [of black_photo ?fs black_photo black_photo black_photo
        "\<lparr>buffer = [px_image 1 ''x''], generation = 1\<rparr>"]
    by (simp add: black_photo_facts PHOTO_BYTES_eq)
qed

end
