(* ===== verification/Calls_Return.thy ===== *)
theory Calls_Return
  imports Card_Threads
begin

text \<open>
  Every call returns, however the threads interleave. \<open>top_up_from_cache\<close> of \<open>frame-firmware/src/runtime.rs\<close> is a
  loop that asks the card and the store again at every pass, while the other threads change both; the
  measure here goes down at every step of every thread, whatever the card answers.
\<close>

section \<open>Steps that are not calls\<close>

text \<open>A step of a thread that is inside one of its calls.\<close>

inductive busy_step :: "outside \<Rightarrow> pool \<Rightarrow> pool \<Rightarrow> bool" for w where
  busy: "j < length (threads p) \<Longrightarrow> threads p ! j \<noteq> Outside \<Longrightarrow> env \<in> behaviours w \<Longrightarrow>
     thread_step env (threads p ! j, photo_memory p, folder p) = (th, m, fs) \<Longrightarrow>
     busy_step w p (p\<lparr>threads := (threads p)[j := th], photo_memory := m, folder := fs\<rparr>)"

inductive_cases busy_stepE [elim]: "busy_step w p p'"

lemma busy_is_step: "busy_step w p p' \<Longrightarrow> pool_step w p p'"
  by (auto intro: work)

section \<open>The measure\<close>

text \<open>
  How far a thread is from the loop of the top-up: the steps of storing a photo lead there and are not taken again.
  Bytes that are no picture come off the card at most once for each thread.
\<close>

fun before_loop :: "thread \<Rightarrow> nat" where
  "before_loop (Queueing photo_id pixels img) = 6"
| "before_loop (Measuring photo_id pixels img) = 5"
| "before_loop (Naming photo_id pixels img) = 4"
| "before_loop (Writing path pixels img) = 3"
| "before_loop (Renaming path pixels img) = 2"
| "before_loop (Falling_Back img) = 1"
| "before_loop (Removing path bytes) = of_bool (length bytes \<noteq> PHOTO_BYTES)"
| "before_loop (Pushing bytes) = of_bool (length bytes \<noteq> PHOTO_BYTES)"
| "before_loop th = 0"

text \<open>The passes that the loops can still take together.\<close>

definition missing :: "store mutex \<Rightarrow> nat" where
  "missing m = MEMORY_BUFFER_TARGET - buffered_or_max m"

text \<open>The steps to the end of a pass, when at most \<open>n\<close> files can be listed.\<close>

fun in_pass :: "bool \<Rightarrow> nat \<Rightarrow> thread \<Rightarrow> nat" where
  "in_pass full n Checking = (if full then 1 else 2 * n + 7)"
| "in_pass full n Listing = 2 * n + 6"
| "in_pass full n (Reading paths) = 2 * length paths + 4"
| "in_pass full n (Discarding path paths) = 2 * length paths + 5"
| "in_pass full n (Removing path bytes) = 3"
| "in_pass full n (Pushing bytes) = 2"
| "in_pass full n th = 0"

lemma in_pass_mono: "n \<le> n' \<Longrightarrow> in_pass full n th \<le> in_pass full n' th"
  by (cases th) simp_all

lemma entries_length: "length (entries l fs) \<le> length fs"
  unfolding entries_def names_def
  by (auto split: option.split intro: order_trans [OF length_filter_le])

lemma try_remove_length: "length (try_remove env path fs) \<le> length fs"
  by (simp add: try_remove_def fs_remove_def length_delete_le)

text \<open>A photo that is pushed is one fewer missing, as long as any is; the store never gets shorter by a push.\<close>

lemma push_missing:
  assumes "push_rendered_image img m = (r, m')"
  shows "missing m' \<le> missing m" and "missing m \<noteq> 0 \<Longrightarrow> missing m' < missing m"
proof -
  show "missing m' \<le> missing m"
    using assms
    by (cases m) (auto simp: push_rendered_image_def push_body_def make_room_def missing_def buffered_or_max_def
        rendered_image_snapshot_def snapshot_body_def BUFFER_CAPACITY_def MEMORY_BUFFER_TARGET_def butlast_conv_take Let_def)
  assume some: "missing m \<noteq> 0"
  then have "buffered_or_max m < MEMORY_BUFFER_TARGET" by (simp add: missing_def)
  moreover from this have "m \<noteq> Poisoned"
    by (auto simp: buffered_or_max_def rendered_image_snapshot_def usize_limit_def MEMORY_BUFFER_TARGET_def)
  then have "r = Inr ()" using assms by (cases m) (auto simp: push_rendered_image_def)
  ultimately show "missing m' < missing m" using push_grows [of img m "()" m'] assms by (simp add: missing_def)
qed

text \<open>One step of a busy thread, by the loop it is in.\<close>

lemma busy_thread:
  assumes "thread_step env (th, m, fs) = (th', m', fs')" and "th \<noteq> Outside"
  shows "before_loop th' < before_loop th \<or>
    before_loop th' = before_loop th \<and>
      (missing m' < missing m \<or>
       missing m' = missing m \<and> length fs' \<le> length fs \<and>
         in_pass (missing m = 0) (length fs) th' < in_pass (missing m = 0) (length fs) th)"
proof (cases th)
  case Checking
  with assms(1) show ?thesis by (auto simp: missing_def)
next
  case Listing
  with assms(1) entries_length [of "list_contains env" fs] show ?thesis by auto
next
  case (Reading paths)
  with assms(1) show ?thesis by (cases paths) (auto split: option.splits if_splits)
next
  case (Discarding path paths)
  with assms(1) try_remove_length [of env path fs] show ?thesis by auto
next
  case (Removing path bytes)
  with assms(1) try_remove_length [of env path fs] show ?thesis by auto
next
  case (Pushing bytes)
  show ?thesis
  proof (cases "length bytes = PHOTO_BYTES")
    case True
    obtain r m1 where push: "push_rendered_image (panel_image bytes) m = (r, m1)" by force
    with assms(1) Pushing True have "m' = m1" "fs' = fs" "th' = Outside \<or> th' = Checking"
      by (auto simp: image_of_photo split: sum.splits)
    with push_missing [OF push] Pushing True show ?thesis by (cases "missing m = 0") auto
  next
    case False
    with assms(1) Pushing show ?thesis by (auto split: sum.splits prod.splits)
  qed
qed (use assms in \<open>auto split: if_splits sum.splits prod.splits\<close>)

definition total :: "(thread \<Rightarrow> nat) \<Rightarrow> pool \<Rightarrow> nat" where
  "total f p = sum_list (map f (threads p))"

lemma total_update:
  assumes "j < length (threads p)"
  shows "total f (p\<lparr>threads := (threads p)[j := th], photo_memory := m, folder := fs\<rparr>) + f (threads p ! j) = total f p + f th"
  using assms elem_le_sum_list [of j "map f (threads p)"] by (simp add: total_def map_update sum_list_update)

definition pool_measures :: "(pool \<times> pool) set" where
  "pool_measures = measures [total before_loop, \<lambda>p. missing (photo_memory p),
     \<lambda>p. total (in_pass (missing (photo_memory p) = 0) (length (folder p))) p]"

lemma busy_goes_down:
  assumes "busy_step w p p'" shows "(p', p) \<in> pool_measures"
  using assms
proof cases
  case (busy j env th m fs)
  note update = total_update [OF busy(2), where th = th and m = m and fs = fs, folded busy(1)]
  have same: "photo_memory p' = m" "folder p' = fs" by (simp_all add: busy(1))
  from busy_thread [OF busy(5,3)] consider
      (once) "before_loop th < before_loop (threads p ! j)"
    | (push) "before_loop th = before_loop (threads p ! j)" "missing m < missing (photo_memory p)"
    | (pass) "before_loop th = before_loop (threads p ! j)" "missing m = missing (photo_memory p)"
        "length fs \<le> length (folder p)"
        "in_pass (missing m = 0) (length (folder p)) th < in_pass (missing m = 0) (length (folder p)) (threads p ! j)"
    by auto
  then show ?thesis
  proof cases
    case pass
    let ?f = "in_pass (missing m = 0)"
    have "total (?f (length fs)) p' \<le> total (?f (length (folder p))) p'"
      unfolding total_def by (intro sum_list_mono in_pass_mono pass(3))
    also have "\<dots> < total (?f (length (folder p))) p" using update [of "?f (length (folder p))"] pass(4) by simp
    finally show ?thesis using pass(1,2) same update [of before_loop] by (simp add: pool_measures_def)
  qed (use same update [of before_loop] in \<open>simp_all add: pool_measures_def\<close>)
qed

lemma pool_measures_wf: "wf pool_measures"
  by (simp add: pool_measures_def)

lemma busy_thread_steps:
  assumes "env \<in> behaviours w" and "\<not> all_outside p" obtains p' where "busy_step w p p'"
proof -
  obtain j where "j < length (threads p)" "threads p ! j \<noteq> Outside" using assms(2) by (auto simp: all_outside_def)
  moreover obtain th m fs where "thread_step env (threads p ! j, photo_memory p, folder p) = (th, m, fs)"
    by (metis prod_cases3)
  ultimately show thesis using that busy assms(1) by blast
qed

text \<open>
  C9: every call returns under every interleaving. Whatever moment of whatever threads a run is taken up at -- top-ups in
  any number, a photo being stored -- and whatever the card does at each step, refusing to list, to read or to
  remove: a run goes on for ever only if steps other than those of the calls under way, which are new calls, taps,
  rotations and idling, come again and again; and the calls under way can always be finished by their own
  steps, which leaves every thread outside.
\<close>

theorem interleaved_calls_return:
  assumes "env \<in> behaviours w"
  shows "(\<forall>run. (\<forall>i. pool_step w (run i) (run (Suc i))) \<longrightarrow>
      (\<forall>n. \<exists>i \<ge> n. \<not> busy_step w (run i) (run (Suc i)))) \<and>
    (\<forall>p'. (busy_step w)\<^sup>*\<^sup>* p p' \<longrightarrow> (\<exists>p''. (busy_step w)\<^sup>*\<^sup>* p' p'' \<and> all_outside p''))"
proof -
  have "\<exists>i \<ge> n. \<not> busy_step w (run i) (run (Suc i))" for run n
  proof (rule ccontr)
    assume "\<not> ?thesis"
    then have "busy_step w (run (n + i)) (run (Suc (n + i)))" for i by (metis le_add1)
    then have "(run (n + Suc i), run (n + i)) \<in> pool_measures" for i by (metis busy_goes_down add_Suc_right)
    with pool_measures_wf show False by (auto simp: wf_iff_no_infinite_down_chain dest: spec [of _ "\<lambda>i. run (n + i)"])
  qed
  moreover have "\<exists>p''. (busy_step w)\<^sup>*\<^sup>* p' p'' \<and> all_outside p''" for p'
  proof (induction p' rule: wf_induct_rule [OF pool_measures_wf])
    case (1 p')
    show ?case
    proof (cases "all_outside p'")
      case False
      obtain q where q: "busy_step w p' q" by (rule busy_thread_steps [OF assms False])
      with 1 [OF busy_goes_down [OF q]] show ?thesis by (meson converse_rtranclp_into_rtranclp)
    qed blast
  qed
  ultimately show ?thesis by blast
qed

text \<open>A top-up and a photo being stored, on a card that refuses everything.\<close>

definition dead_card :: cache_env where
  "dead_card = (healthy_env None)\<lparr>list_contains := None, list_count := None, list_order := None,
     refuses_read := \<lambda>_. True, refuses_remove := \<lambda>_. True, write_out := NotOpened, rename_ok := False\<rparr>"

definition caught_in_the_act :: pool where
  "caught_in_the_act = (start_pool 2 store_init [])\<lparr>threads := [Writing ''a'' [] (px_image 1 ''a''), Reading [''b'', ''c'']]\<rparr>"

theorem interleaved_calls_return_witness:
  "\<exists>p. (busy_step \<lparr>behaviours = {dead_card}, downloads = {}, drawn = {}\<rparr>)\<^sup>*\<^sup>* caught_in_the_act p \<and> all_outside p \<and>
     \<not> all_outside caught_in_the_act"
proof -
  have busy: "\<not> all_outside caught_in_the_act" by (auto simp: all_outside_def caught_in_the_act_def)
  have env: "dead_card \<in> behaviours \<lparr>behaviours = {dead_card}, downloads = {}, drawn = {}\<rparr>" by simp
  with interleaved_calls_return [OF env, of caught_in_the_act] busy show ?thesis by blast
qed

end
