(* ===== verification/Build_Config.thy ===== *)
theory Build_Config
  imports Provisioning Firmware_Loop
begin

text \<open>
  The build scripts: \<open>packages/frame-net/build.rs\<close>, \<open>packages/frame-firmware/build.rs\<close> and
  \<open>packages/frame-api/build.rs\<close>, and what their output makes of the settings that the frame runs with. A script
  is the list of lines it prints. What it reads is an argument: the environment of the build and what the
  \<open>dotenvy\<close> crate yields for the workspace's \<open>.env\<close>, as is what \<open>embuild\<close> prints. Cargo is
  an argument too, with its documented treatment of \<open>rustc-env\<close> lines as the hypothesis \<open>relays_env\<close>.
\<close>

section \<open>The scripts\<close>

record build_env =
  manifest_dir :: string
  process_var :: "string \<Rightarrow> string option"
  dotenv_items :: "string \<Rightarrow> (string \<times> string) result list result"

text \<open>\<open>PathBuf::join\<close> of a relative path.\<close>

definition join_path :: "string \<Rightarrow> string \<Rightarrow> string" where
  "join_path dir rel = (if dir = [] \<or> last dir = CHR ''/'' then dir @ rel else dir @ ''/'' @ rel)"

definition rerun_if_changed :: "string \<Rightarrow> string" where
  "rerun_if_changed path = ''cargo:rerun-if-changed='' @ path"

definition rerun_if_env_changed :: "string \<Rightarrow> string" where
  "rerun_if_env_changed key = ''cargo:rerun-if-env-changed='' @ key"

definition rustc_env :: "string \<Rightarrow> string \<Rightarrow> string" where
  "rustc_env key v = ''cargo:rustc-env='' @ key @ ''='' @ v"

text \<open>The loop over the readable entries of \<open>.env\<close>; a file that cannot be opened has none.\<close>

definition bake_line :: "string list \<Rightarrow> build_env \<Rightarrow> string \<times> string \<Rightarrow> string option" where
  "bake_line keys b item =
     (case item of (key, v) \<Rightarrow>
        if key \<in> set keys \<and> process_var b key = None \<and> str_trim v \<noteq> [] then Some (rustc_env key v) else None)"

definition baked_lines :: "string list \<Rightarrow> string \<Rightarrow> build_env \<Rightarrow> string list" where
  "baked_lines keys path b =
     (case dotenv_items b path of
        Inl _ \<Rightarrow> []
      | Inr items \<Rightarrow> List.map_filter (bake_line keys b)
          (List.map_filter (\<lambda>r. case r of Inl _ \<Rightarrow> None | Inr p \<Rightarrow> Some p) items))"

definition workspace_env :: "build_env \<Rightarrow> string" where
  "workspace_env b = join_path (manifest_dir b) ''../../.env''"

definition net_build :: "build_env \<Rightarrow> string list" where
  "net_build b =
     [rerun_if_changed ''build.rs'', rerun_if_env_changed ''WIFI_SSID'', rerun_if_env_changed ''WIFI_PASSWORD'',
      rerun_if_changed (workspace_env b), rerun_if_changed (join_path (manifest_dir b) ''../../.env.sample'')] @
     baked_lines [''WIFI_SSID'', ''WIFI_PASSWORD''] (workspace_env b) b"

definition firmware_build :: "string list \<Rightarrow> build_env \<Rightarrow> string list" where
  "firmware_build embuild b =
     [rerun_if_changed ''build.rs'', rerun_if_changed ''bsp_bindings.h'', rerun_if_changed ''components/vendor'',
      rerun_if_changed ''components/frame_ble_spike/frame_ble_spike.c'', rerun_if_changed ''idf_component.yml'',
      rerun_if_changed ''sdkconfig.defaults'', rerun_if_changed ''../../sdkconfig.defaults'',
      rerun_if_env_changed ''HA_CONTROL_URL'', rerun_if_changed (workspace_env b)] @
     baked_lines [''HA_CONTROL_URL''] (workspace_env b) b @ embuild"

definition api_build :: "string list" where
  "api_build = [rerun_if_changed ''build.rs'']"

section \<open>What the compiler sees\<close>

text \<open>The value a line sets a variable to, and all the values that the lines set it to.\<close>

definition setting_of :: "string \<Rightarrow> string \<Rightarrow> string option" where
  "setting_of key l =
     (let start = rustc_env key [] in if take (length start) l = start then Some (drop (length start) l) else None)"

definition settings :: "string \<Rightarrow> string list \<Rightarrow> string list" where
  "settings key out = List.map_filter (setting_of key) out"

definition one_line :: "string \<Rightarrow> bool" where
  "one_line l \<longleftrightarrow> CHR 0x0A \<notin> set l"

text \<open>
  Cargo's documented promise: a variable that one value is printed for is compiled with that value, and one that no
  line names with the value it has in the environment. What several different values, or a value of several
  lines, would do is left open.
\<close>

type_synonym cargo = "(string \<Rightarrow> string option) \<Rightarrow> string list \<Rightarrow> string \<Rightarrow> string option"

definition relays_env :: "cargo \<Rightarrow> bool" where
  "relays_env cargo \<longleftrightarrow>
     (\<forall>vars out key. (\<forall>l \<in> set out. one_line l) \<longrightarrow>
        (settings key out = [] \<longrightarrow> cargo vars out key = vars key) \<and>
        (\<forall>v. set (settings key out) = {v} \<longrightarrow> cargo vars out key = Some v))"

text \<open>The values of a key in \<open>.env\<close> that are not blank.\<close>

definition dotenv_values :: "string \<Rightarrow> build_env \<Rightarrow> string list" where
  "dotenv_values key b =
     (case dotenv_items b (workspace_env b) of
        Inl _ \<Rightarrow> []
      | Inr items \<Rightarrow> List.map_filter (\<lambda>r. case r of
            Inl _ \<Rightarrow> None
          | Inr (k, v) \<Rightarrow> if k = key \<and> str_trim v \<noteq> [] then Some v else None) items)"

text \<open>The value that a key is built with: the environment's before the file's.\<close>

definition built_with :: "string \<Rightarrow> build_env \<Rightarrow> string option" where
  "built_with key b =
     (case process_var b key of
        Some v \<Rightarrow> Some v
      | None \<Rightarrow> (case dotenv_values key b of [] \<Rightarrow> None | v # _ \<Rightarrow> Some v))"

lemma settings_simps [simp]:
  "settings key [] = []"
  "settings key (l # out) = (case setting_of key l of None \<Rightarrow> settings key out | Some v \<Rightarrow> v # settings key out)"
  "settings key (out @ out') = settings key out @ settings key out'"
  by (simp_all add: settings_def map_filter_def split: option.split)

lemma reruns_set_nothing [simp]:
  "setting_of key (rerun_if_changed p) = None" "setting_of key (rerun_if_env_changed p) = None"
  by (simp_all add: setting_of_def rustc_env_def rerun_if_changed_def rerun_if_env_changed_def Let_def)

lemma setting_of_own [simp]: "setting_of key (rustc_env key v) = Some v"
  by (simp add: setting_of_def rustc_env_def)

text \<open>The keys have no equals sign, so a line names one of them only.\<close>

definition plain_name :: "string \<Rightarrow> bool" where
  "plain_name key \<longleftrightarrow> CHR ''='' \<notin> set key"

lemma setting_of_other:
  assumes "key \<noteq> key'" and "plain_name key" and "plain_name key'"
  shows "setting_of key (rustc_env key' v) = None"
proof -
  have before: "takeWhile (\<lambda>c. c \<noteq> CHR ''='') (k @ CHR ''='' # t) = k" if "plain_name k" for k t
    using that by (induction k) (auto simp: plain_name_def)
  have "key = key'" if "take (length key + 1) (key' @ ''='' @ v) = key @ ''=''"
  proof -
    from that have "key' @ CHR ''='' # v = key @ CHR ''='' # drop (length key + 1) (key' @ ''='' @ v)"
      by (metis append.assoc append_take_drop_id append_Cons append_Nil)
    then show ?thesis using before assms(2,3) by metis
  qed
  with assms(1) show ?thesis by (auto simp: setting_of_def rustc_env_def Let_def)
qed

lemma baked_settings:
  assumes "\<forall>key \<in> set keys. plain_name key" and "plain_name key"
  shows "settings key (baked_lines keys (workspace_env b) b) =
    (if key \<in> set keys \<and> process_var b key = None then dotenv_values key b else [])"
proof -
  have "settings key (List.map_filter (bake_line keys b)
          (List.map_filter (\<lambda>r. case r of Inl _ \<Rightarrow> None | Inr p \<Rightarrow> Some p) items)) =
      (if key \<in> set keys \<and> process_var b key = None
       then List.map_filter (\<lambda>r. case r of
            Inl _ \<Rightarrow> None
          | Inr (k, v) \<Rightarrow> if k = key \<and> str_trim v \<noteq> [] then Some v else None) items
       else [])" for items :: "(string \<times> string) result list"
  proof (induction items)
    case (Cons r items)
    show ?case
    proof (cases r)
      case (Inr kv)
      obtain k v where "kv = (k, v)" by (cases kv)
      with Cons Inr assms setting_of_other [of key k v] show ?thesis
        by (cases "k = key") (auto simp: bake_line_def List.map_filter_simps split: if_splits)
    qed (use Cons in \<open>simp add: List.map_filter_simps\<close>)
  qed (simp add: List.map_filter_simps)
  then show ?thesis by (simp add: baked_lines_def dotenv_values_def split: sum.split)
qed

lemma cargo_keys [simp]:
  "plain_name ''WIFI_SSID''" "plain_name ''WIFI_PASSWORD''" "plain_name ''HA_CONTROL_URL''"
  by (simp_all add: plain_name_def)

lemma baked_one_line:
  assumes "\<forall>key \<in> set keys. one_line key \<and> (\<forall>v \<in> set (dotenv_values key b). one_line v)"
    and "l \<in> set (baked_lines keys (workspace_env b) b)"
  shows "one_line l"
proof -
  obtain items where items: "dotenv_items b (workspace_env b) = Inr items"
    using assms(2) by (cases "dotenv_items b (workspace_env b)") (simp_all add: baked_lines_def)
  then obtain key v where "Inr (key, v) \<in> set items" "key \<in> set keys" "str_trim v \<noteq> []" "l = rustc_env key v"
    using assms(2) by (auto simp: baked_lines_def bake_line_def List.map_filter_def split: sum.splits if_splits)
  with items have "v \<in> set (dotenv_values key b)" by (force simp: dotenv_values_def List.map_filter_def)
  with assms(1) \<open>key \<in> set keys\<close> \<open>l = rustc_env key v\<close> show ?thesis by (auto simp: one_line_def rustc_env_def)
qed

text \<open>A script compiles its keys with what \<open>built_with\<close> says, and nothing else differs from the environment.\<close>

lemma script_compiles:
  assumes cargo: "relays_env cargo" and lines: "\<forall>l \<in> set (before @ after). one_line l"
    and keys: "\<forall>k \<in> set keys. plain_name k \<and> one_line k" and key: "plain_name key"
    and vals: "\<forall>k \<in> set keys. length (dotenv_values k b) \<le> 1 \<and> (\<forall>v \<in> set (dotenv_values k b). one_line v)"
    and none: "settings key before = []" "settings key after = []"
  shows "cargo (process_var b) (before @ baked_lines keys (workspace_env b) b @ after) key =
    (if key \<in> set keys then built_with key b else process_var b key)"
proof -
  let ?out = "before @ baked_lines keys (workspace_env b) b @ after"
  have ok: "\<forall>l \<in> set ?out. one_line l" using lines keys vals baked_one_line [of keys b] by auto
  have set: "settings key ?out = (if key \<in> set keys \<and> process_var b key = None then dotenv_values key b else [])"
    using keys key none by (simp add: baked_settings)
  show ?thesis
  proof (cases "key \<in> set keys \<and> process_var b key = None \<and> dotenv_values key b \<noteq> []")
    case True
    with vals obtain v where "dotenv_values key b = [v]" by (cases "dotenv_values key b") fastforce+
    with True set cargo ok show ?thesis by (auto simp: relays_env_def built_with_def)
  next
    case False
    with set have "settings key ?out = []" by (auto split: if_splits)
    with cargo ok have "cargo (process_var b) ?out key = process_var b key" by (auto simp: relays_env_def)
    with False show ?thesis by (auto simp: built_with_def split: option.split)
  qed
qed

section \<open>Where the frame's settings come from\<close>

lemma rerun_one_line [simp]:
  "one_line (rerun_if_changed p) = one_line p" "one_line (rerun_if_env_changed k) = one_line k"
  by (auto simp: one_line_def rerun_if_changed_def rerun_if_env_changed_def)

lemma script_names [simp]:
  "one_line ''build.rs''" "one_line ''WIFI_SSID''" "one_line ''WIFI_PASSWORD''" "one_line ''HA_CONTROL_URL''"
  "one_line ''bsp_bindings.h''" "one_line ''components/vendor''" "one_line ''idf_component.yml''"
  "one_line ''components/frame_ble_spike/frame_ble_spike.c''" "one_line ''sdkconfig.defaults''"
  "one_line ''../../sdkconfig.defaults''"
  by (simp_all add: one_line_def)

lemma joined_one_line: "one_line dir \<Longrightarrow> one_line rel \<Longrightarrow> one_line (join_path dir rel)"
  by (auto simp: one_line_def join_path_def)

lemma workspace_one_line [simp]: "one_line (manifest_dir b) \<Longrightarrow> one_line (workspace_env b)"
  unfolding workspace_env_def by (rule joined_one_line) (simp_all add: one_line_def)

text \<open>A file that Cargo reads as it was meant: each key once, and on one line.\<close>

definition plain_dotenv :: "string list \<Rightarrow> build_env \<Rightarrow> bool" where
  "plain_dotenv keys b \<longleftrightarrow> one_line (manifest_dir b) \<and>
     (\<forall>k \<in> set keys. length (dotenv_values k b) \<le> 1 \<and> (\<forall>v \<in> set (dotenv_values k b). one_line v))"

lemma net_build_compiles:
  assumes "relays_env cargo" and "plain_dotenv [''WIFI_SSID'', ''WIFI_PASSWORD''] b" and "plain_name key"
  shows "cargo (process_var b) (net_build b) key =
    (if key \<in> {''WIFI_SSID'', ''WIFI_PASSWORD''} then built_with key b else process_var b key)"
proof -
  have dir: "one_line (manifest_dir b)" using assms(2) by (simp add: plain_dotenv_def)
  have "one_line (join_path (manifest_dir b) ''../../.env.sample'')"
    using dir by (rule joined_one_line) (simp add: one_line_def)
  with dir assms(2,3) show ?thesis unfolding net_build_def
    by (intro trans [OF script_compiles [where after = "[]", unfolded append_Nil2, OF assms(1)]])
      (simp_all add: plain_dotenv_def)
qed

lemma firmware_build_compiles:
  assumes "relays_env cargo" and "plain_dotenv [''HA_CONTROL_URL''] b" and "plain_name key"
    and "\<forall>l \<in> set embuild. one_line l" and "settings key embuild = []"
  shows "cargo (process_var b) (firmware_build embuild b) key =
    (if key = ''HA_CONTROL_URL'' then built_with key b else process_var b key)"
proof -
  have dir: "one_line (manifest_dir b)" using assms(2) by (simp add: plain_dotenv_def)
  with assms(2-5) show ?thesis unfolding firmware_build_def
    by (intro trans [OF script_compiles [where after = embuild, OF assms(1)]]) (simp_all add: plain_dotenv_def)
qed

lemma dotenv_value_filled:
  assumes "v \<in> set (dotenv_values key b)" shows "str_trim v \<noteq> []"
proof (cases "dotenv_items b (workspace_env b)")
  case (Inr items)
  have "v \<in> set (List.map_filter (\<lambda>r. case r of
            Inl _ \<Rightarrow> None
          | Inr (k, v) \<Rightarrow> if k = key \<and> str_trim v \<noteq> [] then Some v else None) items) \<Longrightarrow> str_trim v \<noteq> []"
    for items :: "(string \<times> string) result list"
    by (induction items) (auto simp: List.map_filter_simps split: option.splits sum.splits prod.splits if_splits)
  with Inr assms show ?thesis by (simp add: dotenv_values_def)
qed (use assms in \<open>simp add: dotenv_values_def\<close>)

text \<open>
  The Wi-Fi credentials that the frame starts with come from the first of three places that has them: the environment it
  runs in, untrimmed; the environment it was built in, where a blank value counts as set and so hides
  the file; and the \<open>.env\<close> of the workspace. Whatever else the file holds, no other variable is compiled in.
\<close>

theorem station_settings_have_an_order:
  assumes "relays_env cargo" and "plain_dotenv [''WIFI_SSID'', ''WIFI_PASSWORD''] b"
    and "baked env = cargo (process_var b) (net_build b)"
  shows "\<forall>key \<in> {''WIFI_SSID'', ''WIFI_PASSWORD''}.
      embedded_or_runtime_env env key =
        (if \<exists>v. env_var env key = Some v \<and> str_trim v \<noteq> [] then env_var env key
         else if process_var b key \<noteq> None then nonblank (process_var b key)
         else map_option str_trim (find (\<lambda>_. True) (dotenv_values key b)))"
    and "\<forall>key. plain_name key \<longrightarrow> key \<notin> {''WIFI_SSID'', ''WIFI_PASSWORD''} \<longrightarrow> baked env key = process_var b key"
proof -
  have either: "nonblank (built_with key b) = (if process_var b key \<noteq> None then nonblank (process_var b key)
      else map_option str_trim (find (\<lambda>_. True) (dotenv_values key b)))" for key
    using dotenv_value_filled [of _ key b] by (auto simp: built_with_def nonblank_def Let_def split: option.split list.split)
  have "baked env key = built_with key b" if "key \<in> {''WIFI_SSID'', ''WIFI_PASSWORD''}" for key
    using net_build_compiles [OF assms(1,2), of key] that assms(3) by auto
  then show "\<forall>key \<in> {''WIFI_SSID'', ''WIFI_PASSWORD''}.
      embedded_or_runtime_env env key =
        (if \<exists>v. env_var env key = Some v \<and> str_trim v \<noteq> [] then env_var env key
         else if process_var b key \<noteq> None then nonblank (process_var b key)
         else map_option str_trim (find (\<lambda>_. True) (dotenv_values key b)))"
    by (auto simp: embedded_or_runtime_env_def either split: option.split)
  show "\<forall>key. plain_name key \<longrightarrow> key \<notin> {''WIFI_SSID'', ''WIFI_PASSWORD''} \<longrightarrow> baked env key = process_var b key"
    using net_build_compiles [OF assms(1,2)] assms(3) by simp
qed

text \<open>
  The address of the controller is the one the build environment gives, then the one in \<open>.env\<close>, then the default. An
  empty \<open>HA_CONTROL_URL\<close> in the build environment hides the file and means the default; one of blanks only,
  which the script would skip in the file, is taken for an address.
\<close>

theorem controller_address_has_an_order:
  assumes "relays_env cargo" and "plain_dotenv [''HA_CONTROL_URL''] b"
    and "\<forall>l \<in> set embuild. one_line l" and "settings ''HA_CONTROL_URL'' embuild = []"
  shows "control_plane_url (cargo (process_var b) (firmware_build embuild b) ''HA_CONTROL_URL'') =
    (case process_var b ''HA_CONTROL_URL'' of
       Some [] \<Rightarrow> DEFAULT_CONTROL_PLANE_URL
     | Some url \<Rightarrow> url
     | None \<Rightarrow> (case dotenv_values ''HA_CONTROL_URL'' b of [] \<Rightarrow> DEFAULT_CONTROL_PLANE_URL | url # _ \<Rightarrow> url))"
proof -
  have "v \<in> set (dotenv_values ''HA_CONTROL_URL'' b) \<Longrightarrow> v \<noteq> []" for v
    using dotenv_value_filled [of v _ b] by auto
  then show ?thesis
    unfolding firmware_build_compiles [OF assms(1,2) _ assms(3,4), simplified]
    by (auto simp: control_plane_url_def built_with_def split: option.split list.split)
qed

section \<open>A sample build\<close>

definition sample_cargo :: cargo where
  "sample_cargo vars out key = (case settings key out of [] \<Rightarrow> vars key | v # _ \<Rightarrow> Some v)"

lemma sample_cargo_relays: "relays_env sample_cargo"
proof -
  have "\<exists>vs'. vs = v # vs'" if "set vs = {v}" for vs and v :: string using that by (cases vs) auto
  then show ?thesis by (fastforce simp: relays_env_def sample_cargo_def split: list.split)
qed

definition sample_build :: build_env where
  "sample_build = \<lparr>manifest_dir = ''/w/packages/p'',
     process_var = (\<lambda>k. if k = ''HA_CONTROL_URL'' then Some '' '' else None),
     dotenv_items = (\<lambda>_. Inr [Inr (''WIFI_SSID'', '' Home ''), Inl (Msg ''bad line''), Inr (''WIFI_PASSWORD'', '' ''),
       Inr (''HA_CONTROL_URL'', ''ws://h/ws''), Inr (''TOKEN'', ''t'')])\<rparr>"

lemma sample_trims: "str_trim '' Home '' = ''Home''" "str_trim '' '' = []" "str_trim ''ws://h/ws'' = ''ws://h/ws''"
  by code_simp+

lemma sample_values:
  "dotenv_values ''WIFI_SSID'' sample_build = ['' Home '']" "dotenv_values ''WIFI_PASSWORD'' sample_build = []"
  "dotenv_values ''HA_CONTROL_URL'' sample_build = [''ws://h/ws'']"
  by (simp_all add: dotenv_values_def sample_build_def List.map_filter_simps sample_trims)

lemma sample_plain: "plain_dotenv [''WIFI_SSID'', ''WIFI_PASSWORD''] sample_build" "plain_dotenv [''HA_CONTROL_URL''] sample_build"
  by (simp_all add: plain_dotenv_def sample_values) (simp_all add: one_line_def sample_build_def)

theorem station_settings_have_an_order_witness:
  "\<exists>env. baked env ''TOKEN'' = None \<and> embedded_or_runtime_env env ''WIFI_SSID'' = Some ''Home'' \<and>
     embedded_or_runtime_env env ''WIFI_PASSWORD'' = None"
proof -
  let ?env = "home_env\<lparr>baked := sample_cargo (process_var sample_build) (net_build sample_build)\<rparr>"
  have "plain_name ''TOKEN''" by (simp add: plain_name_def)
  with station_settings_have_an_order [OF sample_cargo_relays sample_plain(1), of ?env]
  have "baked ?env ''TOKEN'' = None \<and> embedded_or_runtime_env ?env ''WIFI_SSID'' = Some ''Home'' \<and>
     embedded_or_runtime_env ?env ''WIFI_PASSWORD'' = None"
    by (simp add: sample_values sample_trims) (simp add: home_env_def sample_build_def)
  then show ?thesis by blast
qed

theorem controller_address_has_an_order_witness:
  "control_plane_url (sample_cargo (process_var sample_build) (firmware_build [] sample_build) ''HA_CONTROL_URL'') = '' ''"
  using controller_address_has_an_order [OF sample_cargo_relays sample_plain(2), of "[]"]
  by (simp add: sample_build_def)

end
