(* ===== verification/Unit_Tests.thy ===== *)
theory Unit_Tests
  imports Frame_System "HOL-Library.Monad_Syntax"
begin

text \<open>
  The repository's own unit tests, run on the model: the \<open>#[cfg(test)]\<close> modules of \<open>frame-core/src/state.rs\<close>
  and \<open>control.rs\<close>, of \<open>frame-ui/src/rendered_image.rs\<close>, \<open>fit.rs\<close> and \<open>local_photos.rs\<close>, and of
  \<open>frame-firmware/src/runtime.rs\<close>.

  A test is a computation that ends, \<open>Some ()\<close>, or panics, \<open>None\<close>; \<open>unwrap\<close>, \<open>expect\<close> and the
  assertions are its steps. A test of the global photo store takes the store the tests before it
  left behind; the lock \<open>EXCLUSIVE\<close> makes it the only user. JSON, the image crate's encoder, decoder
  and resampler, and the temporary folder are arguments.
\<close>

section \<open>Panics\<close>

definition unwrap :: "'e + 'a \<Rightarrow> 'a option" where
  "unwrap r = (case r of Inl _ \<Rightarrow> None | Inr a \<Rightarrow> Some a)"

definition unwrap_step :: "'a result \<times> 's \<Rightarrow> ('a \<times> 's) option" where
  "unwrap_step rs = (case rs of (Inl _, _) \<Rightarrow> None | (Inr a, s) \<Rightarrow> Some (a, s))"

definition expect_err :: "'e + 'a \<Rightarrow> 'e option" where
  "expect_err r = (case r of Inl e \<Rightarrow> Some e | Inr _ \<Rightarrow> None)"

definition assert_that :: "bool \<Rightarrow> unit option" where
  "assert_that b = (if b then Some () else None)"

lemma panic_simps [simp]:
  "unwrap (Inr a) = Some a" "unwrap (Inl e) = None"
  "unwrap_step (Inr a, s) = Some (a, s)" "unwrap_step (Inl err, s) = None"
  "expect_err (Inl e) = Some e" "expect_err (Inr a) = None"
  "assert_that b = Some () \<longleftrightarrow> b" "assert_that True = Some ()"
  by (simp_all add: unwrap_def unwrap_step_def expect_err_def assert_that_def)

section \<open>The photo store\<close>

definition PIXELS :: nat where
  "PIXELS = usize_mul PANEL_LOGICAL_WIDTH PANEL_LOGICAL_HEIGHT"

definition solid :: "u16 \<Rightarrow> RenderedImage option" where
  "solid v = unwrap (image_new (word_of_nat PANEL_LOGICAL_WIDTH) (word_of_nat PANEL_LOGICAL_HEIGHT) (replicate PIXELS v))"

definition showing_the_photo_already_on_screen_does_not_redraw_it :: "store mutex \<Rightarrow> unit option" where
  "showing_the_photo_already_on_screen_does_not_redraw_it m = do {
     photo \<leftarrow> solid 0x1111;
     (_, m) \<leftarrow> unwrap_step (clear_rendered_image m);
     (_, m) \<leftarrow> unwrap_step (show_rendered_image (with_id photo ''aa11'') m);
     before \<leftarrow> unwrap (rendered_image_snapshot m);
     (_, m) \<leftarrow> unwrap_step (show_rendered_image (with_id photo ''aa11'') m);
     after \<leftarrow> unwrap (rendered_image_snapshot m);
     _ \<leftarrow> assert_that (snap_generation after = snap_generation before);
     assert_that (snap_buffered after = 1)
   }"

definition first_pixel :: "RenderedImageSnapshot \<Rightarrow> u16 option" where
  "first_pixel snapshot = do {
     img \<leftarrow> snap_image snapshot;
     (case rgb565 img of [] \<Rightarrow> None | p # _ \<Rightarrow> Some p)
   }"

definition a_different_photo_still_replaces_what_is_on_screen :: "store mutex \<Rightarrow> unit option" where
  "a_different_photo_still_replaces_what_is_on_screen m = do {
     first \<leftarrow> solid 0x1111;
     second \<leftarrow> solid 0x2222;
     (_, m) \<leftarrow> unwrap_step (clear_rendered_image m);
     (_, m) \<leftarrow> unwrap_step (show_rendered_image (with_id first ''aa11'') m);
     before \<leftarrow> unwrap (rendered_image_snapshot m);
     (_, m) \<leftarrow> unwrap_step (show_rendered_image (with_id second ''bb22'') m);
     after \<leftarrow> unwrap (rendered_image_snapshot m);
     _ \<leftarrow> assert_that (snap_generation after \<noteq> snap_generation before);
     pixel \<leftarrow> first_pixel after;
     assert_that (pixel = 0x2222)
   }"

definition an_untagged_photo_is_always_shown :: "store mutex \<Rightarrow> unit option" where
  "an_untagged_photo_is_always_shown m = do {
     photo \<leftarrow> solid 0x1111;
     (_, m) \<leftarrow> unwrap_step (clear_rendered_image m);
     (_, m) \<leftarrow> unwrap_step (show_rendered_image photo m);
     before \<leftarrow> unwrap (rendered_image_snapshot m);
     (_, m) \<leftarrow> unwrap_step (show_rendered_image photo m);
     after \<leftarrow> unwrap (rendered_image_snapshot m);
     assert_that (snap_generation after \<noteq> snap_generation before)
   }"

definition showing_a_photo_replaces_what_is_on_screen_and_keeps_spares :: "store mutex \<Rightarrow> unit option" where
  "showing_a_photo_replaces_what_is_on_screen_and_keeps_spares m = do {
     first \<leftarrow> solid 0x1111;
     second \<leftarrow> solid 0x2222;
     third \<leftarrow> solid 0x3333;
     (_, m) \<leftarrow> unwrap_step (clear_rendered_image m);
     (_, m) \<leftarrow> unwrap_step (show_rendered_image first m);
     (_, m) \<leftarrow> unwrap_step (push_rendered_image second m);
     (_, m) \<leftarrow> unwrap_step (show_rendered_image third m);
     snapshot \<leftarrow> unwrap (rendered_image_snapshot m);
     pixel \<leftarrow> first_pixel snapshot;
     _ \<leftarrow> assert_that (pixel = 0x3333);
     assert_that (snap_buffered snapshot = 3)
   }"

definition queueing_a_spare_does_not_change_what_is_on_screen :: "store mutex \<Rightarrow> unit option" where
  "queueing_a_spare_does_not_change_what_is_on_screen m = do {
     first \<leftarrow> solid 0x1111;
     second \<leftarrow> solid 0x2222;
     (_, m) \<leftarrow> unwrap_step (clear_rendered_image m);
     (_, m) \<leftarrow> unwrap_step (show_rendered_image first m);
     before \<leftarrow> unwrap (rendered_image_snapshot m);
     (_, m) \<leftarrow> unwrap_step (push_rendered_image second m);
     after \<leftarrow> unwrap (rendered_image_snapshot m);
     pixel \<leftarrow> first_pixel after;
     _ \<leftarrow> assert_that (pixel = 0x1111);
     assert_that (snap_generation after = snap_generation before)
   }"

definition a_tap_moves_to_the_spare :: "store mutex \<Rightarrow> unit option" where
  "a_tap_moves_to_the_spare m = do {
     first \<leftarrow> solid 0x1111;
     second \<leftarrow> solid 0x2222;
     (_, m) \<leftarrow> unwrap_step (clear_rendered_image m);
     (_, m) \<leftarrow> unwrap_step (show_rendered_image first m);
     (_, m) \<leftarrow> unwrap_step (push_rendered_image second m);
     (moved, m) \<leftarrow> unwrap_step (advance_rendered_image m);
     _ \<leftarrow> assert_that moved;
     snapshot \<leftarrow> unwrap (rendered_image_snapshot m);
     pixel \<leftarrow> first_pixel snapshot;
     assert_that (pixel = 0x2222)
   }"

definition a_tap_with_nothing_in_reserve_is_a_harmless_no_op :: "store mutex \<Rightarrow> unit option" where
  "a_tap_with_nothing_in_reserve_is_a_harmless_no_op m = do {
     first \<leftarrow> solid 0x1111;
     (_, m) \<leftarrow> unwrap_step (clear_rendered_image m);
     (_, m) \<leftarrow> unwrap_step (show_rendered_image first m);
     (moved, m) \<leftarrow> unwrap_step (advance_rendered_image m);
     _ \<leftarrow> assert_that (\<not> moved);
     snapshot \<leftarrow> unwrap (rendered_image_snapshot m);
     pixel \<leftarrow> first_pixel snapshot;
     assert_that (pixel = 0x1111)
   }"

definition raw_pixels_are_read_little_endian :: "unit option" where
  "raw_pixels_are_read_little_endian = do {
     img \<leftarrow> unwrap (image_from_rgb565_bytes (concat (replicate PIXELS [0x00, 0xF8])));
     _ \<leftarrow> assert_that (width img = word_of_nat PANEL_LOGICAL_WIDTH);
     _ \<leftarrow> assert_that (height img = word_of_nat PANEL_LOGICAL_HEIGHT);
     assert_that (list_all (\<lambda>px. px = 0xF800) (rgb565 img))
   }"

definition a_truncated_download_is_rejected_rather_than_shown :: "unit option" where
  "a_truncated_download_is_rejected_rather_than_shown =
     assert_that (\<not> is_ok (image_from_rgb565_bytes (replicate PIXELS 0)))"

definition black_survives_the_round_trip :: "unit option" where
  "black_survives_the_round_trip = do {
     img \<leftarrow> unwrap (image_from_rgb565_bytes (replicate (usize_mul PIXELS 2) 0));
     assert_that (list_all (\<lambda>px. px = 0) (rgb565 img))
   }"

lemma PIXELS_eq: "PIXELS = 1024000"
  by (simp add: PIXELS_def usize_mul_def usize_limit_def PANEL_LOGICAL_WIDTH_def PANEL_LOGICAL_HEIGHT_def)

lemma PIXELS_pos [simp]: "0 < PIXELS" by (simp add: PIXELS_eq)

definition solid_image :: "u16 \<Rightarrow> RenderedImage" where
  "solid_image v = \<lparr>width = 1280, height = 800, rgb565 = replicate PIXELS v, image_id = None\<rparr>"

lemma solid_eq: "solid v = Some (solid_image v)"
proof -
  have "length (replicate PIXELS v) = usize_mul (unat (1280 :: u32)) (unat (800 :: u32))"
    unfolding length_replicate PIXELS_eq by (simp add: usize_mul_def usize_limit_def)
  then show ?thesis
    by (simp add: solid_def image_new_def Let_def PANEL_LOGICAL_WIDTH_def PANEL_LOGICAL_HEIGHT_def solid_image_def)
qed

lemma solid_image_simps [simp]:
  "image_id (solid_image v) = None" "rgb565 (solid_image v) = v # replicate (PIXELS - 1) v"
  "rgb565 (with_id (solid_image v) i) = v # replicate (PIXELS - 1) v"
  "image_id (with_id (solid_image v) i) = (if i \<noteq> [] then Some i else None)"
  by (simp_all add: solid_image_def with_id_def replicate_Suc [symmetric] del: replicate_Suc)

lemmas photo_store_tests =
  showing_the_photo_already_on_screen_does_not_redraw_it_def a_different_photo_still_replaces_what_is_on_screen_def
  an_untagged_photo_is_always_shown_def showing_a_photo_replaces_what_is_on_screen_and_keeps_spares_def
  queueing_a_spare_does_not_change_what_is_on_screen_def a_tap_moves_to_the_spare_def
  a_tap_with_nothing_in_reserve_is_a_harmless_no_op_def

lemma photo_store_tests_pass:
  assumes "m \<noteq> Poisoned"
  shows "showing_the_photo_already_on_screen_does_not_redraw_it m = Some ()"
    "a_different_photo_still_replaces_what_is_on_screen m = Some ()"
    "an_untagged_photo_is_always_shown m = Some ()"
    "showing_a_photo_replaces_what_is_on_screen_and_keeps_spares m = Some ()"
    "queueing_a_spare_does_not_change_what_is_on_screen m = Some ()"
    "a_tap_moves_to_the_spare m = Some ()"
    "a_tap_with_nothing_in_reserve_is_a_harmless_no_op m = Some ()"
  using assms
  by (cases m; simp add: photo_store_tests solid_eq store_op_defs store_body_defs snapshot_body_def same_id_def
      front_def first_pixel_def)+

lemma concat_replicate_bytes: "concat (replicate n [a, b]) = u16_to_le_bytes (replicate n (u16_from_le_bytes a b))"
  by (induction n) (simp_all add: u16_to_le_bytes_def bytes_of_u16)

lemma pixel_tests_pass:
  "raw_pixels_are_read_little_endian = Some ()"
  "a_truncated_download_is_rejected_rather_than_shown = Some ()"
  "black_survives_the_round_trip = Some ()"
proof -
  have len: "length (u16_to_le_bytes (replicate PIXELS p)) = 2048000" for p
    by (simp add: PIXELS_eq)
  have img: "image_from_rgb565_bytes (u16_to_le_bytes (replicate PIXELS p)) = Inr (solid_image p)" for p
    using len [of p] by (simp add: image_from_rgb565_bytes_Inr decode_le_u16_to_le_bytes solid_image_def)
  have red: "u16_from_le_bytes 0 0xF8 = 0xF800" by code_simp
  show "raw_pixels_are_read_little_endian = Some ()"
    using img [of "0xF800"]
    by (simp add: raw_pixels_are_read_little_endian_def concat_replicate_bytes red)
      (simp add: solid_image_def PANEL_LOGICAL_WIDTH_def PANEL_LOGICAL_HEIGHT_def list_all_iff)
  show "a_truncated_download_is_rejected_rather_than_shown = Some ()"
    unfolding a_truncated_download_is_rejected_rather_than_shown_def is_ok_iff panic_simps image_from_rgb565_bytes_Inr
    by (simp add: PIXELS_eq)
  have "replicate (usize_mul PIXELS 2) (0 :: u8) = concat (replicate PIXELS [0, 0])"
  proof -
    have "replicate (n * 2) (0 :: u8) = concat (replicate n [0, 0])" for n by (induction n) simp_all
    from this [of 1024000] show ?thesis by (simp add: usize_mul_def usize_limit_def PIXELS_eq)
  qed
  moreover have "u16_from_le_bytes 0 0 = 0" by code_simp
  ultimately show "black_survives_the_round_trip = Some ()"
    using img [of 0] by (simp add: black_survives_the_round_trip_def concat_replicate_bytes)
      (simp add: solid_image_def list_all_iff)
qed

section \<open>The application state\<close>

definition app_state_transitions_from_splash_to_ready :: "unit option" where
  "app_state_transitions_from_splash_to_ready = do {
     let state = app_state_new;
     _ \<leftarrow> assert_that (phase state = Splash);
     _ \<leftarrow> assert_that (network_phase state = Unprovisioned);
     let state = mark_ready (set_network_phase NetConnected (begin_setup state));
     _ \<leftarrow> assert_that (phase state = AppReady);
     assert_that (network_phase state = NetConnected)
   }"

definition leaving_provisioning_clears_the_wifi_credential :: "unit option" where
  "leaving_provisioning_clears_the_wifi_credential = do {
     let state = set_network_phase Provisioning
                   (set_provisioning_details ''Frame Setup'' ''secret'' app_state_new);
     _ \<leftarrow> assert_that (provisioning_ssid state = Some ''Frame Setup'');
     let state = set_network_phase NetConnected state;
     _ \<leftarrow> assert_that (provisioning_ssid state = None);
     assert_that (provisioning_password state = None)
   }"

definition losing_the_network_resets_the_controller_phase :: "unit option" where
  "losing_the_network_resets_the_controller_phase = do {
     let state = app_set_controller_phase CtlConnected (set_network_phase NetConnected app_state_new);
     _ \<leftarrow> assert_that (controller_phase state = CtlConnected);
     let state = set_network_phase Unprovisioned state;
     assert_that (controller_phase state = NotStarted)
   }"

lemma state_tests_pass:
  "app_state_transitions_from_splash_to_ready = Some ()"
  "leaving_provisioning_clears_the_wifi_credential = Some ()"
  "losing_the_network_resets_the_controller_phase = Some ()"
  by (simp_all add: app_state_transitions_from_splash_to_ready_def app_state_defs
      leaving_provisioning_clears_the_wifi_credential_def losing_the_network_resets_the_controller_phase_def)

section \<open>Control messages\<close>

definition lines_of :: "string list \<Rightarrow> string" where
  "lines_of ls = tl (concat (map (\<lambda>l. CHR 0x0A # l) ls))"

text \<open>The JSON texts of the tests.\<close>

definition render_json :: string where
  \<open>render_json = lines_of [
     ''{'',
     ''                "media_url": "https://example.com/photo.jpg",'',
     ''                "transition_type": "fade",'',
     ''                "brightness": 64,'',
     ''                "correlation_id": "abc123"'',
     ''            }'']\<close>

definition command_json :: string where
  \<open>command_json = lines_of [
     ''{'',
     ''                "cmd": "reload_ui",'',
     ''                "correlation_id": "cmd-7"'',
     ''            }'']\<close>

definition brightness_json :: string where
  \<open>brightness_json = lines_of [
     ''{'',
     ''                "media_url": "https://example.com/photo.jpg",'',
     ''                "brightness": 255'',
     ''            }'']\<close>

definition registration_json :: string where
  \<open>registration_json = lines_of [
     ''{'',
     ''                "registration": {'',
     ''                    "claimed": true,'',
     ''                    "display_name": "Kitchen Frame",'',
     ''                    "message": "Claimed in Home Assistant",'',
     ''                    "frame_token": "tok-abc123"'',
     ''                }'',
     ''            }'']\<close>

type_synonym json_reader = "string \<Rightarrow> string + IncomingControlMessage"

definition parses_render_message_with_optional_metadata :: "json_reader \<Rightarrow> unit option" where
  "parses_render_message_with_optional_metadata from_json = do {
     event \<leftarrow> unwrap (parse_control_message from_json render_json);
     assert_that (event = Render
       \<lparr>media_url = ''https://example.com/photo.jpg'', correlation_id = Some ''abc123'',
        presentation = \<lparr>transition_type = Some Fade, brightness = Some 64\<rparr>, queue = False\<rparr>)
   }"

definition parses_command_message :: "json_reader \<Rightarrow> unit option" where
  "parses_command_message from_json = do {
     event \<leftarrow> unwrap (parse_control_message from_json command_json);
     assert_that (event = Command \<lparr>command = ReloadUi, cmd_correlation_id = Some ''cmd-7''\<rparr>)
   }"

definition rejects_metadata_without_media_url :: "unit option" where
  "rejects_metadata_without_media_url = do {
     err \<leftarrow> expect_err (validate_control_message
       \<lparr>in_media_url = None, in_transition_type = Some Cut, in_brightness = None, in_correlation_id = None,
        in_cmd = Some Reboot, in_registration = None, in_queue = False\<rparr>);
     assert_that (err = MetadataWithoutMediaUrl)
   }"

definition rejects_brightness_out_of_range :: "json_reader \<Rightarrow> unit option" where
  "rejects_brightness_out_of_range from_json = do {
     err \<leftarrow> expect_err (parse_control_message from_json brightness_json);
     assert_that (err = InvalidBrightness 255)
   }"

definition parses_registration_message :: "json_reader \<Rightarrow> unit option" where
  "parses_registration_message from_json = do {
     event \<leftarrow> unwrap (parse_control_message from_json registration_json);
     assert_that (event = Registration
       \<lparr>claimed = True, display_name = Some ''Kitchen Frame'',
        reg_message = Some ''Claimed in Home Assistant'', reg_frame_token = Some ''tok-abc123''\<rparr>)
   }"

text \<open>What \<open>serde_json\<close> makes of the four texts: absent fields are \<open>None\<close>, and \<open>queue\<close> is \<open>false\<close>.\<close>

definition blank_message :: IncomingControlMessage where
  "blank_message = \<lparr>in_media_url = None, in_transition_type = None, in_brightness = None,
     in_correlation_id = None, in_cmd = None, in_registration = None, in_queue = False\<rparr>"

definition reads_test_json :: "json_reader \<Rightarrow> bool" where
  "reads_test_json from_json \<longleftrightarrow>
     from_json render_json = Inr (blank_message\<lparr>in_media_url := Some ''https://example.com/photo.jpg'',
       in_transition_type := Some Fade, in_brightness := Some 64, in_correlation_id := Some ''abc123''\<rparr>) \<and>
     from_json command_json = Inr (blank_message\<lparr>in_cmd := Some ReloadUi, in_correlation_id := Some ''cmd-7''\<rparr>) \<and>
     from_json brightness_json = Inr (blank_message\<lparr>in_media_url := Some ''https://example.com/photo.jpg'',
       in_brightness := Some 255\<rparr>) \<and>
     from_json registration_json = Inr (blank_message\<lparr>in_registration := Some
       \<lparr>claimed = True, display_name = Some ''Kitchen Frame'',
        reg_message = Some ''Claimed in Home Assistant'', reg_frame_token = Some ''tok-abc123''\<rparr>\<rparr>)"

lemma control_tests_pass:
  assumes "reads_test_json from_json"
  shows "parses_render_message_with_optional_metadata from_json = Some ()"
    "parses_command_message from_json = Some ()" "rejects_metadata_without_media_url = Some ()"
    "rejects_brightness_out_of_range from_json = Some ()" "parses_registration_message from_json = Some ()"
proof -
  have trim: "str_trim ''https://example.com/photo.jpg'' = ''https://example.com/photo.jpg''" by code_simp
  show "parses_render_message_with_optional_metadata from_json = Some ()"
    "parses_command_message from_json = Some ()" "rejects_metadata_without_media_url = Some ()"
    "rejects_brightness_out_of_range from_json = Some ()" "parses_registration_message from_json = Some ()"
    using assms trim
    by (simp_all add: reads_test_json_def parse_control_message_def validate_control_message_def validate_action_def
        action_count_def count_some_def has_metadata_def blank_message_def
        parses_render_message_with_optional_metadata_def parses_command_message_def
        rejects_metadata_without_media_url_def rejects_brightness_out_of_range_def parses_registration_message_def)
qed

section \<open>Fitting\<close>

type_synonym resizer = "RgbImage \<Rightarrow> nat \<Rightarrow> nat \<Rightarrow> RgbImage"

definition from_pixel :: "u32 \<Rightarrow> u32 \<Rightarrow> u8 \<times> u8 \<times> u8 \<Rightarrow> RgbImage" where
  "from_pixel w h c = \<lparr>img_width = w, img_height = h, get_pixel = (\<lambda>_ _. c)\<rparr>"

definition solid_rgb :: "u32 \<Rightarrow> u32 \<Rightarrow> RgbImage" where
  "solid_rgb w h = from_pixel w h (255, 0, 0)"

definition output_is_always_exactly_panel_sized :: "resizer \<Rightarrow> unit option" where
  "output_is_always_exactly_panel_sized resize =
     fold (\<lambda>(w, h) passed. do {
         _ \<leftarrow> passed;
         (fitted, _) \<leftarrow> unwrap (fit_to_panel resize (solid_rgb w h));
         _ \<leftarrow> assert_that (width fitted = word_of_nat PANEL_LOGICAL_WIDTH);
         assert_that (height fitted = word_of_nat PANEL_LOGICAL_HEIGHT)
       }) [(4000, 3000), (1080, 1920), (100, 100), (5000, 200)] (Some ())"

definition a_photo_shaped_like_the_panel_is_cropped_not_letterboxed :: "resizer \<Rightarrow> unit option" where
  "a_photo_shaped_like_the_panel_is_cropped_not_letterboxed resize = do {
     (_, treatment) \<leftarrow> unwrap (fit_to_panel resize (solid_rgb 1600 1000));
     assert_that (treatment = Crop)
   }"

definition a_portrait_photo_is_letterboxed_rather_than_cropped_through_faces :: "resizer \<Rightarrow> unit option" where
  "a_portrait_photo_is_letterboxed_rather_than_cropped_through_faces resize = do {
     (_, treatment) \<leftarrow> unwrap (fit_to_panel resize (solid_rgb 1080 1920));
     assert_that (treatment = ContainOnBlack)
   }"

definition pixel_at :: "RenderedImage \<Rightarrow> nat \<Rightarrow> u16 option" where
  "pixel_at img n = (if n < length (rgb565 img) then Some (rgb565 img ! n) else None)"

definition letterbox_bars_are_black_and_the_photo_is_centred :: "resizer \<Rightarrow> unit option" where
  "letterbox_bars_are_black_and_the_photo_is_centred resize = do {
     (fitted, treatment) \<leftarrow> unwrap (fit_to_panel resize (solid_rgb 1000 2000));
     _ \<leftarrow> assert_that (treatment = ContainOnBlack);
     let mid_row = (PANEL_LOGICAL_HEIGHT div 2) * PANEL_LOGICAL_WIDTH;
     left \<leftarrow> pixel_at fitted mid_row;
     _ \<leftarrow> assert_that (left = 0);
     right \<leftarrow> pixel_at fitted (mid_row + PANEL_LOGICAL_WIDTH - 1);
     _ \<leftarrow> assert_that (right = 0);
     centre \<leftarrow> pixel_at fitted (mid_row + PANEL_LOGICAL_WIDTH div 2);
     assert_that (centre \<noteq> 0)
   }"

definition a_cropped_photo_leaves_no_black_anywhere :: "resizer \<Rightarrow> unit option" where
  "a_cropped_photo_leaves_no_black_anywhere resize = do {
     (fitted, treatment) \<leftarrow> unwrap (fit_to_panel resize (solid_rgb 1600 1000));
     _ \<leftarrow> assert_that (treatment = Crop);
     assert_that (list_all (\<lambda>px. px \<noteq> 0) (rgb565 fitted))
   }"

definition a_zero_sized_image_is_rejected_rather_than_panicking :: "resizer \<Rightarrow> unit option" where
  "a_zero_sized_image_is_rejected_rather_than_panicking resize =
     assert_that (\<not> is_ok (fit_to_panel resize (from_pixel 0 0 (0, 0, 0))))"

text \<open>Resizing an image of one colour gives that colour.\<close>

definition keeps_solid_colours :: "resizer \<Rightarrow> bool" where
  "keeps_solid_colours resize \<longleftrightarrow>
     (\<forall>w h c sw sh x y. x < sw \<longrightarrow> y < sh \<longrightarrow> get_pixel (resize (from_pixel w h c) sw sh) x y = c)"

lemma fits_solid:
  fixes w h :: u32
  assumes "0 < w" "0 < h"
  defines "t \<equiv> treatment_for (unat w) (unat h)"
  defines "sw \<equiv> scaled_dim (scale_for t (unat w) (unat h)) (unat w)"
    and "sh \<equiv> scaled_dim (scale_for t (unat w) (unat h)) (unat h)"
  shows "\<exists>img. fit_to_panel resize (solid_rgb w h) = Inr (img, t) \<and> width img = 1280 \<and> height img = 800 \<and>
    length (rgb565 img) = 1280 * 800 \<and>
    (\<forall>x < 1280. \<forall>y < 800. rgb565 img ! (y * 1280 + x) =
       panel_pixel (canvas_pixel (resize (solid_rgb w h) sw sh) sw sh x y))"
proof -
  let ?f = "\<lambda>i. panel_pixel (canvas_pixel (resize (solid_rgb w h) sw sh) sw sh (i mod 1280) (i div 1280))"
  have "0 < unat (img_width (solid_rgb w h))" "0 < unat (img_height (solid_rgb w h))"
    using assms(1,2) by (simp_all add: solid_rgb_def from_pixel_def word_less_nat_alt)
  from fit_to_panel_eq [OF this, of resize]
  have "fit_to_panel resize (solid_rgb w h) =
      Inr (\<lparr>width = 1280, height = 800, rgb565 = map ?f [0..<1280 * 800], image_id = None\<rparr>, t)"
    by (simp add: solid_rgb_def from_pixel_def t_def sw_def sh_def del: upt_Suc upt_rec_numeral)
  moreover have "map ?f [0..<1280 * 800] ! (y * 1280 + x) =
      panel_pixel (canvas_pixel (resize (solid_rgb w h) sw sh) sw sh x y)" if "x < 1280" "y < 800" for x y
  proof -
    have "y * 1280 + x < 1280 * 800" using that by linarith
    then show ?thesis using that by (simp del: upt_Suc upt_rec_numeral)
  qed
  moreover have "length (map ?f [0..<1280 * 800]) = 1280 * 800" by (simp only: length_map length_upt diff_zero)
  ultimately show ?thesis by (intro exI conjI) (auto simp del: upt_Suc upt_rec_numeral)
qed

lemma red_pixel: "panel_pixel [255, 0, 0] \<noteq> 0" "panel_pixel [0, 0, 0] = 0"
  unfolding panel_pixel_def by code_simp+

text \<open>A dimension the scale maps exactly onto \<open>n\<close> becomes \<open>n\<close>.\<close>

lemma scaled_dim_exact:
  assumes "0 < w" "w < 2 ^ 24" "0 < n" "n < 2 ^ 12" and "scale = f32_div (f32_of n) (f32_of w)"
  shows "scaled_dim scale w = n"
proof -
  have "0 < scale" using assms by (simp add: f32_div_def f32_of_exact round24_pos)
  then show ?thesis
    using scaled_dim_le [OF assms(1-4), of scale] scaled_dim_ge [OF assms(1-4), of scale] assms(5) by simp
qed

lemma letterbox_dims:
  "scaled_dim (scale_for ContainOnBlack 1000 2000) 1000 = 400" "scaled_dim (scale_for ContainOnBlack 1000 2000) 2000 = 800"
proof -
  have "round_float 24 (2 / 5) \<le> (2 / 5) + (2 / 5) / 16777216" by (rule round24_le) simp_all
  moreover have "32 / 25 - (32 / 25) / 16777216 \<le> round_float 24 (32 / 25)" by (rule round24_ge) simp_all
  ultimately have "round_float 24 (2 / 5) \<le> round_float 24 (32 / 25)" by simp
  then have "scale_for ContainOnBlack 1000 2000 = round_float 24 (2 / 5)"
    by (simp add: scale_for_def panel_dims f32_div_def f32_of_exact Let_def)
  then show "scaled_dim (scale_for ContainOnBlack 1000 2000) 1000 = 400"
    "scaled_dim (scale_for ContainOnBlack 1000 2000) 2000 = 800"
    by (simp_all add: scaled_dim_exact f32_div_def f32_of_exact)
qed

lemma crop_dims:
  "scaled_dim (scale_for Crop 1600 1000) 1600 = 1280" "scaled_dim (scale_for Crop 1600 1000) 1000 = 800"
proof -
  have "scale_for Crop 1600 1000 = round_float 24 (4 / 5)"
    by (simp add: scale_for_def panel_dims f32_div_def f32_of_exact Let_def)
  then show "scaled_dim (scale_for Crop 1600 1000) 1600 = 1280" "scaled_dim (scale_for Crop 1600 1000) 1000 = 800"
    by (simp_all add: scaled_dim_exact f32_div_def f32_of_exact)
qed

lemma fit_tests_pass:
  shows "output_is_always_exactly_panel_sized resize = Some ()"
    "a_photo_shaped_like_the_panel_is_cropped_not_letterboxed resize = Some ()"
    "a_portrait_photo_is_letterboxed_rather_than_cropped_through_faces resize = Some ()"
    "a_zero_sized_image_is_rejected_rather_than_panicking resize = Some ()"
proof -
  show "output_is_always_exactly_panel_sized resize = Some ()"
    using fits_solid [of 4000 3000 resize] fits_solid [of 1080 1920 resize] fits_solid [of 100 100 resize]
      fits_solid [of 5000 200 resize]
    by (auto simp: output_is_always_exactly_panel_sized_def panel_dims)
  have "treatment_for 1600 1000 = Crop" by (rule landscape_is_cropped) simp_all
  then show "a_photo_shaped_like_the_panel_is_cropped_not_letterboxed resize = Some ()"
    using fits_solid [of 1600 1000 resize]
    by (auto simp: a_photo_shaped_like_the_panel_is_cropped_not_letterboxed_def)
  have "treatment_for 1080 1920 = ContainOnBlack" by (rule portrait_is_letterboxed) simp_all
  then show "a_portrait_photo_is_letterboxed_rather_than_cropped_through_faces resize = Some ()"
    using fits_solid [of 1080 1920 resize]
    by (auto simp: a_portrait_photo_is_letterboxed_rather_than_cropped_through_faces_def)
  show "a_zero_sized_image_is_rejected_rather_than_panicking resize = Some ()"
    by (simp add: a_zero_sized_image_is_rejected_rather_than_panicking_def fit_to_panel_def from_pixel_def)
qed

lemma letterbox_test_passes:
  assumes "keeps_solid_colours resize"
  shows "letterbox_bars_are_black_and_the_photo_is_centred resize = Some ()"
proof -
  have t: "treatment_for 1000 2000 = ContainOnBlack" by (rule portrait_is_letterboxed) simp_all
  obtain img where img: "fit_to_panel resize (solid_rgb 1000 2000) = Inr (img, ContainOnBlack)"
    "length (rgb565 img) = 1280 * 800"
    "\<forall>x < 1280. \<forall>y < 800. rgb565 img ! (y * 1280 + x) =
       panel_pixel (canvas_pixel (resize (solid_rgb 1000 2000) 400 800) 400 800 x y)"
    using fits_solid [of 1000 2000 resize] by (auto simp: t letterbox_dims)
  have red: "get_pixel (resize (solid_rgb 1000 2000) 400 800) x y = (255, 0, 0)" if "x < 400" "y < 800" for x y
    using assms that by (simp add: keeps_solid_colours_def solid_rgb_def)
  have "rgb565 img ! (400 * 1280 + 0) = 0" "rgb565 img ! (400 * 1280 + 1279) = 0"
    "rgb565 img ! (400 * 1280 + 640) = panel_pixel [255, 0, 0]"
    by (subst img(3) [rule_format]; simp add: canvas_pixel_def panel_dims half_toward_zero_def red_pixel red)+
  then show ?thesis
    using img(1,2) red_pixel
    by (simp add: letterbox_bars_are_black_and_the_photo_is_centred_def pixel_at_def panel_dims)
qed

lemma crop_test_passes:
  assumes "keeps_solid_colours resize"
  shows "a_cropped_photo_leaves_no_black_anywhere resize = Some ()"
proof -
  have t: "treatment_for 1600 1000 = Crop" by (rule landscape_is_cropped) simp_all
  obtain img where img: "fit_to_panel resize (solid_rgb 1600 1000) = Inr (img, Crop)"
    "length (rgb565 img) = 1280 * 800"
    "\<forall>x < 1280. \<forall>y < 800. rgb565 img ! (y * 1280 + x) =
       panel_pixel (canvas_pixel (resize (solid_rgb 1600 1000) 1280 800) 1280 800 x y)"
    using fits_solid [of 1600 1000 resize] by (auto simp: t crop_dims)
  have red: "get_pixel (resize (solid_rgb 1600 1000) 1280 800) x y = (255, 0, 0)" if "x < 1280" "y < 800" for x y
    using assms that by (simp add: keeps_solid_colours_def solid_rgb_def)
  have all: "rgb565 img ! (y * 1280 + x) = panel_pixel [255, 0, 0]" if "x < 1280" "y < 800" for x y
    using that by (subst img(3) [rule_format]) (simp_all add: canvas_pixel_def panel_dims half_toward_zero_def red)
  have "rgb565 img ! i \<noteq> 0" if "i < 1280 * 800" for i
    using all [of "i mod 1280" "i div 1280"] that red_pixel by simp
  then show ?thesis
    using img(1,2) by (simp add: a_cropped_photo_leaves_no_black_anywhere_def list_all_length)
qed

section \<open>Local photos\<close>

definition recognises_photo_extensions_regardless_of_case :: "unit option" where
  "recognises_photo_extensions_regardless_of_case = do {
     _ \<leftarrow> assert_that (is_supported ''/m/a.JPG'');
     _ \<leftarrow> assert_that (is_supported ''/m/b.jpeg'');
     _ \<leftarrow> assert_that (is_supported ''/m/c.PnG'');
     _ \<leftarrow> assert_that (\<not> is_supported ''/m/d.heic'');
     assert_that (\<not> is_supported ''/m/e'')
   }"

definition our_own_note_is_not_counted_as_an_unreadable_photo :: "unit option" where
  "our_own_note_is_not_counted_as_an_unreadable_photo = do {
     _ \<leftarrow> assert_that (is_readme ''/m/READ ME.txt'');
     assert_that (\<not> is_readme ''/m/holiday.heic'')
   }"

definition an_empty_library_reports_plainly :: "unit option" where
  "an_empty_library_reports_plainly = assert_that (summary library_default = ''no photos on card'')"

definition unreadable_files_are_reported_so_a_folder_of_heic_is_explicable :: "unit option" where
  "unreadable_files_are_reported_so_a_folder_of_heic_is_explicable =
     assert_that (summary \<lparr>lib_photos = [], lib_skipped = 200\<rparr> = ''200 file(s) on card, none readable'')"

definition a_missing_folder_is_not_an_error :: "(string \<Rightarrow> dir_entry list result) \<Rightarrow> unit option" where
  "a_missing_folder_is_not_an_error read_dir =
     assert_that (lib_is_empty (scan_local_photos read_dir ''/definitely/not/a/real/path''))"

text \<open>
  The folder a test fills, in the model of \<open>Sd_Card\<close>; \<open>listed\<close> is the order in which it is listed. The
  image crate saves an image under a name and reads files back.
\<close>

definition folder_dir :: "(string list \<Rightarrow> string list) \<Rightarrow> files \<Rightarrow> string \<Rightarrow> dir_entry list result" where
  "folder_dir listed fs dir = Inr (map (\<lambda>n. Inr (n, True)) (listed (names fs)))"

definition a_photo_on_disk_becomes_a_panel_sized_image ::
  "string \<Rightarrow> (string list \<Rightarrow> string list) \<Rightarrow> (string \<Rightarrow> RgbImage \<Rightarrow> u8 list) \<Rightarrow> (files \<Rightarrow> 'h image_reader) \<Rightarrow> unit option"
where
  "a_photo_on_disk_becomes_a_panel_sized_image tmp listed save read_images = do {
     let dir = tmp @ ''/frame-ui-local-photos-test'';
     let source = from_pixel 600 900 (10, 200, 30);
     let fs = fs_write ''holiday.jpg'' (save ''holiday.jpg'' source) [];
     let fs = fs_write ''from-iphone.HEIC'' (as_bytes ''not really heic'') fs;
     let fs = fs_write ''READ ME.txt'' (as_bytes ''instructions'') fs;
     let library = scan_local_photos (folder_dir listed fs) dir;
     _ \<leftarrow> assert_that (lib_len library = 1);
     _ \<leftarrow> assert_that (lib_skipped library = 1);
     _ \<leftarrow> assert_that (summary library = ''1 photo(s) on card, 1 unreadable'');
     rendered \<leftarrow> unwrap (load_photo (read_images fs) (dir @ ''/'' @ ''holiday.jpg''));
     _ \<leftarrow> assert_that (width rendered = word_of_nat PANEL_LOGICAL_WIDTH);
     assert_that (height rendered = word_of_nat PANEL_LOGICAL_HEIGHT)
   }"

definition photos_are_ordered_predictably_so_naming_files_controls_the_order ::
  "string \<Rightarrow> (string list \<Rightarrow> string list) \<Rightarrow> (string \<Rightarrow> RgbImage \<Rightarrow> u8 list) \<Rightarrow> unit option" where
  "photos_are_ordered_predictably_so_naming_files_controls_the_order tmp listed save = do {
     let dir = tmp @ ''/frame-ui-local-photos-order'';
     let photo = from_pixel 8 8 (1, 2, 3);
     let fs = fold (\<lambda>name. fs_write name (save name photo)) [''3-third.jpg'', ''1-first.jpg'', ''2-second.jpg''] [];
     let library = scan_local_photos (folder_dir listed fs) dir;
     assert_that (map file_name (lib_photos library) = [''1-first.jpg'', ''2-second.jpg'', ''3-third.jpg''])
   }"

lemma file_name_join:
  assumes "CHR ''/'' \<notin> set n"
  shows "file_name (dir @ CHR ''/'' # n) = n" "file_name n = n"
proof -
  have joined: "takeWhile (\<lambda>c. c \<noteq> CHR ''/'') (rev (dir @ CHR ''/'' # n)) = rev n"
    using assms by (simp, subst takeWhile_append2) auto
  show "file_name (dir @ CHR ''/'' # n) = n" unfolding file_name_def joined by simp
  have plain: "takeWhile (\<lambda>c. c \<noteq> CHR ''/'') (rev n) = rev n"
    using assms by (auto simp: takeWhile_eq_all_conv)
  show "file_name n = n" unfolding file_name_def plain by simp
qed

lemma is_supported_join:
  "CHR ''/'' \<notin> set n \<Longrightarrow> is_supported (dir @ CHR ''/'' # n) = is_supported n"
  "CHR ''/'' \<notin> set n \<Longrightarrow> is_readme (dir @ CHR ''/'' # n) = is_readme n"
  by (simp_all add: is_supported_def is_readme_def file_name_join)

lemma prefix_le: "(dir @ a :: string) \<le> dir @ b \<longleftrightarrow> a \<le> b"
  by (induction dir) simp_all

text \<open>Whatever order the folder is listed in.\<close>

lemma scan_folder:
  assumes "\<And>ns. mset (listed ns) = mset ns" and "list_all (\<lambda>n. CHR ''/'' \<notin> set n) (names fs)" and "length fs \<le> 5000"
  shows "scan_local_photos (folder_dir listed fs) dir =
    \<lparr>lib_photos = sort (map (\<lambda>n. dir @ ''/'' @ n) (filter is_supported (names fs))),
     lib_skipped = length (filter (\<lambda>n. \<not> is_supported n \<and> \<not> is_readme n) (names fs))\<rparr>"
proof -
  let ?path = "\<lambda>n. dir @ ''/'' @ n"
  have plain: "plain_files dir (map (\<lambda>n. Inr (n, True)) ns) = map ?path ns" for ns
    by (induction ns) simp_all
  have mset: "mset (listed (names fs)) = mset (names fs)" by (rule assms(1))
  then have "set (listed (names fs)) = set (names fs)" by (rule mset_eq_setD)
  with assms(2) have sl: "\<forall>n \<in> set (listed (names fs)). CHR ''/'' \<notin> set n" by (simp add: list_all_iff)
  have "filter is_supported (map ?path (listed (names fs))) = map ?path (filter is_supported (listed (names fs)))"
    "filter (\<lambda>p. \<not> is_supported p \<and> \<not> is_readme p) (map ?path (listed (names fs))) =
       map ?path (filter (\<lambda>n. \<not> is_supported n \<and> \<not> is_readme n) (listed (names fs)))"
    using sl by (auto simp: filter_map is_supported_join intro!: arg_cong [where f = "map _"] filter_cong)
  moreover have "length (listed (names fs)) = length fs"
    using mset_eq_length [OF mset] by (simp add: names_def)
  then have "take MAX_PHOTOS (map ?path (filter is_supported (listed (names fs)))) = map ?path (filter is_supported (listed (names fs)))"
    using assms(3) length_filter_le [of is_supported "listed (names fs)"] by (simp add: MAX_PHOTOS_def)
  moreover have "mset (filter P (listed (names fs))) = mset (filter P (names fs))" for P
    by (simp add: mset)
  then have "sort (map ?path (filter P (listed (names fs)))) = sort (map ?path (filter P (names fs)))"
    "length (filter P (listed (names fs))) = length (filter P (names fs))" for P
    by (auto intro!: properties_for_sort mset_eq_length simp: mset)
  ultimately show ?thesis
    by (simp add: scan_local_photos_def folder_dir_def index_entries library_default_def MAX_PHOTOS_def plain Let_def)
qed

lemma local_tests_pass:
  "recognises_photo_extensions_regardless_of_case = Some ()"
  "our_own_note_is_not_counted_as_an_unreadable_photo = Some ()"
  "an_empty_library_reports_plainly = Some ()"
  "unreadable_files_are_reported_so_a_folder_of_heic_is_explicable = Some ()"
proof -
  have "is_supported ''/m/a.JPG''" "is_supported ''/m/b.jpeg''" "is_supported ''/m/c.PnG''"
    "\<not> is_supported ''/m/d.heic''" "\<not> is_supported ''/m/e''" "is_readme ''/m/READ ME.txt''" "\<not> is_readme ''/m/holiday.heic''"
    by code_simp+
  then show "recognises_photo_extensions_regardless_of_case = Some ()"
    "our_own_note_is_not_counted_as_an_unreadable_photo = Some ()"
    by (simp_all add: recognises_photo_extensions_regardless_of_case_def
        our_own_note_is_not_counted_as_an_unreadable_photo_def)
  have "show_nat 200 = ''200''" by code_simp
  then show "an_empty_library_reports_plainly = Some ()"
    "unreadable_files_are_reported_so_a_folder_of_heic_is_explicable = Some ()"
    by (simp_all add: an_empty_library_reports_plainly_def summary_def library_default_def
        unreadable_files_are_reported_so_a_folder_of_heic_is_explicable_def)
qed

text \<open>The image crate opens, identifies and decodes what it saved, with its size.\<close>

definition reads_back :: "(string \<Rightarrow> RgbImage \<Rightarrow> u8 list) \<Rightarrow> (files \<Rightarrow> 'h image_reader) \<Rightarrow> bool" where
  "reads_back save read_images \<longleftrightarrow>
     (\<forall>fs dir n img. CHR ''/'' \<notin> set n \<longrightarrow> fs_read n fs = Some (save n img) \<longrightarrow>
        (\<exists>h h' img'. open_image (read_images fs) (dir @ ''/'' @ n) = Inr h \<and> guess_format (read_images fs) h = Inr h' \<and>
           decode_rgb8 (read_images fs) h' = Inr img' \<and>
           img_width img' = img_width img \<and> img_height img' = img_height img))"

lemma disk_test_passes:
  assumes "\<And>ns. mset (listed ns) = mset ns" and "reads_back save read_images"
  shows "a_photo_on_disk_becomes_a_panel_sized_image tmp listed save read_images = Some ()"
proof -
  let ?source = "from_pixel 600 900 (10, 200, 30)"
  define fs where "fs = fs_write ''READ ME.txt'' (as_bytes ''instructions'')
    (fs_write ''from-iphone.HEIC'' (as_bytes ''not really heic'') (fs_write ''holiday.jpg'' (save ''holiday.jpg'' ?source) []))"
  define dir where "dir = tmp @ ''/frame-ui-local-photos-test''"
  have names: "names fs = [''holiday.jpg'', ''from-iphone.HEIC'', ''READ ME.txt'']"
    by (simp add: fs_def names_fs_write) (simp add: names_def)
  then have "length fs = 3" by (metis length_map names_def length_Cons list.size(3) numeral_3_eq_3)
  have "is_supported ''holiday.jpg''" "\<not> is_supported ''from-iphone.HEIC''" "\<not> is_supported ''READ ME.txt''"
    "\<not> is_readme ''from-iphone.HEIC''" "is_readme ''READ ME.txt''" by code_simp+
  then have lib: "scan_local_photos (folder_dir listed fs) dir = \<lparr>lib_photos = [dir @ ''/'' @ ''holiday.jpg''], lib_skipped = 1\<rparr>"
    using scan_folder [OF assms(1), of fs dir] \<open>length fs = 3\<close> by (simp add: names)
  have read: "fs_read ''holiday.jpg'' fs = Some (save ''holiday.jpg'' ?source)" by (simp add: fs_def)
  obtain h h' img' where opened: "open_image (read_images fs) (dir @ ''/'' @ ''holiday.jpg'') = Inr h"
    "guess_format (read_images fs) h = Inr h'" "decode_rgb8 (read_images fs) h' = Inr img'"
    "img_width img' = 600" "img_height img' = 900"
    using assms(2) [unfolded reads_back_def, rule_format, OF _ read, of dir] by (auto simp: from_pixel_def)
  have "\<exists>img. load_photo (read_images fs) (dir @ ''/'' @ ''holiday.jpg'') = Inr img \<and> width img = 1280 \<and> height img = 800"
    using fit_to_panel_eq [of img'] opened by (simp add: load_photo_def del: upt_Suc upt_rec_numeral)
  moreover have "show_nat 1 = ''1''" by code_simp
  ultimately show ?thesis
    unfolding a_photo_on_disk_becomes_a_panel_sized_image_def Let_def fs_def [symmetric] dir_def [symmetric] lib
    by (auto simp: lib_len_def summary_def panel_dims)
qed

lemma order_test_passes:
  assumes "\<And>ns. mset (listed ns) = mset ns"
  shows "photos_are_ordered_predictably_so_naming_files_controls_the_order tmp listed save = Some ()"
proof -
  let ?photo = "from_pixel 8 8 (1, 2, 3)"
  define fs where "fs = fold (\<lambda>name. fs_write name (save name ?photo)) [''3-third.jpg'', ''1-first.jpg'', ''2-second.jpg''] []"
  define dir where "dir = tmp @ ''/frame-ui-local-photos-order''"
  have names: "names fs = [''3-third.jpg'', ''1-first.jpg'', ''2-second.jpg'']"
    by (simp add: fs_def names_fs_write) (simp add: names_def)
  then have "length fs = 3" by (metis length_map names_def length_Cons list.size(3) numeral_3_eq_3)
  have sup: "is_supported ''3-third.jpg''" "is_supported ''1-first.jpg''" "is_supported ''2-second.jpg''" by code_simp+
  have le: "''1-first.jpg'' \<le> ''2-second.jpg''" "''2-second.jpg'' \<le> ''3-third.jpg''" "''1-first.jpg'' \<le> ''3-third.jpg''"
    "\<not> ''3-third.jpg'' \<le> ''1-first.jpg''" "\<not> ''3-third.jpg'' \<le> ''2-second.jpg''" by code_simp+
  have "lib_photos (scan_local_photos (folder_dir listed fs) dir) =
      [dir @ ''/'' @ ''1-first.jpg'', dir @ ''/'' @ ''2-second.jpg'', dir @ ''/'' @ ''3-third.jpg'']"
    using scan_folder [OF assms, of fs dir] \<open>length fs = 3\<close> prefix_le [of "dir @ ''/''"] le sup by (simp add: names)
  then show ?thesis
    unfolding photos_are_ordered_predictably_so_naming_files_controls_the_order_def Let_def fs_def [symmetric] dir_def [symmetric]
    by (simp add: file_name_join)
qed

section \<open>The runtime\<close>

definition backoff_doubles_until_maximum :: "unit option" where
  "backoff_doubles_until_maximum = do {
     let backoff = backoff_new (from_secs 1) (from_secs 8);
     let (delay, backoff) = next_delay backoff;
     _ \<leftarrow> assert_that (delay = from_secs 1);
     let (delay, backoff) = next_delay backoff;
     _ \<leftarrow> assert_that (delay = from_secs 2);
     let (delay, backoff) = next_delay backoff;
     _ \<leftarrow> assert_that (delay = from_secs 4);
     let (delay, backoff) = next_delay backoff;
     _ \<leftarrow> assert_that (delay = from_secs 8);
     let (delay, backoff) = next_delay backoff;
     _ \<leftarrow> assert_that (delay = from_secs 8);
     let backoff = backoff_reset backoff;
     let (delay, backoff) = next_delay backoff;
     assert_that (delay = from_secs 1)
   }"

text \<open>
  The scripted transport: its connection has an empty inbox and keeps what is sent. The messages of
  all its connections are the ones on the plane's wires.
\<close>

definition scripted_connect :: "OutboundStatusMessage list result" where
  "scripted_connect = Inr []"

definition scripted_read_message :: "string list \<Rightarrow> string option result \<times> string list" where
  "scripted_read_message inbox = (case inbox of [] \<Rightarrow> (Inr None, []) | m # rest \<Rightarrow> (Inr (Some m), rest))"

definition scripted_send_status :: "OutboundStatusMessage \<Rightarrow> unit result" where
  "scripted_send_status m = Inr ()"

definition scripted_turn :: "json_reader \<Rightarrow> plane \<Rightarrow> plane" where
  "scripted_turn from_json p =
     (case mode p of
        Connecting \<Rightarrow> connect_step scripted_connect p
      | Online \<Rightarrow> exchange_step from_json scripted_send_status (fst (scripted_read_message [])) p
      | Waiting d \<Rightarrow> wait_step d d p
      | Stopped \<Rightarrow> p)"

text \<open>The control plane takes some turns before the status is sent, and some in the 50 ms after.\<close>

definition runtime_accepts_outbound_status :: "json_reader \<Rightarrow> nat \<Rightarrow> nat \<Rightarrow> unit option" where
  "runtime_accepts_outbound_status from_json before after = do {
     let p = (scripted_turn from_json ^^ before) plane_init;
     (_, p) \<leftarrow> unwrap_step (send_status (CommandAcknowledged ReloadUi (Some ''cmd-1'')) p);
     let p = (scripted_turn from_json ^^ after) p;
     assert_that (concat (wires p) \<noteq> [])
   }"

lemma next_delay_secs:
  assumes "k \<le> 8"
  shows "next_delay \<lparr>initial_delay = i, max_delay = from_secs 8, current_delay = from_secs k\<rparr> =
    (from_secs k, \<lparr>initial_delay = i, max_delay = from_secs 8, current_delay = from_secs (min 8 (2 * k))\<rparr>)"
  using assms by (auto simp: next_delay_def duration_saturating_mul_def DURATION_MAX_def from_secs_def min_def)

lemma backoff_test_passes: "backoff_doubles_until_maximum = Some ()"
  by (simp add: backoff_doubles_until_maximum_def backoff_new_def next_delay_secs backoff_reset_def)

lemmas scripted_defs = scripted_turn_def scripted_connect_def scripted_read_message_def scripted_send_status_def
  connect_step_def exchange_step_def try_recv_step_def set_phase_def

lemma scripted_turns_add: "(scripted_turn f ^^ (m + n)) p = (scripted_turn f ^^ n) ((scripted_turn f ^^ m) p)"
  by (simp add: add.commute [of m n] funpow_add)

text \<open>Before the status is sent the plane connects and idles; what is sent stays sent.\<close>

definition idles :: "plane \<Rightarrow> bool" where
  "idles p \<longleftrightarrow> pending p = [] \<and> senders_alive p \<and> (mode p = Connecting \<or> mode p = Online \<and> wires p \<noteq> [])"

lemma idles_turn: "idles p \<Longrightarrow> idles (scripted_turn f p)"
  by (auto simp: idles_def scripted_defs)

lemma idles_turns: "idles ((scripted_turn f ^^ n) plane_init)"
  by (induction n) (simp_all add: idles_turn, simp add: idles_def plane_init_def)

lemma sent_stays: "concat (wires p) \<noteq> [] \<Longrightarrow> concat (wires ((scripted_turn f ^^ n) p)) \<noteq> []"
proof (induction n)
  case (Suc n)
  then have sent: "concat (wires ((scripted_turn f ^^ n) p)) \<noteq> []" by simp
  have "concat (wires (scripted_turn f q)) \<noteq> []" if "concat (wires q) \<noteq> []" for q
    using that by (cases "wires q"; cases "mode q"; cases "pending q")
      (auto simp: scripted_defs wait_step_def split: TransportCommand.splits)
  with sent show ?case by simp
qed simp

lemma runtime_test_passes:
  assumes "2 \<le> after"
  shows "runtime_accepts_outbound_status f before after = Some ()"
proof -
  let ?c = "SendStatus (CommandAcknowledged ReloadUi (Some ''cmd-1''))"
  define p where "p = (scripted_turn f ^^ before) plane_init"
  have idle: "idles p" unfolding p_def by (rule idles_turns)
  let ?q = "p\<lparr>pending := [?c]\<rparr>"
  have sent: "send_status (CommandAcknowledged ReloadUi (Some ''cmd-1'')) p = (Inr (), ?q)"
    using idle by (auto simp: idles_def send_status_def send_command_def)
  have "concat (wires ((scripted_turn f ^^ 2) ?q)) \<noteq> []"
  proof (cases "mode p = Online")
    case True
    then have "concat (wires (scripted_turn f ?q)) \<noteq> []"
      using idle by (cases "wires p") (auto simp: idles_def scripted_defs)
    from sent_stays [OF this, of 1 f] show ?thesis by (simp add: numeral_2_eq_2)
  next
    case False
    with idle show ?thesis by (auto simp: idles_def scripted_defs numeral_2_eq_2)
  qed
  from sent_stays [OF this, of "after - 2" f] have "concat (wires ((scripted_turn f ^^ (2 + (after - 2))) ?q)) \<noteq> []"
    unfolding scripted_turns_add .
  then have "concat (wires ((scripted_turn f ^^ after) ?q)) \<noteq> []"
    unfolding le_add_diff_inverse [OF assms] .
  then show ?thesis
    unfolding runtime_accepts_outbound_status_def Let_def p_def [symmetric] sent by simp
qed

section \<open>All of them\<close>

definition all_unit_tests ::
  "store mutex \<Rightarrow> json_reader \<Rightarrow> resizer \<Rightarrow> string \<Rightarrow> (string list \<Rightarrow> string list) \<Rightarrow>
   (string \<Rightarrow> RgbImage \<Rightarrow> u8 list) \<Rightarrow> (files \<Rightarrow> 'h image_reader) \<Rightarrow> (string \<Rightarrow> dir_entry list result) \<Rightarrow> nat \<Rightarrow> nat \<Rightarrow>
   unit option list" where
  "all_unit_tests m from_json resize tmp listed save read_images read_dir before after =
     [showing_the_photo_already_on_screen_does_not_redraw_it m,
      a_different_photo_still_replaces_what_is_on_screen m,
      an_untagged_photo_is_always_shown m,
      showing_a_photo_replaces_what_is_on_screen_and_keeps_spares m,
      queueing_a_spare_does_not_change_what_is_on_screen m,
      a_tap_moves_to_the_spare m,
      a_tap_with_nothing_in_reserve_is_a_harmless_no_op m,
      raw_pixels_are_read_little_endian,
      a_truncated_download_is_rejected_rather_than_shown,
      black_survives_the_round_trip,
      app_state_transitions_from_splash_to_ready,
      leaving_provisioning_clears_the_wifi_credential,
      losing_the_network_resets_the_controller_phase,
      parses_render_message_with_optional_metadata from_json,
      parses_command_message from_json,
      rejects_metadata_without_media_url,
      rejects_brightness_out_of_range from_json,
      parses_registration_message from_json,
      output_is_always_exactly_panel_sized resize,
      a_photo_shaped_like_the_panel_is_cropped_not_letterboxed resize,
      a_portrait_photo_is_letterboxed_rather_than_cropped_through_faces resize,
      letterbox_bars_are_black_and_the_photo_is_centred resize,
      a_cropped_photo_leaves_no_black_anywhere resize,
      a_zero_sized_image_is_rejected_rather_than_panicking resize,
      recognises_photo_extensions_regardless_of_case,
      our_own_note_is_not_counted_as_an_unreadable_photo,
      an_empty_library_reports_plainly,
      unreadable_files_are_reported_so_a_folder_of_heic_is_explicable,
      a_missing_folder_is_not_an_error read_dir,
      a_photo_on_disk_becomes_a_panel_sized_image tmp listed save read_images,
      photos_are_ordered_predictably_so_naming_files_controls_the_order tmp listed save,
      backoff_doubles_until_maximum,
      runtime_accepts_outbound_status from_json before after]"

text \<open>
  The model passes every unit test of the repository, whatever the tests before it left in the
  photo store, whatever order a folder is listed in, wherever the control plane stands when the
  status is sent, and for any JSON parser, resampler and image codec that do on the
  tests' own inputs what they are documented to do.
\<close>

theorem model_passes_the_unit_tests:
  assumes "m \<noteq> Poisoned" and "reads_test_json from_json" and "keeps_solid_colours resize"
    and "\<And>ns. mset (listed ns) = mset ns" and "reads_back save read_images"
    and "\<not> is_ok (read_dir ''/definitely/not/a/real/path'')" and "2 \<le> after"
  shows "list_all (\<lambda>t. t = Some ())
    (all_unit_tests m from_json resize tmp listed save read_images read_dir before after)"
proof -
  have "a_missing_folder_is_not_an_error read_dir = Some ()"
    using assms(6) by (simp add: a_missing_folder_is_not_an_error_def scan_local_photos_def lib_is_empty_def
        library_default_def is_ok_def split: sum.splits)
  then show ?thesis
    by (simp add: all_unit_tests_def photo_store_tests_pass [OF assms(1)] pixel_tests_pass state_tests_pass
        control_tests_pass [OF assms(2)] fit_tests_pass letterbox_test_passes [OF assms(3)]
        crop_test_passes [OF assms(3)] local_tests_pass disk_test_passes [OF assms(4,5)]
        order_test_passes [OF assms(4)] backoff_test_passes runtime_test_passes [OF assms(7)])
qed

text \<open>Collaborators that behave as documented.\<close>

definition test_json :: json_reader where
  "test_json text =
     (if text = render_json then Inr (blank_message\<lparr>in_media_url := Some ''https://example.com/photo.jpg'',
        in_transition_type := Some Fade, in_brightness := Some 64, in_correlation_id := Some ''abc123''\<rparr>)
      else if text = command_json then
        Inr (blank_message\<lparr>in_cmd := Some ReloadUi, in_correlation_id := Some ''cmd-7''\<rparr>)
      else if text = brightness_json then
        Inr (blank_message\<lparr>in_media_url := Some ''https://example.com/photo.jpg'', in_brightness := Some 255\<rparr>)
      else if text = registration_json then
        Inr (blank_message\<lparr>in_registration := Some
          \<lparr>claimed = True, display_name = Some ''Kitchen Frame'',
           reg_message = Some ''Claimed in Home Assistant'', reg_frame_token = Some ''tok-abc123''\<rparr>\<rparr>)
      else Inl ''not a test'')"

definition nearest_resize :: resizer where
  "nearest_resize img w h = \<lparr>img_width = word_of_nat w, img_height = word_of_nat h,
     get_pixel = (\<lambda>x y. get_pixel img (x * unat (img_width img) div w) (y * unat (img_height img) div h))\<rparr>"

text \<open>An image format of two size fields and no pixels.\<close>

definition save_size :: "string \<Rightarrow> RgbImage \<Rightarrow> u8 list" where
  "save_size name img = concat (map (\<lambda>w. [ucast w, ucast (drop_bit 8 w), ucast (drop_bit 16 w), ucast (drop_bit 24 w)])
     [img_width img, img_height img])"

definition u32_at :: "u8 list \<Rightarrow> nat \<Rightarrow> u32" where
  "u32_at bytes i = ucast (bytes ! i) OR push_bit 8 (ucast (bytes ! (i + 1))) OR
     push_bit 16 (ucast (bytes ! (i + 2))) OR push_bit 24 (ucast (bytes ! (i + 3)))"

definition read_size :: "files \<Rightarrow> (u8 list) image_reader" where
  "read_size fs = \<lparr>
     open_image = (\<lambda>path. case fs_read (file_name path) fs of None \<Rightarrow> Inl (Msg []) | Some bytes \<Rightarrow> Inr bytes),
     guess_format = Inr,
     decode_rgb8 = (\<lambda>bytes. Inr (from_pixel (u32_at bytes 0) (u32_at bytes 4) (0, 0, 0))),
     resize_image = nearest_resize\<rparr>"

lemma u32_bytes:
  "u32_at (save_size name img @ rest) 0 = img_width img" "u32_at (save_size name img @ rest) 4 = img_height img"
proof -
  have bytes: "ucast (ucast w :: u8) OR push_bit 8 (ucast (ucast (drop_bit 8 w) :: u8)) OR
      push_bit 16 (ucast (ucast (drop_bit 16 w) :: u8)) OR push_bit 24 (ucast (ucast (drop_bit 24 w) :: u8)) = w" for w :: u32
  proof (rule bit_word_eqI)
    fix n
    assume "n < LENGTH(32)"
    then show "bit (ucast (ucast w :: u8) OR push_bit 8 (ucast (ucast (drop_bit 8 w) :: u8)) OR
      push_bit 16 (ucast (ucast (drop_bit 16 w) :: u8)) OR push_bit 24 (ucast (ucast (drop_bit 24 w) :: u8)) :: u32) n = bit w n"
      by (cases "24 \<le> n"; cases "16 \<le> n") (auto simp: bit_simps)
  qed
  show "u32_at (save_size name img @ rest) 0 = img_width img" "u32_at (save_size name img @ rest) 4 = img_height img"
    using bytes by (simp_all add: u32_at_def save_size_def)
qed

lemma read_size_reads_back: "reads_back save_size read_size"
  using u32_bytes [of _ _ "[]"]
  by (simp add: reads_back_def read_size_def file_name_join from_pixel_def)

lemma nearest_keeps_solid: "keeps_solid_colours nearest_resize"
  by (simp add: keeps_solid_colours_def nearest_resize_def from_pixel_def)

lemma reads_test_json_test: "reads_test_json test_json"
proof -
  have "length render_json \<noteq> length command_json" "length render_json \<noteq> length brightness_json"
    "length render_json \<noteq> length registration_json" "length command_json \<noteq> length brightness_json"
    "length command_json \<noteq> length registration_json" "length brightness_json \<noteq> length registration_json"
    by code_simp+
  then have "render_json \<noteq> command_json" "render_json \<noteq> brightness_json" "render_json \<noteq> registration_json"
    "command_json \<noteq> brightness_json" "command_json \<noteq> registration_json" "brightness_json \<noteq> registration_json"
    by metis+
  then show ?thesis by (simp add: reads_test_json_def test_json_def)
qed

theorem model_passes_the_unit_tests_witness:
  "list_all (\<lambda>t. t = Some ())
    (all_unit_tests (Unpoisoned one_photo_store) test_json nearest_resize ''/tmp'' rev save_size read_size
      (\<lambda>_. Inl (Msg ''no such directory'')) 3 2)"
  by (rule model_passes_the_unit_tests)
    (simp_all add: reads_test_json_test nearest_keeps_solid read_size_reads_back)

end
