(* ===== verification/Credential_Scan.thy ===== *)
theory Credential_Scan
  imports Local_Photos
begin

text \<open>
  The mechanical guard of the frame's rule on secrets: \<open>frame-core/tests/no_third_party_credentials.rs\<close>, which
  reads every Rust source of the workspace and fails when a line of code names a third-party
  credential.

  The workspace is a tree of files and directories, any of which may be unreadable (\<open>None\<close>); file
  contents are UTF-8. \<open>str::to_lowercase\<close> is the argument \<open>lower\<close>; on ASCII text it is
  \<open>to_ascii_lowercase\<close>. The lemmas say which files are scanned and which lines count, and show a
  kind of line the guard lets through.
\<close>

section \<open>The scan\<close>

definition FORBIDDEN :: "string list" where
  "FORBIDDEN = [''oauth'', ''refresh_token'', ''client_secret'', ''access_token'', ''api_key'', ''id_token'',
     ''photoslibrary'', ''photospicker'']"

definition ALLOWED_SECRET_NAMES :: "string list" where
  "ALLOWED_SECRET_NAMES = [''wifi_psk'', ''frame_token'', ''provisioning_password'']"

datatype source_tree =
    SourceFile string "string option"
  | SourceDir string "source_tree list option"

definition skipped_dir :: "string \<Rightarrow> bool" where
  "skipped_dir name \<longleftrightarrow> name = ''target'' \<or> name = ''vendor'' \<or> has_prefix ''.'' name"

text \<open>The paths pushed onto \<open>out\<close>, with what reading each file gives.\<close>

function rust_sources :: "string \<Rightarrow> source_tree list option \<Rightarrow> (string \<times> string option) list"
  and sources_of :: "string \<Rightarrow> source_tree \<Rightarrow> (string \<times> string option) list" where
  "rust_sources dir None = []"
| "rust_sources dir (Some entries) = concat (map (sources_of dir) entries)"
| "sources_of dir (SourceDir name children) =
     (if skipped_dir name then [] else rust_sources (dir @ ''/'' @ name) children)"
| "sources_of dir (SourceFile name contents) =
     (if extension name = Some ''rs'' then
        (if name = ''no_third_party_credentials.rs'' then [] else [(dir @ ''/'' @ name, contents)])
      else [])"
  by pat_completeness auto

termination
  by (relation "measure (\<lambda>x. case x of Inl (_, es) \<Rightarrow> size_option (size_list size) es | Inr (_, e) \<Rightarrow> size e)")
    (auto split: option.split simp: less_Suc_eq_le intro: size_list_estimation')

text \<open>\<open>str::lines\<close>: a line ends at a newline, which may follow a carriage return.\<close>

definition strip_cr :: "string \<Rightarrow> string" where
  "strip_cr line = (if line \<noteq> [] \<and> last line = CHR 0x0D then butlast line else line)"

definition str_lines :: "string \<Rightarrow> string list" where
  "str_lines s =
     (let parts = split_on (CHR 0x0A) s
      in map strip_cr (butlast parts) @ (if last parts = [] then [] else [last parts]))"

definition is_comment :: "string \<Rightarrow> bool" where
  "is_comment lowered =
     (let trimmed = trim_start lowered
      in has_prefix ''//'' trimmed \<or> has_prefix ''*'' trimmed \<or> has_prefix ''/*'' trimmed)"

definition forbidden_in :: "string \<Rightarrow> string list" where
  "forbidden_in lowered =
     filter (\<lambda>needle. contains_str needle lowered \<and> \<not> list_ex (\<lambda>ok. contains_str ok lowered) ALLOWED_SECRET_NAMES)
       FORBIDDEN"

definition line_violations :: "(string \<Rightarrow> string) \<Rightarrow> string \<Rightarrow> nat \<times> string \<Rightarrow> string list" where
  "line_violations lower path = (\<lambda>(index, line).
     if is_comment (lower line) then []
     else map (\<lambda>needle. path @ '':'' @ show_nat (index + 1) @ '': contains `'' @ needle @ ''`'' @ [CHR 0x0A] @ ''    ''
                          @ str_trim line) (forbidden_in (lower line)))"

definition violations :: "(string \<Rightarrow> string) \<Rightarrow> (string \<times> string option) list \<Rightarrow> string list" where
  "violations lower sources =
     concat (map (\<lambda>(path, contents). case contents of
         None \<Rightarrow> []
       | Some text \<Rightarrow> concat (map (line_violations lower path) (enumerate 0 (str_lines text)))) sources)"

definition frame_holds_no_third_party_credentials ::
  "(string \<Rightarrow> string) \<Rightarrow> string \<Rightarrow> source_tree list option \<Rightarrow> bool" where
  "frame_holds_no_third_party_credentials lower packages tree =
     (let sources = rust_sources packages tree
      in sources \<noteq> [] \<and> violations lower sources = [])"

section \<open>What it guards\<close>

text \<open>A Rust file of the workspace: somewhere below, in readable directories that are not skipped.\<close>

inductive rust_file :: "string \<Rightarrow> string option \<Rightarrow> source_tree list \<Rightarrow> bool" where
  here: "SourceFile name contents \<in> set entries \<Longrightarrow> extension name = Some ''rs'' \<Longrightarrow>
     name \<noteq> ''no_third_party_credentials.rs'' \<Longrightarrow> rust_file name contents entries"
| below: "SourceDir name (Some children) \<in> set entries \<Longrightarrow> \<not> skipped_dir name \<Longrightarrow>
     rust_file path contents children \<Longrightarrow> rust_file (name @ ''/'' @ path) contents entries"

inductive_cases rust_fileE: "rust_file path contents entries"

lemma rust_file_scanned:
  "rust_file path contents entries \<Longrightarrow> (dir @ ''/'' @ path, contents) \<in> set (rust_sources dir (Some entries))"
proof (induction arbitrary: dir rule: rust_file.induct)
  case (below name children entries path contents)
  then show ?case using below.IH [of "dir @ ''/'' @ name"] by (auto intro!: bexI [OF _ below.hyps(1)])
qed force

lemma scanned_rust_file:
  "(full, contents) \<in> set (rust_sources dir tree) \<Longrightarrow>
     \<exists>entries path. tree = Some entries \<and> full = dir @ ''/'' @ path \<and> rust_file path contents entries"
  "(full, contents) \<in> set (sources_of dir e) \<Longrightarrow>
     \<exists>path. full = dir @ ''/'' @ path \<and> (\<forall>entries. e \<in> set entries \<longrightarrow> rust_file path contents entries)"
proof (induction dir tree and dir e rule: rust_sources_sources_of.induct)
  case (3 dir name children)
  then obtain entries path where "children = Some entries" "full = (dir @ ''/'' @ name) @ ''/'' @ path"
    "rust_file path contents entries" "\<not> skipped_dir name" by (auto split: if_splits)
  then show ?case by (intro exI [of _ "name @ ''/'' @ path"]) (auto intro: rust_file.below [simplified])
next
  case (4 dir name contents')
  then show ?case by (auto intro: rust_file.here split: if_splits)
qed force+

text \<open>A line of code that names a forbidden word and no allowed one.\<close>

definition offends :: "(string \<Rightarrow> string) \<Rightarrow> string \<Rightarrow> bool" where
  "offends lower line \<longleftrightarrow> \<not> is_comment (lower line) \<and>
     (\<exists>needle \<in> set FORBIDDEN. contains_str needle (lower line)) \<and>
     (\<forall>ok \<in> set ALLOWED_SECRET_NAMES. \<not> contains_str ok (lower line))"

lemma line_violations_iff: "line_violations lower path (i, line) = [] \<longleftrightarrow> \<not> offends lower line"
  by (auto simp: line_violations_def offends_def forbidden_in_def filter_empty_conv list_ex_iff)

lemma no_violations_iff:
  "violations lower sources = [] \<longleftrightarrow>
     (\<forall>(path, contents) \<in> set sources. \<forall>text. contents = Some text \<longrightarrow> (\<forall>line \<in> set (str_lines text). \<not> offends lower line))"
proof -
  have lines: "(\<forall>il \<in> set (enumerate n ls). line_violations lower path il = []) \<longleftrightarrow> (\<forall>line \<in> set ls. \<not> offends lower line)"
    for n ls path by (induction ls arbitrary: n) (auto simp: line_violations_iff)
  show ?thesis
    unfolding violations_def by (auto simp: lines split: option.splits)
qed

text \<open>
  C37: the guard reads the whole workspace. It passes exactly when the workspace has a Rust file and
  none of them, at any depth outside build output, vendored code and hidden directories, has
  a readable text with a line that is not taken for a comment, contains a forbidden word in any letter
  case and contains no allowed name.
\<close>

theorem guard_passes_iff_no_line_offends:
  "frame_holds_no_third_party_credentials lower packages tree \<longleftrightarrow>
     (\<exists>entries. tree = Some entries \<and> (\<exists>path contents. rust_file path contents entries) \<and>
       \<not> (\<exists>path text line. rust_file path (Some text) entries \<and> line \<in> set (str_lines text) \<and> offends lower line))"
proof (cases tree)
  case None
  then show ?thesis by (simp add: frame_holds_no_third_party_credentials_def)
next
  case (Some entries)
  have "(\<exists>full. (full, contents) \<in> set (rust_sources packages tree)) \<longleftrightarrow> (\<exists>path. rust_file path contents entries)" for contents
    using scanned_rust_file(1) [of _ contents packages tree] rust_file_scanned [of _ contents entries packages] Some by blast
  then have "rust_sources packages tree \<noteq> [] \<longleftrightarrow> (\<exists>path contents. rust_file path contents entries)"
    "(\<forall>(full, contents) \<in> set (rust_sources packages tree). \<forall>text. contents = Some text \<longrightarrow>
        (\<forall>line \<in> set (str_lines text). \<not> offends lower line)) \<longleftrightarrow>
      (\<forall>path text. rust_file path (Some text) entries \<longrightarrow> (\<forall>line \<in> set (str_lines text). \<not> offends lower line))"
    by (metis list.set_intros(1) neq_Nil_conv empty_iff list.set(1) surj_pair, blast)
  then show ?thesis
    using Some by (auto simp: frame_holds_no_third_party_credentials_def Let_def no_violations_iff)
qed

text \<open>
  An assignment through a reference begins with \<open>*\<close>, like the inside of a block comment, and is not
  looked at, whatever it stores.
\<close>

lemma trim_start_visible: "c \<in> set ''*/abcdefghijklmnopqrstuvwxyz'' \<Longrightarrow> trim_start (c # s) = c # s"
proof -
  assume c: "c \<in> set ''*/abcdefghijklmnopqrstuvwxyz''"
  have "list_all (\<lambda>w. w \<noteq> [] \<and> hd w \<notin> set ''*/abcdefghijklmnopqrstuvwxyz'') white_space" by code_simp
  with c have "\<not> (\<exists>w \<in> set white_space. w \<noteq> [] \<and> has_prefix w (c # s))"
    by (auto simp: list_all_iff has_prefix_def take_Cons' neq_Nil_conv split: if_splits) 
  then show ?thesis by (simp add: trim_start_def strip_leading_fixed)
qed

lemma dereferenced_secret_passes: "\<not> offends lower line" if "lower line = CHR ''*'' # rest"
  using that trim_start_visible [of "CHR ''*''" rest] by (simp add: offends_def is_comment_def has_prefix_def)

lemma dereferenced_token_is_not_seen:
  "frame_holds_no_third_party_credentials to_ascii_lowercase ''packages''
     (Some [SourceDir ''src'' (Some [SourceFile ''lib.rs'' (Some ''*slot = access_token;'')])])"
  by code_simp

end
