(* ===== verification/Spec2Isabelle.thy ===== *)
theory Spec2Isabelle
  imports Frame_Faults Top_Up_Races Calls_Return Build_Config Unit_Tests Credential_Scan
begin

text \<open>
  A verification of the firmware of a Home Assistant photo frame: the Rust packages under
  \<open>src/packages\<close>, built for an ESP32-P4.

  \<^bold>\<open>The program.\<close> \<open>main.rs\<close> boots to a setup screen and ticks the provisioning manager until the network is
  up; then it mounts the card and starts threads that share a photo store, the controller phase, the card and a
  queue of outgoing statuses. The control-plane thread holds a WebSocket to Home Assistant and turns its
  payloads into events; the render thread downloads photos, shows them or stores them on the card;
  the health and touch threads ask for more photos and move on to the next; the main thread reconciles
  the panel with the photo store and rotates photos itself when the controller is away. Photos the owner copied
  onto the card run a slideshow of their own.

  \<^bold>\<open>Theories\<close>, each with the file it models:
  \<^item> \<open>Frame_Prelude\<close>, \<open>Frame_Text\<close>: machine integers, errors and results, locks, and the pieces of the Rust
    standard library on strings and slices; \<open>Float_Round\<close>: IEEE rounding of positive rationals.
  \<^item> \<open>Frame_State\<close> (\<open>frame-core/src/state.rs\<close>), \<open>Control_Message\<close> (\<open>control.rs\<close>): the application state and its
    setters; messages and their validation, proved equivalent to a grammar.
  \<^item> \<open>Versioned_View\<close>: the contract between a store with a generation and a reader that compares generations;
    provided by \<open>Rendered_Image\<close> (\<open>frame-ui/src/rendered_image.rs\<close>, the photo store) and \<open>Controller_State\<close>.
  \<^item> \<open>Panel_Display\<close> (\<open>panel.rs\<close>), \<open>Ui_Sync\<close> (\<open>ui.rs\<close>, \<open>screens.rs\<close>): canvas, rotation, screens, reconciliation.
  \<^item> \<open>Sd_Card\<close>, \<open>Photo_Cache\<close> (\<open>frame-firmware/src/sd_card.rs\<close>, \<open>photo_cache.rs\<close>): the card and its photos;
    \<open>Photo_Reserve\<close> is the contract of a first-in first-out reserve with room, which the cache provides.
  \<^item> \<open>Photo_Fit\<close> (\<open>fit.rs\<close>), \<open>Local_Photos\<close> (\<open>local_photos.rs\<close>): fitting in single precision, the folder scan and
    the slideshow.
  \<^item> \<open>Render_Executor\<close>, \<open>Control_Plane\<close> (\<open>runtime.rs\<close>): downloads, executors, the render loop; backoff, the
    socket, and the control-plane loop as a step machine over what the network and other threads do; the wait of
    its backoff is told how much time goes by.
  \<^item> \<open>Wifi_Driver\<close>, \<open>Provisioning\<close> (\<open>frame-net/src\<close>), \<open>Captive_Portal\<close>: joining networks, the setup access point, the
    portal's HTTP, forms and DNS; \<open>provisioning_manager\<close> is the contract the boot loop relies on. The radio is a
    state (its configuration, on or off) that every driver call maps to another; \<open>truthful\<close> is what a driver must
    be for the theorems on the access point: what it reads back is what the radio runs with.
  \<^item> \<open>Setup_Store\<close> (\<open>setup_state_store.rs\<close>): the checkpoint record, from three one-byte codes of the locale
    \<open>byte_codec\<close>; \<open>Touch_Input\<close> (\<open>touch.rs\<close>): taps.
  \<^item> \<open>Firmware_Boot\<close>, \<open>Firmware_Loop\<close> (\<open>main.rs\<close>): identity, start-up and boot loop; photo source, requests,
    health, taps and the main loop.
  \<^item> \<open>Frame_System\<close>: the threads together. A \<open>system\<close> is the control plane, the main thread's display and clock, the
    shared photos and card, the event channel, the slideshow and the finger; \<open>system_step\<close> is one turn of one thread, and
    a run is any list of turns. Its two invariants, \<open>tracks\<close> and \<open>linked\<close>, say what the display shows and what the
    threads rely on from each other. \<open>Running_Frame\<close>: what follows for the whole firmware from power-on.
    \<open>Frame_Faults\<close>: two faults that only the parts together have, a small picture that ends the main loop and an
    announcement that forgets the controller.
  \<^item> \<open>Card_Threads\<close>, \<open>Top_Up_Races\<close>: \<open>top_up_from_cache\<close>, \<open>take_oldest\<close> and \<open>store\<close> again, one file operation or one
    locked section at a time, for any number of threads; \<open>pool_step\<close> is one step of one thread. The turns of the
    system are runs of these threads; what holds without a lock on the card, and what does not.
    \<open>Calls_Return\<close>: every such call ends, under every interleaving and on any card.
  \<^item> \<open>Credential_Scan\<close> (\<open>frame-core/tests/no_third_party_credentials.rs\<close>): the guard on third-party credentials.
    \<open>Unit_Tests\<close>: the \<open>#[cfg(test)]\<close> modules of six files, which the model passes.
  \<^item> \<open>Build_Config\<close> (the three \<open>build.rs\<close>): the lines that the build scripts print, and through them where the Wi-Fi
    credentials and the controller's address come from.
  \<^item> This theory: single chains from the controller's payload, and from the card, to the glass.

  \<^bold>\<open>State.\<close> Records mirror the structs; a \<open>static Mutex\<close> is a \<open>mutex\<close> value, poisoned or not, that each operation
  takes and returns. Operations of threads interleave as lists of steps: the store's operations in
  \<open>ui_run\<close>, the inputs of \<open>plane_step\<close>, the calls of \<open>request_run\<close>, the turns of \<open>system_run\<close>. A turn of the system is
  atomic, although the code takes its locks one operation at a time; \<open>ui_run\<close> allows any operations of the store between
  two reconciliations, so what the display shows does not rest on that, and \<open>pool_step\<close> lets threads meet in
  the card's folder between any two file operations. An endless loop is a step function and a
  run over the environments its iterations meet, so a run of any length is covered and no fuel is needed;
  where the claim is that something ends or goes on, it says so (\<open>read_ends_iff_something_decides\<close>,
  \<open>slideshow_never_spins\<close>, \<open>interleaved_calls_return\<close>, \<open>frame_reconnects\<close>). Recursion that is not structural (\<open>top_up_from_cache\<close>,
  \<open>percent_decode\<close>, \<open>skip_name\<close>) has a termination proof.

  \<^bold>\<open>Numbers.\<close> \<open>u8\<close> to \<open>u64\<close> are words and wrap; \<open>usize\<close> values are natural numbers with the 32-bit bound written
  where it can be reached; the generation counters wrap, and the theorems on the display bound the operations or turns
  by \<open>2 ^ 59\<close> to \<open>2 ^ 64\<close>, which no device outlives; durations and instants are nanoseconds; \<open>f32\<close> and \<open>f64\<close> are rationals rounded
  to 24 and 53 bits, with no overflow in the ranges used.

  \<^bold>\<open>Outside the model\<close>, as parameters: the Wi-Fi driver, TCP, tungstenite, the HTTP client, serde_json, the URL
  parser, the image decoder and resampler, fonts, the display and touch drivers, the file system's faults,
  flash storage, the build-time environment, and Cargo's treatment of what build scripts print. Theorems that need one of them to behave say how, and
  each has a witness in which it does.

  \<^bold>\<open>Not modelled\<close>: log output and its set-up; sleeps, except where pacing is the claim; stack sizes and
  placement; imports and re-exports; the C components; the Bluetooth
  spike beyond its name; and the Home Assistant integration in Python, which is the other end of the
  socket.
\<close>

section \<open>From the controller to the glass\<close>

text \<open>
  A photo the controller asks for reaches the glass. When a connected frame with nothing waiting to
  be sent receives a valid request to show raw pixels, and the download gives them, then the event is
  handed to the render loop, the phase becomes \<open>Connected\<close>, the render loop reports the start and the completion
  with the request's own URL and correlation id, and the next reconciliation on a working display succeeds and
  leaves exactly those pixels, turned, on the glass.
\<close>

theorem requested_photo_reaches_the_glass:
  assumes "mode p = Online" and "pending p = []" and "senders_alive p" and "renderer_alive p"
    and "parse_control_message from_json payload = Inr (Render r)" and "\<not> queue r"
    and "correlation_id r = Some i" and "Option.bind (front s) image_id \<noteq> Some i"
    and "memory f = Unpoisoned s" and "\<not> local_active f" and "ui_run s u0"
    and "download_media (http_client io) (frame_token (frame_token_slot f)) (media_url r) = Inr bytes"
    and "is_raw_pixels (media_url r) (length bytes)"
  shows "forwarded (plane_step t from_json p (Exchange send (Inr (Some payload)))) = forwarded p @ [Render r] \<and>
    (\<exists>f' u1. run_render_controller_loop (media_executor embedded) [(io, Render r)] f =
        ([RenderStarted (media_url r) (Some i), RenderCompleted (media_url r) (Some i)], f', True) \<and>
      sync font (Inr ()) st (memory f') ctl u0 = (Inr (), u1) \<and>
      glass (panel u1) = quarter_turn (decode_le bytes))"
proof -
  let ?img = "with_id (panel_image bytes) i" and ?s = "store_run s [OpShow (with_id (panel_image bytes) i)]"
  have fwd: "forwarded (plane_step t from_json p (Exchange send (Inr (Some payload)))) = forwarded p @ [Render r]"
    using assms(1-5) by (simp add: plane_step_def exchange_step_def try_recv_step_def receive_def set_phase_def Let_def)
  have img: "image_from_rgb565_bytes bytes = Inr (panel_image bytes)" "WIDTH * HEIGHT \<le> length (rgb565 ?img)"
    using panel_bytes [OF assms(13)] by (simp_all add: panel_image_def with_id_def)
  have "\<not> same_id ?img s"
    using assms(8) by (auto simp: same_id_def with_id_def panel_image_def split: option.splits if_splits)
  then have front: "front ?s = Some ?img"
    by (simp add: store_run_def show_body_def front_def)
  have render: "media_render io r f = (Inr (), f\<lparr>memory := Unpoisoned ?s\<rparr>)"
    using assms(6,7,9,10,12,13) img(1)
    by (simp add: media_render_def local_photos_active_def build_image_def unwrap_or_default_def
        show_rendered_image_def store_run_def)
  obtain u1 where sync: "sync font (Inr ()) st (Unpoisoned ?s) ctl u0 = (Inr (), u1)"
    using sync_photo_ok [OF front img(2), of font st ctl u0] by (metis prod.collapse)
  have "glass (panel u1) = quarter_turn (rgb565 ?img)"
    using coherent_sync [OF _ _ sync] ui_run_coherent [OF assms(11)] front by simp
  with fwd render sync assms(7) show ?thesis
    by (simp add: handle_event_def media_executor_def render_report_def panel_image_def with_id_def)
qed

theorem requested_photo_reaches_the_glass_witness:
  "\<exists>f' u1. run_render_controller_loop (media_executor True) [(pixel_io, Render show_request)] fresh_frame =
      ([RenderStarted ''p?format=rgb565'' (Some ''a1''), RenderCompleted ''p?format=rgb565'' (Some ''a1'')], f', True) \<and>
    sync blank_font (Inr ()) app_state_new (memory f') Poisoned create_ui = (Inr (), u1) \<and>
    glass (panel u1) = quarter_turn (decode_le black_photo)"
proof -
  let ?p = "plane_init\<lparr>mode := Online, wires := [[]]\<rparr>"
  have plane: "mode ?p = Online" "pending ?p = []" "senders_alive ?p" "renderer_alive ?p" by simp_all
  have request: "\<not> queue show_request" "correlation_id show_request = Some ''a1''"
    "media_url show_request = ''p?format=rgb565''" by (simp_all add: show_request_def)
  have frame: "Option.bind (front store_init) image_id \<noteq> Some ''a1''" "memory fresh_frame = Unpoisoned store_init"
    "\<not> local_active fresh_frame" by (simp_all add: fresh_frame_def)
  have download: "download_media (http_client pixel_io) (frame_token (frame_token_slot fresh_frame)) (media_url show_request)
      = Inr black_photo"
    by (simp add: pixel_io_def offline_io_def download_media_def pixel_http_def black_photo_facts)
  have raw: "is_raw_pixels (media_url show_request) (length black_photo)"
    using raw_pixels_example by (simp add: request)
  from requested_photo_reaches_the_glass [OF plane show_json_parses request(1,2) frame ui_run.boot download raw]
  show ?thesis by (simp add: request)
qed

section \<open>From the card to the glass\<close>

text \<open>
  C22: a photo the owner copied onto the card reaches the glass, whatever its size. On a frame showing
  nothing, the slideshow's first photo that can be decoded is put up by the next reconciliation on a working
  display, which succeeds and leaves it, fitted to a whole panel and turned, on the glass.
\<close>

theorem local_photo_reaches_the_glass:
  assumes "lib_photos lib \<noteq> []" and "load_photo rd (lib_photos lib ! (index sl mod lib_len lib)) = Inr img"
    and "buffer s = []" and "ui_run s u0"
    and "slideshow_step lib rd (sl, Unpoisoned s) = (did, sl', m')"
  shows "\<exists>u1. sync font (Inr ()) st m' ctl u0 = (Inr (), u1) \<and> glass (panel u1) = quarter_turn (rgb565 img) \<and>
    length (rgb565 img) = WIDTH * HEIGHT \<and> snd did = 30"
proof -
  let ?s = "store_run s [OpPush img]"
  have m': "m' = Unpoisoned ?s" and did: "snd did = 30"
    using assms(2,5) by (auto simp: slideshow_step_def push_rendered_image_def store_run_def ROTATION_INTERVAL_def Let_def)
  have front: "front ?s = Some img"
    using assms(3) by (simp add: store_run_def push_body_def make_room_def BUFFER_CAPACITY_def front_def Let_def)
  have len: "length (rgb565 img) = WIDTH * HEIGHT"
    using loaded_photo_is_a_panel [OF assms(2)] by (simp add: panel_sizes)
  obtain u1 where sync: "sync font (Inr ()) st (Unpoisoned ?s) ctl u0 = (Inr (), u1)"
    using sync_photo_ok [OF front, of font st ctl u0] len by (metis order_refl prod.collapse)
  then show ?thesis
    using coherent_sync [OF _ _ sync] ui_run_coherent [OF assms(4)] front m' did len by auto
qed

theorem local_photo_reaches_the_glass_witness:
  "\<exists>u1 img. load_photo working_reader ''/sdcard/media/a.jpg'' = Inr img \<and>
     sync blank_font (Inr ()) app_state_new
       (snd (snd (slideshow_step two_photos working_reader (slideshow_init, Unpoisoned store_init)))) Poisoned create_ui = (Inr (), u1) \<and>
     glass (panel u1) = quarter_turn (rgb565 img)"
proof -
  obtain img where load: "load_photo working_reader ''/sdcard/media/a.jpg'' = Inr img"
    using working_reader_loads by blast
  then have "load_photo working_reader (lib_photos two_photos ! (index slideshow_init mod lib_len two_photos)) = Inr img"
    by (simp add: two_photos_def slideshow_init_def)
  moreover obtain did sl m where "slideshow_step two_photos working_reader (slideshow_init, Unpoisoned store_init) = (did, sl, m)"
    by (metis prod_cases3)
  moreover have "lib_photos two_photos \<noteq> []" "buffer store_init = []" by (simp_all add: two_photos_def store_init_def)
  ultimately show ?thesis
    using local_photo_reaches_the_glass [of two_photos working_reader slideshow_init img store_init create_ui did sl m blank_font
        app_state_new Poisoned] ui_run.boot [of store_init] load
    by auto
qed

end
